(* ===== verification/Rm_Prelude.thy ===== *)
theory Rm_Prelude
  imports Main "HOL-Library.Word" "HOL-Library.Multiset" "HOL-Library.AList" "HOL-Library.List_Lexorder"
    "HOL-Library.Char_ord" "HOL-Library.Product_Lexorder"
begin

text \<open>
  The prelude of the library: the types every component shares (byte strings, machine words,
  instants, the outcome of a computation that may fail or panic), the record of what the code
  reads from outside itself (the hasher, the two clocks, the random generator), the library's
  collections of rewrite rules, and the generic lemmas on association lists and distinct lists,
  which stand for the standard library's \<open>HashMap\<close> and \<open>HashSet\<close>.
\<close>

section \<open>Collections of facts\<close>

named_theorems size_simps \<open>how the size of a container changes under one operation\<close>
named_theorems engine_defs \<open>definitions of the operations of the storage engine\<close>
named_theorems wf_intros \<open>introduction rules for the well-formedness predicates\<close>

section \<open>Bytes and words\<close>

text \<open>
  A byte is a HOL \<open>char\<close> (exactly 256 of them), so that the string literals of the source are
  string literals of the model. \<open>byte\<close> reads its value.
\<close>

type_synonym bytes = string
type_synonym u16 = "16 word"
type_synonym u32 = "32 word"
type_synonym u64 = "64 word"

abbreviation byte :: "char \<Rightarrow> nat" where
  "byte c \<equiv> of_char c"

lemma byte_eq_iff: "byte c = byte d \<longleftrightarrow> c = d"
  by (metis char_of_char)

section \<open>Outcomes\<close>

text \<open>
  The outcome of Rust code that returns a \<open>Result\<close> and can also panic. Code that only returns a
  \<open>Result\<close> is modelled with the sum type, \<open>Inl\<close> for \<open>Err\<close>.
\<close>

datatype 'a outcome = Done 'a | Failed string | Panicked

section \<open>Time\<close>

text \<open>
  \<open>Instant\<close>, \<open>SystemTime\<close> and \<open>Duration\<close> are counted in nanoseconds. An \<open>Instant\<close> of the
  supported platforms keeps its seconds in an \<open>i64\<close>; \<open>Instant + Duration\<close> panics when the
  sum does not fit, which \<open>instant_add\<close> says with \<^term>\<open>None\<close>.
\<close>

type_synonym instant = nat
type_synonym duration = nat

abbreviation nanos_per_sec :: nat where
  "nanos_per_sec \<equiv> 1000000000"

abbreviation nanos_per_milli :: nat where
  "nanos_per_milli \<equiv> 1000000"

definition instant_add :: "instant \<Rightarrow> duration \<Rightarrow> instant option" where
  "instant_add at d =
     (if (at + d) div nanos_per_sec < 2 ^ 63 then Some (at + d) else None)"

lemma instant_add_Some: "instant_add at d = Some t \<Longrightarrow> t = at + d"
  by (simp add: instant_add_def split: if_splits)

section \<open>What the code reads from outside\<close>

text \<open>
  \<open>env_hash\<close> is the standard library's \<open>DefaultHasher\<close>, whose algorithm its documentation leaves
  unspecified; \<open>env_now\<close> and \<open>env_unix\<close> are the readings of \<open>Instant::now()\<close> and of
  \<open>SystemTime::now()\<close> (since the Unix epoch) while an operation runs; \<open>env_rand n\<close> is the index
  the \<open>rand\<close> crate draws from \<open>0..n\<close>, below \<open>n\<close> by its documentation when \<open>n\<close> is not 0.
\<close>

record env =
  env_hash :: "bytes \<Rightarrow> u64"
  env_now :: instant
  env_unix :: nat
  env_rand :: "nat \<Rightarrow> nat"

definition rand_in_range :: "env \<Rightarrow> bool" where
  "rand_in_range \<epsilon> \<longleftrightarrow> (\<forall>n > 0. env_rand \<epsilon> n < n)"

section \<open>Association lists as hash maps\<close>

text \<open>
  A \<open>HashMap\<close> is an association list with distinct keys: the list order stands for the map's
  unspecified iteration order, and no property of the development depends on which order it is.
  \<open>AList.update\<close> is \<open>HashMap::insert\<close> (it replaces the value of a key it finds), \<open>AList.delete\<close>
  is \<open>HashMap::remove\<close>, \<open>map_of\<close> is \<open>HashMap::get\<close>.
\<close>

type_synonym ('k, 'v) hmap = "('k \<times> 'v) list"

abbreviation hm_ok :: "('k, 'v) hmap \<Rightarrow> bool" where
  "hm_ok m \<equiv> distinct (map fst m)"

definition hm_sum :: "('k \<Rightarrow> 'v \<Rightarrow> nat) \<Rightarrow> ('k, 'v) hmap \<Rightarrow> nat" where
  "hm_sum f m = sum_list (map (\<lambda>(k, v). f k v) m)"

lemma hm_sum_Nil [simp]: "hm_sum f [] = 0"
  by (simp add: hm_sum_def)

lemma hm_sum_Cons [simp]: "hm_sum f ((k, v) # m) = f k v + hm_sum f m"
  by (simp add: hm_sum_def)

lemma hm_sum_append [simp]: "hm_sum f (m @ m') = hm_sum f m + hm_sum f m'"
  by (simp add: hm_sum_def)

lemma hm_sum_delete [size_simps]:
  assumes "hm_ok m" and "map_of m k = Some v"
  shows "hm_sum f m = f k v + hm_sum f (AList.delete k m)"
  using assms
proof (induction m)
  case (Cons p m)
  obtain k' v' where p: "p = (k', v')" by (cases p)
  show ?case
  proof (cases "k' = k")
    case True
    with Cons.prems p have "k \<notin> fst ` set m" by auto
    with True Cons.prems p show ?thesis by simp
  next
    case False
    with Cons p show ?thesis by simp
  qed
qed simp

lemma hm_delete_absent: "map_of m k = None \<Longrightarrow> AList.delete k m = m"
  by (simp add: map_of_eq_None_iff)

lemma hm_sum_update_new [size_simps]:
  "map_of m k = None \<Longrightarrow> hm_sum f (AList.update k v m) = hm_sum f m + f k v"
  by (induction m) (auto split: if_splits)

lemma hm_sum_update [size_simps]:
  assumes "map_of m k = Some v"
  shows "hm_sum f (AList.update k v' m) + f k v = hm_sum f m + f k v'"
  using assms by (induction m) (auto split: if_splits)

lemma hm_length_sum: "length m = hm_sum (\<lambda>_ _. 1) m"
  by (induction m) auto

lemma map_of_update [simp]: "map_of (AList.update k v m) = (map_of m)(k \<mapsto> v)"
  by (rule update_conv')

lemma map_of_delete [simp]: "map_of (AList.delete k m) = (map_of m)(k := None)"
  by (rule delete_conv')

lemma hm_ok_update [simp, intro]: "hm_ok m \<Longrightarrow> hm_ok (AList.update k v m)"
  by (rule distinct_update)

lemma hm_ok_delete [simp, intro]: "hm_ok m \<Longrightarrow> hm_ok (AList.delete k m)"
  by (rule distinct_delete)

lemma hm_ok_filter [simp, intro]: "hm_ok m \<Longrightarrow> hm_ok (filter P m)"
  by (rule distinct_map_filter)

lemma set_update_hmap:
  "hm_ok m \<Longrightarrow> set (AList.update k v m) = insert (k, v) {p \<in> set m. fst p \<noteq> k}"
  by (induction m) force+

lemma update_eq_Nil [simp]: "AList.update k v m \<noteq> []"
  by (induction m) auto

lemma map_of_filter_hmap:
  assumes "hm_ok m"
  shows "map_of (filter P m) k = (case map_of m k of None \<Rightarrow> None
           | Some v \<Rightarrow> if P (k, v) then Some v else None)"
  using assms
proof (induction m)
  case (Cons p m)
  obtain k' v' where p: "p = (k', v')" by (cases p)
  show ?case
  proof (cases "k' = k")
    case True
    with Cons.prems p have "map_of m k = None" by (force simp: map_of_eq_None_iff)
    with Cons p True show ?thesis by simp
  next
    case False
    with Cons p show ?thesis by simp
  qed
qed simp

lemma hm_sum_filter_split: "hm_sum f m = hm_sum f (filter P m) + hm_sum f (filter (\<lambda>p. \<not> P p) m)"
  by (induction m) (auto simp: hm_sum_def)

section \<open>Distinct lists as hash sets\<close>

text \<open>A \<open>HashSet\<close> is a distinct list, again with the list order for its iteration order.\<close>

definition hs_insert :: "'a \<Rightarrow> 'a list \<Rightarrow> 'a list" where
  "hs_insert x s = (if x \<in> set s then s else s @ [x])"

definition hs_remove :: "'a \<Rightarrow> 'a list \<Rightarrow> 'a list" where
  "hs_remove x s = filter (\<lambda>y. y \<noteq> x) s"

lemma set_hs_insert [simp]: "set (hs_insert x s) = insert x (set s)"
  by (auto simp: hs_insert_def)

lemma distinct_hs_insert [simp, intro]: "distinct s \<Longrightarrow> distinct (hs_insert x s)"
  by (simp add: hs_insert_def)

lemma set_hs_remove [simp]: "set (hs_remove x s) = set s - {x}"
  by (auto simp: hs_remove_def)

lemma distinct_hs_remove [simp, intro]: "distinct s \<Longrightarrow> distinct (hs_remove x s)"
  by (simp add: hs_remove_def)

lemma hs_remove_absent [simp]: "x \<notin> set s \<Longrightarrow> hs_remove x s = s"
  by (induction s) (auto simp: hs_remove_def)

lemma sum_list_hs_remove [size_simps]:
  fixes f :: "'a \<Rightarrow> nat"
  assumes "distinct s" and "x \<in> set s"
  shows "sum_list (map f s) = f x + sum_list (map f (hs_remove x s))"
  using assms
proof (induction s)
  case (Cons y s)
  show ?case
  proof (cases "y = x")
    case True
    with Cons.prems have "hs_remove x s = s" by simp
    with True show ?thesis by (simp add: hs_remove_def)
  next
    case False
    with Cons show ?thesis by (simp add: hs_remove_def)
  qed
qed simp

lemma hs_insert_eq_Nil [simp]: "hs_insert x s \<noteq> []"
  by (simp add: hs_insert_def) (metis empty_iff empty_set)

section \<open>Lists\<close>

text \<open>The index of the first element that satisfies a predicate (\<open>Iterator::position\<close>).\<close>

fun position :: "('a \<Rightarrow> bool) \<Rightarrow> 'a list \<Rightarrow> nat option" where
  "position P [] = None"
| "position P (x # xs) = (if P x then Some 0 else map_option Suc (position P xs))"

lemma position_Some: "position P l = Some i \<Longrightarrow> i < length l \<and> P (l ! i) \<and> (\<forall>j < i. \<not> P (l ! j))"
  by (induction l arbitrary: i) (auto simp: less_Suc_eq_0_disj split: if_splits)

lemma position_None: "position P l = None \<longleftrightarrow> (\<forall>x \<in> set l. \<not> P x)"
  by (induction l) auto

lemma sum_list_take_drop:
  fixes f :: "'a \<Rightarrow> nat"
  shows "sum_list (map f xs) = sum_list (map f (take n xs)) + sum_list (map f (drop n xs))"
  by (metis append_take_drop_id map_append sum_list_append)

lemma sum_list_update:
  fixes f :: "'a \<Rightarrow> nat"
  assumes "i < length xs"
  shows "sum_list (map f (xs[i := x])) + f (xs ! i) = sum_list (map f xs) + f x"
  using assms by (induction xs arbitrary: i) (auto split: nat.splits)

section \<open>Wrapping counters\<close>

text \<open>
  \<open>AtomicUsize\<close> counters wrap. The three rules below move a counter that tracks a sum of sizes
  through an addition, a subtraction and a signed adjustment.
\<close>

lemma counter_add: "(of_nat a :: u64) + of_nat b = of_nat (a + b)"
  by simp

lemma counter_sub: "b \<le> a \<Longrightarrow> (of_nat a :: u64) - of_nat b = of_nat (a - b)"
  by (simp add: of_nat_diff)

lemma counter_adjust:
  assumes "int b = int a + d"
  shows "(of_nat a :: u64) + of_int d = of_nat b"
proof -
  have "(of_nat a :: u64) + of_int d = of_int (int a + d)" by simp
  also have "\<dots> = of_nat b" by (simp flip: assms)
  finally show ?thesis .
qed

end
