(* ===== verification/Rm_Value.thy ===== *)
theory Rm_Value
  imports Rm_Prelude
begin

text \<open>
  The values of the keyspace (\<open>crates/engine/src/value.rs\<close>): the sorted set, with its two indexes
  kept in step, and the five kinds of value with their size estimate. Scores are of a type
  \<open>'f\<close> in class \<open>linorder\<close>: the source compares \<open>OrderedFloat\<close> values, of which it uses only
  the total order. The invariant of the sorted set says that its two indexes describe the same
  pairs; \<open>value_ok\<close> is the invariant of a value.
\<close>

section \<open>Sorted sets\<close>

record 'f sorted_set =
  scores :: "(bytes, 'f) hmap"
  by_score :: "('f \<times> bytes) list"

text \<open>A \<open>BTreeSet\<close> is its elements in ascending order.\<close>

definition btree_insert :: "'a::linorder \<Rightarrow> 'a list \<Rightarrow> 'a list" where
  "btree_insert x s = (if x \<in> set s then s else insort x s)"

definition btree_remove :: "'a::linorder \<Rightarrow> 'a list \<Rightarrow> 'a list" where
  "btree_remove x s = remove1 x s"

definition zs_new :: "'f::linorder sorted_set" where
  "zs_new = \<lparr>scores = [], by_score = []\<rparr>"

definition zs_insert :: "bytes \<Rightarrow> 'f::linorder \<Rightarrow> 'f sorted_set \<Rightarrow> 'f sorted_set" where
  "zs_insert member score z =
     (let by = (case map_of (scores z) member of
                  Some old \<Rightarrow> btree_remove (old, member) (by_score z)
                | None \<Rightarrow> by_score z)
      in \<lparr>scores = AList.update member score (scores z),
          by_score = btree_insert (score, member) by\<rparr>)"

definition zs_remove :: "bytes \<Rightarrow> 'f::linorder sorted_set \<Rightarrow> bool \<times> 'f sorted_set" where
  "zs_remove member z =
     (case map_of (scores z) member of
        Some score \<Rightarrow>
          (True, \<lparr>scores = AList.delete member (scores z),
                  by_score = btree_remove (score, member) (by_score z)\<rparr>)
      | None \<Rightarrow> (False, z))"

definition zs_score :: "'f::linorder sorted_set \<Rightarrow> bytes \<Rightarrow> 'f option" where
  "zs_score z member = map_of (scores z) member"

definition zs_len :: "'f::linorder sorted_set \<Rightarrow> nat" where
  "zs_len z = length (scores z)"

definition zs_is_empty :: "'f::linorder sorted_set \<Rightarrow> bool" where
  "zs_is_empty z \<longleftrightarrow> scores z = []"

definition zs_members_ascending :: "'f::linorder sorted_set \<Rightarrow> bytes list" where
  "zs_members_ascending z = map snd (by_score z)"

text \<open>The two indexes hold the same (score, member) pairs, the second one in strict order.\<close>

definition zs_ok :: "'f::linorder sorted_set \<Rightarrow> bool" where
  "zs_ok z \<longleftrightarrow> hm_ok (scores z) \<and> sorted (by_score z) \<and> distinct (by_score z)
     \<and> (\<forall>s m. (s, m) \<in> set (by_score z) \<longleftrightarrow> map_of (scores z) m = Some s)"

lemma set_btree_insert [simp]: "set (btree_insert x s) = insert x (set s)"
  by (auto simp: btree_insert_def set_insort_key)

lemma sorted_btree_insert [simp]: "sorted s \<Longrightarrow> sorted (btree_insert x s)"
  by (simp add: btree_insert_def sorted_insort)

lemma distinct_btree_insert [simp]: "distinct s \<Longrightarrow> distinct (btree_insert x s)"
  by (simp add: btree_insert_def distinct_insort)

lemma set_btree_remove [simp]: "distinct s \<Longrightarrow> set (btree_remove x s) = set s - {x}"
  by (simp add: btree_remove_def)

lemma sorted_btree_remove [simp]: "sorted s \<Longrightarrow> sorted (btree_remove x s)"
  by (simp add: btree_remove_def sorted_remove1)

lemma distinct_btree_remove [simp]: "distinct s \<Longrightarrow> distinct (btree_remove x s)"
  by (simp add: btree_remove_def)

lemma zs_ok_new [simp, wf_intros]: "zs_ok zs_new"
  by (simp add: zs_ok_def zs_new_def)

lemma zs_score_new [simp]: "zs_score zs_new m = None"
  by (simp add: zs_score_def zs_new_def)

lemma zs_score_insert [simp]:
  "zs_score (zs_insert m s z) m' = (if m' = m then Some s else zs_score z m')"
  by (simp add: zs_score_def zs_insert_def Let_def)

lemma zs_score_remove [simp]:
  "zs_score (snd (zs_remove m z)) m' = (if m' = m then None else zs_score z m')"
  by (auto simp: zs_score_def zs_remove_def split: option.splits)

lemma zs_ok_insert [simp, wf_intros]:
  assumes "zs_ok z"
  shows "zs_ok (zs_insert m s z)"
proof (cases "map_of (scores z) m")
  case None
  with assms show ?thesis by (auto simp: zs_ok_def zs_insert_def)
next
  case (Some old)
  with assms show ?thesis by (auto simp: zs_ok_def zs_insert_def dest: eq_key_imp_eq_value)
qed

lemma zs_ok_remove [simp, wf_intros]:
  assumes "zs_ok z"
  shows "zs_ok (snd (zs_remove m z))"
  using assms by (cases "map_of (scores z) m") (auto simp: zs_ok_def zs_remove_def dest: eq_key_imp_eq_value)

text \<open>
  The order of \<open>members_ascending\<close> is a function of the member-to-score map alone: the set of
  pairs in ascending order of score and then of member.
\<close>

lemma by_score_canonical:
  assumes "zs_ok z"
  shows "by_score z = sorted_list_of_set {(s, m). zs_score z m = Some s}"
proof -
  have "set (by_score z) = {(s, m). zs_score z m = Some s}"
    using assms by (auto simp: zs_ok_def zs_score_def)
  moreover have "sorted_list_of_set (set (by_score z)) = by_score z"
    using assms by (simp add: zs_ok_def sorted_list_of_set.idem_if_sorted_distinct)
  ultimately show ?thesis by simp
qed

lemma zs_members_set:
  "zs_ok z \<Longrightarrow> set (zs_members_ascending z) = {m. zs_score z m \<noteq> None}"
  by (force simp: zs_ok_def zs_score_def zs_members_ascending_def image_iff)

lemma zs_members_distinct:
  assumes "zs_ok z"
  shows "distinct (zs_members_ascending z)"
proof -
  have "inj_on snd (set (by_score z))"
    using assms by (auto simp: zs_ok_def inj_on_def dest: eq_key_imp_eq_value)
  with assms show ?thesis by (simp add: zs_members_ascending_def distinct_map zs_ok_def)
qed

lemma zs_members_mset_scores:
  assumes "zs_ok z"
  shows "mset (zs_members_ascending z) = mset (map fst (scores z))"
proof -
  have "set (map fst (scores z)) = {m. zs_score z m \<noteq> None}"
    by (force simp: zs_score_def map_of_eq_None_iff)
  with assms show ?thesis
    by (metis set_eq_iff_mset_eq_distinct zs_members_distinct zs_members_set zs_ok_def)
qed

lemma zs_len_members: "zs_ok z \<Longrightarrow> length (zs_members_ascending z) = zs_len z"
  by (metis length_map size_mset zs_len_def zs_members_mset_scores)

section \<open>Values\<close>

datatype 'f kvalue =
    VString bytes
  | VList "bytes list"
  | VHash "(bytes, bytes) hmap"
  | VSet "bytes list"
  | VSortedSet "'f sorted_set"

fun type_name :: "'f kvalue \<Rightarrow> bytes" where
  "type_name (VString _) = ''string''"
| "type_name (VList _) = ''list''"
| "type_name (VHash _) = ''hash''"
| "type_name (VSet _) = ''set''"
| "type_name (VSortedSet _) = ''zset''"

fun is_empty_collection :: "'f::linorder kvalue \<Rightarrow> bool" where
  "is_empty_collection (VString _) = False"
| "is_empty_collection (VList l) = (l = [])"
| "is_empty_collection (VHash m) = (m = [])"
| "is_empty_collection (VSet s) = (s = [])"
| "is_empty_collection (VSortedSet z) = zs_is_empty z"

abbreviation OVERHEAD :: nat where
  "OVERHEAD \<equiv> 48"

definition list_size :: "bytes list \<Rightarrow> nat" where
  "list_size l = sum_list (map (\<lambda>b. length b + 8) l)"

definition hash_size :: "(bytes, bytes) hmap \<Rightarrow> nat" where
  "hash_size m = hm_sum (\<lambda>k v. length k + length v + 16) m"

definition zset_size :: "'f::linorder sorted_set \<Rightarrow> nat" where
  "zset_size z = sum_list (map (\<lambda>m. length m + 24) (zs_members_ascending z))"

fun approx_size :: "'f::linorder kvalue \<Rightarrow> nat" where
  "approx_size (VString b) = OVERHEAD + length b"
| "approx_size (VList l) = OVERHEAD + list_size l"
| "approx_size (VHash m) = OVERHEAD + hash_size m"
| "approx_size (VSet s) = OVERHEAD + list_size s"
| "approx_size (VSortedSet z) = OVERHEAD + zset_size z"

text \<open>The invariant of a value: its containers are well formed.\<close>

fun value_wf :: "'f::linorder kvalue \<Rightarrow> bool" where
  "value_wf (VString _) = True"
| "value_wf (VList _) = True"
| "value_wf (VHash m) = hm_ok m"
| "value_wf (VSet s) = distinct s"
| "value_wf (VSortedSet z) = zs_ok z"

text \<open>What the keyspace stores: a well-formed value that is not an emptied collection.\<close>

definition value_ok :: "'f::linorder kvalue \<Rightarrow> bool" where
  "value_ok v \<longleftrightarrow> value_wf v \<and> \<not> is_empty_collection v"

lemma approx_size_pos: "0 < approx_size v"
  by (cases v) auto

lemma list_size_simps [simp, size_simps]:
  "list_size [] = 0"
  "list_size (b # l) = length b + 8 + list_size l"
  "list_size (l @ l') = list_size l + list_size l'"
  "list_size (rev l) = list_size l"
  by (simp_all add: list_size_def rev_map [symmetric] sum_list_rev)

lemma list_size_take_drop: "list_size l = list_size (take n l) + list_size (drop n l)"
  unfolding list_size_def by (rule sum_list_take_drop)

lemma list_size_update:
  "i < length l \<Longrightarrow> list_size (l[i := b]) + length (l ! i) = list_size l + length b"
  using sum_list_update [of i l "\<lambda>b. length b + 8" b] by (simp add: list_size_def)

lemma list_size_hs_insert [size_simps]:
  "list_size (hs_insert x s) = (if x \<in> set s then list_size s else list_size s + length x + 8)"
  by (simp add: hs_insert_def)

lemma list_size_hs_remove [size_simps]:
  "distinct s \<Longrightarrow> x \<in> set s \<Longrightarrow> list_size s = length x + 8 + list_size (hs_remove x s)"
  unfolding list_size_def by (rule sum_list_hs_remove)

lemma zset_size_scores:
  assumes "zs_ok z"
  shows "zset_size z = hm_sum (\<lambda>m _. length m + 24) (scores z)"
proof -
  have "zset_size z = sum_mset (image_mset (\<lambda>m. length m + 24) (mset (zs_members_ascending z)))"
    by (simp add: zset_size_def flip: sum_mset_sum_list)
  also have "\<dots> = sum_mset (image_mset (\<lambda>m. length m + 24) (mset (map fst (scores z))))"
    by (simp only: zs_members_mset_scores [OF assms])
  also have "\<dots> = hm_sum (\<lambda>m _. length m + 24) (scores z)"
    by (simp add: hm_sum_def split_def comp_def flip: sum_mset_sum_list mset_map)
  finally show ?thesis .
qed

lemma zset_size_insert [size_simps]:
  assumes "zs_ok z"
  shows "zset_size (zs_insert m s z) =
           (if zs_score z m = None then zset_size z + length m + 24 else zset_size z)"
proof -
  have sc: "scores (zs_insert m s z) = AList.update m s (scores z)"
    by (simp add: zs_insert_def Let_def)
  show ?thesis
    using hm_sum_update_new [of "scores z" m "\<lambda>m _. length m + 24" s]
      hm_sum_update [of "scores z" m _ "\<lambda>m _. length m + 24" s] assms
    by (cases "map_of (scores z) m") (auto simp: zset_size_scores sc zs_score_def)
qed

lemma zset_size_remove [size_simps]:
  assumes "zs_ok z" and "zs_score z m \<noteq> None"
  shows "zset_size z = length m + 24 + zset_size (snd (zs_remove m z))"
proof -
  obtain s where s: "map_of (scores z) m = Some s" using assms(2) by (auto simp: zs_score_def)
  then have "scores (snd (zs_remove m z)) = AList.delete m (scores z)"
    by (simp add: zs_remove_def)
  with assms(1) s show ?thesis
    using hm_sum_delete [of "scores z" m s "\<lambda>m _. length m + 24"]
    by (simp add: zset_size_scores zs_ok_def [of z])
qed

lemma zs_remove_absent: "zs_score z m = None \<Longrightarrow> zs_remove m z = (False, z)"
  by (simp add: zs_score_def zs_remove_def)

lemma zs_insert_nonempty [simp]: "\<not> zs_is_empty (zs_insert m s z)"
  by (simp add: zs_is_empty_def zs_insert_def Let_def)

end
