(* ===== verification/Rm_Keyspace.thy ===== *)
theory Rm_Keyspace
  imports Rm_Value
begin

text \<open>
  The abstract contract of the storage layers. A keyspace is a map from keys to values with an
  optional deadline; \<open>prune t\<close> forgets what has expired at time \<open>t\<close>. The locale \<open>keyspace_iface\<close>
  states what a layer of the engine (a shard, the sharded store, the engine facade without a
  memory ceiling) promises to the layer above it: each operation acts on the live view as the
  abstract operation does. It extends \<open>evicting_iface\<close>, the contract of the facade with a ceiling,
  whose writes may also forget keys. The consequences every client uses are proved here once:
  reading back a write, frame properties, the life cycle of a deadline, and the simulation of
  every timed sequence of operations by the abstract keyspace.
\<close>

section \<open>The abstract keyspace\<close>

type_synonym 'f slot = "'f kvalue \<times> instant option"
type_synonym 'f keyspace = "bytes \<Rightarrow> 'f slot option"

datatype ttl_status = TtlNoSuchKey | TtlNoExpiry | TtlRemaining duration

definition expired_at :: "instant \<Rightarrow> instant option \<Rightarrow> bool" where
  "expired_at now x = (case x of Some at \<Rightarrow> at \<le> now | None \<Rightarrow> False)"

definition prune :: "instant \<Rightarrow> 'f keyspace \<Rightarrow> 'f keyspace" where
  "prune t m = (\<lambda>k. case m k of None \<Rightarrow> None
                    | Some (v, x) \<Rightarrow> if expired_at t x then None else Some (v, x))"

definition ks_set :: "bytes \<Rightarrow> 'f kvalue \<Rightarrow> 'f keyspace \<Rightarrow> 'f keyspace" where
  "ks_set k v m = m(k \<mapsto> (v, None))"

definition ks_del :: "bytes \<Rightarrow> 'f keyspace \<Rightarrow> 'f keyspace" where
  "ks_del k m = m(k := None)"

definition ks_expire_at :: "bytes \<Rightarrow> instant \<Rightarrow> 'f keyspace \<Rightarrow> 'f keyspace" where
  "ks_expire_at k at m = (case m k of Some (v, _) \<Rightarrow> m(k \<mapsto> (v, Some at)) | None \<Rightarrow> m)"

definition ks_persist :: "bytes \<Rightarrow> 'f keyspace \<Rightarrow> 'f keyspace" where
  "ks_persist k m = (case m k of Some (v, _) \<Rightarrow> m(k \<mapsto> (v, None)) | None \<Rightarrow> m)"

definition ks_mutate ::
  "bytes \<Rightarrow> ('f::linorder kvalue \<Rightarrow> 'f kvalue) \<Rightarrow> 'f keyspace \<Rightarrow> 'f keyspace" where
  "ks_mutate k g m =
     (case m k of
        Some (v, x) \<Rightarrow> if is_empty_collection (g v) then m(k := None) else m(k \<mapsto> (g v, x))
      | None \<Rightarrow> m)"

definition ks_ttl :: "instant \<Rightarrow> bytes \<Rightarrow> 'f keyspace \<Rightarrow> ttl_status" where
  "ks_ttl t k m =
     (case m k of None \<Rightarrow> TtlNoSuchKey
      | Some (_, None) \<Rightarrow> TtlNoExpiry
      | Some (_, Some at) \<Rightarrow> TtlRemaining (at - t))"

lemmas ks_defs = ks_set_def ks_del_def ks_expire_at_def ks_persist_def ks_mutate_def ks_ttl_def

text \<open>
  A mutation reports how many bytes it added to the value it was given. The report is exact when
  it is the difference of the size estimates, and the value it leaves is well formed.
\<close>

definition delta_exact :: "('f::linorder kvalue \<Rightarrow> int \<times> 'f kvalue) \<Rightarrow> bool" where
  "delta_exact g \<longleftrightarrow>
     (\<forall>v. value_ok v \<longrightarrow>
        int (approx_size (snd (g v))) = int (approx_size v) + fst (g v) \<and> value_wf (snd (g v)))"

lemma delta_exactI [wf_intros]:
  assumes "\<And>v. value_ok v \<Longrightarrow> int (approx_size (snd (g v))) = int (approx_size v) + fst (g v)"
    and "\<And>v. value_ok v \<Longrightarrow> value_wf (snd (g v))"
  shows "delta_exact g"
  using assms by (simp add: delta_exact_def)

lemma delta_exactD:
  assumes "delta_exact g" and "value_ok v"
  shows "int (approx_size (snd (g v))) = int (approx_size v) + fst (g v)"
    and "value_wf (snd (g v))"
  using assms by (simp_all add: delta_exact_def)

lemma expired_at_simps [simp]:
  "expired_at t None = False"
  "expired_at t (Some at) = (at \<le> t)"
  by (simp_all add: expired_at_def)

lemma expired_at_mono: "t \<le> t' \<Longrightarrow> expired_at t x \<Longrightarrow> expired_at t' x"
  by (cases x) auto

lemma prune_prune: "t \<le> t' \<Longrightarrow> prune t' (prune t m) = prune t' m"
  by (rule ext) (auto simp: prune_def dest: expired_at_mono split: option.splits)

lemma prune_idem [simp]: "prune t (prune t m) = prune t m"
  by (rule prune_prune) simp

lemma prune_None_iff: "prune t m k = None \<longleftrightarrow> (case m k of None \<Rightarrow> True | Some (_, x) \<Rightarrow> expired_at t x)"
  by (auto simp: prune_def split: option.splits)

section \<open>Timed operations\<close>

datatype 'f kop =
    KGet bytes
  | KSet bytes "'f kvalue"
  | KDel bytes
  | KExpireAt bytes instant
  | KPersist bytes
  | KTtl bytes
  | KMutate bytes "'f kvalue \<Rightarrow> int \<times> 'f kvalue"

fun kop_ok :: "'f::linorder kop \<Rightarrow> bool" where
  "kop_ok (KSet _ v) = value_ok v"
| "kop_ok (KMutate _ g) = delta_exact g"
| "kop_ok _ = True"

fun ks_apply :: "'f::linorder kop \<Rightarrow> 'f keyspace \<Rightarrow> 'f keyspace" where
  "ks_apply (KGet k) m = m"
| "ks_apply (KSet k v) m = ks_set k v m"
| "ks_apply (KDel k) m = ks_del k m"
| "ks_apply (KExpireAt k at) m = ks_expire_at k at m"
| "ks_apply (KPersist k) m = ks_persist k m"
| "ks_apply (KTtl k) m = m"
| "ks_apply (KMutate k g) m = ks_mutate k (snd \<circ> g) m"

text \<open>What the operations answer.\<close>

datatype 'f kreply = RUnit | RBool bool | RVal "'f kvalue option" | RTtl ttl_status

fun ks_reply :: "instant \<Rightarrow> 'f kop \<Rightarrow> 'f keyspace \<Rightarrow> 'f kreply" where
  "ks_reply t (KGet k) m = RVal (map_option fst (m k))"
| "ks_reply t (KSet k v) m = RUnit"
| "ks_reply t (KDel k) m = RBool (m k \<noteq> None)"
| "ks_reply t (KExpireAt k at) m = RBool (m k \<noteq> None)"
| "ks_reply t (KPersist k) m = RBool (case m k of Some (_, Some _) \<Rightarrow> True | _ \<Rightarrow> False)"
| "ks_reply t (KTtl k) m = RTtl (ks_ttl t k m)"
| "ks_reply t (KMutate k g) m = RUnit"

text \<open>
  A run of operations, each at its own time; the result is the live view at the last one. The
  trace of the run lists the answers.
\<close>

fun ks_run :: "(instant \<times> 'f::linorder kop) list \<Rightarrow> 'f keyspace \<Rightarrow> 'f keyspace" where
  "ks_run [] m = m"
| "ks_run ((t, op) # ops) m = ks_run ops (prune t (ks_apply op (prune t m)))"

text \<open>
  The order on keyspaces: \<open>m \<subseteq>\<^sub>m m'\<close> when \<open>m'\<close> agrees with \<open>m\<close> on what \<open>m\<close> holds. Every abstract
  operation is monotone in it.
\<close>

lemma map_le_None: "m \<subseteq>\<^sub>m m' \<Longrightarrow> m' k = None \<Longrightarrow> m k = None"
  by (metis domIff map_le_def)

lemma map_le_Some: "m \<subseteq>\<^sub>m m' \<Longrightarrow> m k = Some p \<Longrightarrow> m' k = Some p"
  by (metis domI map_le_def)

lemma map_leI: "(\<And>k p. m k = Some p \<Longrightarrow> m' k = Some p) \<Longrightarrow> m \<subseteq>\<^sub>m m'"
  by (auto simp: map_le_def dom_def)

lemma prune_mono: "m \<subseteq>\<^sub>m m' \<Longrightarrow> prune t m \<subseteq>\<^sub>m prune t m'"
  by (rule map_leI)
    (auto simp: prune_def dest: map_le_Some map_le_None split: option.splits if_splits)

lemma ks_apply_mono:
  assumes "m \<subseteq>\<^sub>m m'"
  shows "ks_apply op m \<subseteq>\<^sub>m ks_apply op m'"
proof (rule map_leI)
  fix k p
  assume "ks_apply op m k = Some p"
  with assms show "ks_apply op m' k = Some p"
    by (cases op)
      (auto simp: ks_defs fun_upd_def dest: map_le_Some split: option.splits if_splits)
qed

lemma ks_run_mono: "m \<subseteq>\<^sub>m m' \<Longrightarrow> ks_run ops m \<subseteq>\<^sub>m ks_run ops m'"
  by (induction ops arbitrary: m m') (auto simp: prune_mono ks_apply_mono)

fun ks_trace :: "(instant \<times> 'f::linorder kop) list \<Rightarrow> 'f keyspace \<Rightarrow> 'f kreply list" where
  "ks_trace [] m = []"
| "ks_trace ((t, op) # ops) m =
     ks_reply t op (prune t m) # ks_trace ops (prune t (ks_apply op (prune t m)))"

section \<open>The interfaces\<close>

text \<open>
  A layer that may forget keys when it writes (the engine with a memory ceiling) promises that
  its view after a write is contained in what the abstract operation gives.
\<close>

locale evicting_iface =
  fixes view :: "instant \<Rightarrow> 's \<Rightarrow> 'f::linorder keyspace"
    and ok :: "'s \<Rightarrow> bool"
    and kget :: "instant \<Rightarrow> bytes \<Rightarrow> 's \<Rightarrow> 'f kvalue option \<times> 's"
    and kset :: "instant \<Rightarrow> bytes \<Rightarrow> 'f kvalue \<Rightarrow> 's \<Rightarrow> 's"
    and kdel :: "instant \<Rightarrow> bytes \<Rightarrow> 's \<Rightarrow> bool \<times> 's"
    and kexpire_at :: "instant \<Rightarrow> bytes \<Rightarrow> instant \<Rightarrow> 's \<Rightarrow> bool \<times> 's"
    and kpersist :: "instant \<Rightarrow> bytes \<Rightarrow> 's \<Rightarrow> bool \<times> 's"
    and kttl :: "instant \<Rightarrow> bytes \<Rightarrow> 's \<Rightarrow> ttl_status"
    and kmutate :: "instant \<Rightarrow> bytes \<Rightarrow> ('f kvalue \<Rightarrow> int \<times> 'f kvalue) \<Rightarrow> 's \<Rightarrow> 's"
  assumes view_later: "t \<le> t' \<Longrightarrow> view t' s = prune t' (view t s)"
    and get_view: "ok s \<Longrightarrow> fst (kget t k s) = map_option fst (view t s k)"
    and view_get: "ok s \<Longrightarrow> view t (snd (kget t k s)) = view t s"
    and view_set_le: "ok s \<Longrightarrow> value_ok v \<Longrightarrow> view t (kset t k v s) \<subseteq>\<^sub>m ks_set k v (view t s)"
    and del_view: "ok s \<Longrightarrow> fst (kdel t k s) = (view t s k \<noteq> None)"
    and view_del: "ok s \<Longrightarrow> view t (snd (kdel t k s)) = ks_del k (view t s)"
    and expire_view: "ok s \<Longrightarrow> fst (kexpire_at t k at s) = (view t s k \<noteq> None)"
    and view_expire:
      "ok s \<Longrightarrow> view t (snd (kexpire_at t k at s)) = prune t (ks_expire_at k at (view t s))"
    and persist_view:
      "ok s \<Longrightarrow> fst (kpersist t k s) = (\<exists>v at. view t s k = Some (v, Some at))"
    and view_persist: "ok s \<Longrightarrow> view t (snd (kpersist t k s)) = ks_persist k (view t s)"
    and ttl_view: "ok s \<Longrightarrow> kttl t k s = ks_ttl t k (view t s)"
    and view_mutate_le:
      "ok s \<Longrightarrow> delta_exact g \<Longrightarrow> view t (kmutate t k g s) \<subseteq>\<^sub>m ks_mutate k (snd \<circ> g) (view t s)"
    and ok_get: "ok s \<Longrightarrow> ok (snd (kget t k s))"
    and ok_set: "ok s \<Longrightarrow> value_ok v \<Longrightarrow> ok (kset t k v s)"
    and ok_del: "ok s \<Longrightarrow> ok (snd (kdel t k s))"
    and ok_expire: "ok s \<Longrightarrow> ok (snd (kexpire_at t k at s))"
    and ok_persist: "ok s \<Longrightarrow> ok (snd (kpersist t k s))"
    and ok_mutate: "ok s \<Longrightarrow> delta_exact g \<Longrightarrow> ok (kmutate t k g s)"
    and view_value_ok: "ok s \<Longrightarrow> view t s k = Some (v, x) \<Longrightarrow> value_ok v"
begin

lemmas ok_ops = ok_get ok_set ok_del ok_expire ok_persist ok_mutate

lemma view_pruned: "prune t (view t s) = view t s"
  using view_later [of t t s] by simp

lemma get_after_del: "ok s \<Longrightarrow> fst (kget t k (snd (kdel t k s))) = None"
  by (simp add: get_view ok_del view_del ks_del_def)

lemma get_after_set_le:
  assumes "ok s" and "value_ok v"
  shows "fst (kget t k (kset t k v s)) \<in> {None, Some v}"
  using map_le_Some [OF view_set_le [OF assms]] assms
  by (cases "view t (kset t k v s) k") (fastforce simp: get_view ok_set ks_set_def)+

lemma get_until_deadline:
  assumes "ok s" and "view t s k = Some (v, x)" and "t \<le> t'"
  shows "fst (kget t' k (snd (kexpire_at t k at s))) = (if t' < at then Some v else None)"
proof -
  let ?s = "snd (kexpire_at t k at s)"
  have "view t' ?s = prune t' (ks_expire_at k at (view t s))"
    using assms by (simp add: view_later [of t t'] view_expire prune_prune)
  with assms show ?thesis
    by (simp add: get_view ok_expire ks_expire_at_def prune_def not_less)
qed

lemma persist_cancels_deadline:
  assumes "ok s" and "view t s k = Some (v, x)" and "t < at" and "t \<le> t'"
  shows "fst (kget t' k (snd (kpersist t k (snd (kexpire_at t k at s))))) = Some v"
proof -
  let ?s = "snd (kexpire_at t k at s)"
  have live: "view t ?s k = Some (v, Some at)"
    using assms by (simp add: view_expire ks_expire_at_def prune_def)
  then have "view t (snd (kpersist t k ?s)) k = Some (v, None)"
    using assms(1) by (simp add: view_persist ok_expire ks_persist_def)
  then have "view t' (snd (kpersist t k ?s)) k = Some (v, None)"
    using assms(4) by (simp add: view_later [of t t'] prune_def)
  with assms(1) show ?thesis by (simp add: get_view ok_persist ok_expire)
qed

lemma no_phantom_collection:
  "ok s \<Longrightarrow> fst (kget t k s) = Some v \<Longrightarrow> \<not> is_empty_collection v"
  using view_value_ok by (fastforce simp: get_view value_ok_def)

fun kapply :: "instant \<Rightarrow> 'f kop \<Rightarrow> 's \<Rightarrow> 's" where
  "kapply t (KGet k) s = snd (kget t k s)"
| "kapply t (KSet k v) s = kset t k v s"
| "kapply t (KDel k) s = snd (kdel t k s)"
| "kapply t (KExpireAt k at) s = snd (kexpire_at t k at s)"
| "kapply t (KPersist k) s = snd (kpersist t k s)"
| "kapply t (KTtl k) s = s"
| "kapply t (KMutate k g) s = kmutate t k g s"

fun kreply :: "instant \<Rightarrow> 'f kop \<Rightarrow> 's \<Rightarrow> 'f kreply" where
  "kreply t (KGet k) s = RVal (fst (kget t k s))"
| "kreply t (KSet k v) s = RUnit"
| "kreply t (KDel k) s = RBool (fst (kdel t k s))"
| "kreply t (KExpireAt k at) s = RBool (fst (kexpire_at t k at s))"
| "kreply t (KPersist k) s = RBool (fst (kpersist t k s))"
| "kreply t (KTtl k) s = RTtl (kttl t k s)"
| "kreply t (KMutate k g) s = RUnit"

fun krun :: "(instant \<times> 'f kop) list \<Rightarrow> 's \<Rightarrow> 's" where
  "krun [] s = s"
| "krun ((t, op) # ops) s = krun ops (kapply t op s)"

fun ktrace :: "(instant \<times> 'f kop) list \<Rightarrow> 's \<Rightarrow> 'f kreply list" where
  "ktrace [] s = []"
| "ktrace ((t, op) # ops) s = kreply t op s # ktrace ops (kapply t op s)"

lemma kreply_view: "ok s \<Longrightarrow> kreply t op s = ks_reply t op (view t s)"
  by (cases op)
    (auto simp: get_view del_view expire_view persist_view ttl_view split: option.split)

lemma ok_kapply: "ok s \<Longrightarrow> kop_ok op \<Longrightarrow> ok (kapply t op s)"
  by (cases op) (simp_all add: ok_ops)

lemma view_kapply_le:
  assumes "ok s" and "kop_ok op"
  shows "view t (kapply t op s) \<subseteq>\<^sub>m prune t (ks_apply op (view t s))"
proof -
  have "view t (kapply t op s) = prune t (view t (kapply t op s))"
    by (simp add: view_pruned)
  moreover have "prune t (view t (kapply t op s)) \<subseteq>\<^sub>m prune t (ks_apply op (view t s))"
    using assms
    by (cases op) (simp_all add: view_get view_del view_expire view_persist prune_mono
        view_set_le view_mutate_le)
  ultimately show ?thesis by simp
qed

text \<open>A run of the layer holds nothing but what the same run of the abstract keyspace holds.\<close>

lemma krun_approximates:
  assumes "ok s" and "\<forall>(t, op) \<in> set ops. kop_ok op" and "sorted (t0 # map fst ops)"
  shows "ok (krun ops s) \<and>
         view (last (t0 # map fst ops)) (krun ops s) \<subseteq>\<^sub>m ks_run ops (view t0 s)"
  using assms
proof (induction ops arbitrary: s t0)
  case Nil
  then show ?case by simp
next
  case (Cons p ops)
  obtain t op where p: "p = (t, op)" by (cases p)
  with Cons.prems have op: "kop_ok op" and t: "t0 \<le> t" and ok: "ok (kapply t op s)"
    by (auto intro: ok_kapply)
  have IH: "ok (krun ops (kapply t op s)) \<and>
    view (last (t # map fst ops)) (krun ops (kapply t op s)) \<subseteq>\<^sub>m ks_run ops (view t (kapply t op s))"
    using Cons.prems p ok by (intro Cons.IH) auto
  have "view t (kapply t op s) \<subseteq>\<^sub>m prune t (ks_apply op (prune t (view t0 s)))"
    using view_kapply_le [OF Cons.prems(1) op, of t] t by (simp add: view_later [of t0 t])
  then have "ks_run ops (view t (kapply t op s)) \<subseteq>\<^sub>m
      ks_run ops (prune t (ks_apply op (prune t (view t0 s))))"
    by (rule ks_run_mono)
  with IH have "view (last (t # map fst ops)) (krun ops (kapply t op s)) \<subseteq>\<^sub>m
      ks_run ops (prune t (ks_apply op (prune t (view t0 s))))"
    by (blast intro: map_le_trans)
  with IH p show ?case by (simp only: krun.simps ks_run.simps list.map fst_conv) simp
qed

end

text \<open>A layer that forgets nothing: every operation is the abstract one.\<close>

locale keyspace_iface = evicting_iface +
  assumes view_set: "ok s \<Longrightarrow> value_ok v \<Longrightarrow> view t (kset t k v s) = ks_set k v (view t s)"
    and view_mutate:
      "ok s \<Longrightarrow> delta_exact g \<Longrightarrow> view t (kmutate t k g s) = ks_mutate k (snd \<circ> g) (view t s)"
begin

lemmas view_ops = view_get view_set view_del view_expire view_persist view_mutate

lemma get_after_set: "ok s \<Longrightarrow> value_ok v \<Longrightarrow> fst (kget t k (kset t k v s)) = Some v"
  by (simp add: get_view ok_set view_set ks_set_def)

lemma get_other_after_set:
  "ok s \<Longrightarrow> value_ok v \<Longrightarrow> k' \<noteq> k \<Longrightarrow> fst (kget t k' (kset t k v s)) = fst (kget t k' s)"
  by (simp add: get_view ok_set view_set ks_set_def)

lemma ttl_after_set: "ok s \<Longrightarrow> value_ok v \<Longrightarrow> kttl t k (kset t k v s) = TtlNoExpiry"
  by (simp add: ttl_view ok_set view_set ks_set_def ks_ttl_def)

lemma view_kapply:
  assumes "ok s" and "kop_ok op"
  shows "view t (kapply t op s) = prune t (ks_apply op (view t s))"
proof -
  have "view t (kapply t op s) = prune t (view t (kapply t op s))"
    by (simp add: view_pruned)
  also have "\<dots> = prune t (ks_apply op (view t s))"
    using assms by (cases op) (simp_all add: view_ops)
  finally show ?thesis .
qed

text \<open>
  Forward simulation: a run of the layer is a run of the abstract keyspace, with the same answers.
\<close>

lemma krun_refines:
  assumes "ok s" and "\<forall>(t, op) \<in> set ops. kop_ok op" and "sorted (t0 # map fst ops)"
  shows "ok (krun ops s) \<and> ktrace ops s = ks_trace ops (view t0 s) \<and>
         view (last (t0 # map fst ops)) (krun ops s) = ks_run ops (view t0 s)"
  using assms
proof (induction ops arbitrary: s t0)
  case Nil
  then show ?case by simp
next
  case (Cons p ops)
  obtain t op where p: "p = (t, op)" by (cases p)
  with Cons.prems have op: "kop_ok op" and t: "t0 \<le> t" and ok: "ok (kapply t op s)"
    by (auto intro: ok_kapply)
  have IH: "ok (krun ops (kapply t op s)) \<and>
    ktrace ops (kapply t op s) = ks_trace ops (view t (kapply t op s)) \<and>
    view (last (t # map fst ops)) (krun ops (kapply t op s)) = ks_run ops (view t (kapply t op s))"
    using Cons.prems p ok by (intro Cons.IH) auto
  have v: "view t s = prune t (view t0 s)" using t by (rule view_later)
  then have "view t (kapply t op s) = prune t (ks_apply op (prune t (view t0 s)))"
    using Cons.prems(1) op by (simp add: view_kapply)
  with IH p v show ?case
    by (simp only: krun.simps ktrace.simps ks_run.simps ks_trace.simps list.map fst_conv
        kreply_view [OF Cons.prems(1)]) simp
qed

end

end
