(* ===== verification/Rm_Shard.thy ===== *)
theory Rm_Shard
  imports Rm_Keyspace
begin

text \<open>
  One shard of the keyspace (\<open>crates/engine/src/shard.rs\<close>): a map of entries behind a lock and a
  wrapping byte counter. Each definition is one method, run as one critical section. The time
  \<open>now\<close> is the reading of \<open>Instant::now()\<close> in the method, \<open>clock\<close> the reading of the recency
  clock. \<open>shard_ok\<close> is the invariant: distinct keys, well-formed non-empty values, and a counter
  that is, modulo \<open>2^64\<close>, the sum of the entry sizes. The shard implements \<open>keyspace_iface\<close>.
\<close>

section \<open>State\<close>

record 'f entry =
  ent_value :: "'f kvalue"
  expires_at :: "instant option"
  last_touched :: u64

record 'f shard =
  shard_map :: "(bytes, 'f entry) hmap"
  bytes_used :: u64

definition is_expired :: "instant \<Rightarrow> 'f entry \<Rightarrow> bool" where
  "is_expired now e = (case expires_at e of Some at \<Rightarrow> at \<le> now | None \<Rightarrow> False)"

definition entry_size :: "bytes \<Rightarrow> 'f::linorder kvalue \<Rightarrow> nat" where
  "entry_size key v = length key + approx_size v"

definition shard_new :: "'f shard" where
  "shard_new = \<lparr>shard_map = [], bytes_used = 0\<rparr>"

section \<open>Operations\<close>

text \<open>Storing the recency clock into an entry, and removing an entry that has expired.\<close>

definition shard_touch :: "u64 \<Rightarrow> bytes \<Rightarrow> 'f entry \<Rightarrow> 'f shard \<Rightarrow> 'f shard" where
  "shard_touch clock key e s =
     s\<lparr>shard_map := AList.update key (e\<lparr>last_touched := clock\<rparr>) (shard_map s)\<rparr>"

definition shard_reap :: "instant \<Rightarrow> bytes \<Rightarrow> 'f::linorder shard \<Rightarrow> 'f shard" where
  "shard_reap now key s =
     (case map_of (shard_map s) key of
        Some e \<Rightarrow>
          if is_expired now e
          then s\<lparr>shard_map := AList.delete key (shard_map s),
                 bytes_used := bytes_used s - of_nat (entry_size key (ent_value e))\<rparr>
          else s
      | None \<Rightarrow> s)"

definition shard_get ::
  "instant \<Rightarrow> u64 \<Rightarrow> bytes \<Rightarrow> 'f::linorder shard \<Rightarrow> 'f kvalue option \<times> 'f shard" where
  "shard_get now clock key s =
     (case map_of (shard_map s) key of
        None \<Rightarrow> (None, s)
      | Some e \<Rightarrow>
          if \<not> is_expired now e then (Some (ent_value e), shard_touch clock key e s)
          else (None, shard_reap now key s))"

definition shard_set :: "u64 \<Rightarrow> bytes \<Rightarrow> 'f::linorder kvalue \<Rightarrow> 'f shard \<Rightarrow> 'f shard" where
  "shard_set clock key v s =
     (let new_size = entry_size key v;
          old_size = map_option (\<lambda>e. entry_size key (ent_value e)) (map_of (shard_map s) key);
          m = AList.update key \<lparr>ent_value = v, expires_at = None, last_touched = clock\<rparr> (shard_map s);
          b = (case old_size of Some old \<Rightarrow> bytes_used s - of_nat old | None \<Rightarrow> bytes_used s)
      in \<lparr>shard_map = m, bytes_used = b + of_nat new_size\<rparr>)"

definition shard_del :: "instant \<Rightarrow> bytes \<Rightarrow> 'f::linorder shard \<Rightarrow> bool \<times> 'f shard" where
  "shard_del now key s =
     (case map_of (shard_map s) key of
        None \<Rightarrow> (False, s)
      | Some e \<Rightarrow>
          (\<not> is_expired now e,
           s\<lparr>shard_map := AList.delete key (shard_map s),
             bytes_used := bytes_used s - of_nat (entry_size key (ent_value e))\<rparr>))"

definition shard_with_ref ::
  "instant \<Rightarrow> u64 \<Rightarrow> bytes \<Rightarrow> ('f kvalue option \<Rightarrow> 'r) \<Rightarrow> 'f shard \<Rightarrow> 'r \<times> 'f shard" where
  "shard_with_ref now clock key f s =
     (case map_of (shard_map s) key of
        Some e \<Rightarrow> if \<not> is_expired now e
                   then (f (Some (ent_value e)), shard_touch clock key e s)
                   else (f None, s)
      | None \<Rightarrow> (f None, s))"

definition shard_exists :: "instant \<Rightarrow> u64 \<Rightarrow> bytes \<Rightarrow> 'f shard \<Rightarrow> bool \<times> 'f shard" where
  "shard_exists now clock key s = shard_with_ref now clock key (\<lambda>v. v \<noteq> None) s"

definition shard_live :: "instant \<Rightarrow> 'f shard \<Rightarrow> (bytes, 'f entry) hmap" where
  "shard_live now s = filter (\<lambda>(_, e). \<not> is_expired now e) (shard_map s)"

definition shard_keys :: "instant \<Rightarrow> 'f shard \<Rightarrow> bytes list" where
  "shard_keys now s = map fst (shard_live now s)"

fun counts_loop :: "instant \<Rightarrow> 'f entry list \<Rightarrow> nat \<times> nat \<Rightarrow> nat \<times> nat" where
  "counts_loop now [] acc = acc"
| "counts_loop now (e # es) (tot, with_expiry) =
     (if is_expired now e then counts_loop now es (tot, with_expiry)
      else counts_loop now es
             (tot + 1, if expires_at e \<noteq> None then with_expiry + 1 else with_expiry))"

definition shard_counts :: "instant \<Rightarrow> 'f shard \<Rightarrow> nat \<times> nat" where
  "shard_counts now s = counts_loop now (map snd (shard_map s)) (0, 0)"

definition shard_entries :: "instant \<Rightarrow> 'f shard \<Rightarrow> (bytes \<times> 'f kvalue \<times> instant option) list" where
  "shard_entries now s = map (\<lambda>(k, e). (k, ent_value e, expires_at e)) (shard_live now s)"

definition shard_clear :: "'f shard \<Rightarrow> 'f shard" where
  "shard_clear s = \<lparr>shard_map = [], bytes_used = 0\<rparr>"

definition shard_expire_at :: "instant \<Rightarrow> bytes \<Rightarrow> instant \<Rightarrow> 'f shard \<Rightarrow> bool \<times> 'f shard" where
  "shard_expire_at now key at s =
     (case map_of (shard_map s) key of
        Some e \<Rightarrow>
          if \<not> is_expired now e
          then (True, s\<lparr>shard_map := AList.update key (e\<lparr>expires_at := Some at\<rparr>) (shard_map s)\<rparr>)
          else (False, s)
      | None \<Rightarrow> (False, s))"

definition shard_persist :: "instant \<Rightarrow> bytes \<Rightarrow> 'f shard \<Rightarrow> bool \<times> 'f shard" where
  "shard_persist now key s =
     (case map_of (shard_map s) key of
        Some e \<Rightarrow>
          if \<not> is_expired now e \<and> expires_at e \<noteq> None
          then (True, s\<lparr>shard_map := AList.update key (e\<lparr>expires_at := None\<rparr>) (shard_map s)\<rparr>)
          else (False, s)
      | None \<Rightarrow> (False, s))"

definition shard_ttl :: "instant \<Rightarrow> bytes \<Rightarrow> 'f shard \<Rightarrow> ttl_status" where
  "shard_ttl now key s =
     (case map_of (shard_map s) key of
        None \<Rightarrow> TtlNoSuchKey
      | Some e \<Rightarrow>
          if is_expired now e then TtlNoSuchKey
          else (case expires_at e of None \<Rightarrow> TtlNoExpiry | Some at \<Rightarrow> TtlRemaining (at - now)))"

definition shard_remove_expired :: "instant \<Rightarrow> 'f::linorder shard \<Rightarrow> nat \<times> 'f shard" where
  "shard_remove_expired now s =
     (let kept = filter (\<lambda>(_, e). \<not> is_expired now e) (shard_map s);
          removed_bytes = hm_sum (\<lambda>k e. entry_size k (ent_value e))
                            (filter (\<lambda>(_, e). is_expired now e) (shard_map s))
      in (length (shard_map s) - length kept,
          \<lparr>shard_map = kept, bytes_used = bytes_used s - of_nat removed_bytes\<rparr>))"

definition shard_sample_recency :: "nat \<Rightarrow> 'f shard \<Rightarrow> (bytes \<times> u64) list" where
  "shard_sample_recency n s = map (\<lambda>(k, e). (k, last_touched e)) (take n (shard_map s))"

text \<open>
  The closure a mutating command passes is given by its two arms: what it does to the value it
  finds (its result, the byte delta it reports, the value it leaves behind the reference) and
  what it returns for a missing key. \<open>with_mut\<close> has the arms without the delta.
\<close>

type_synonym ('f, 'r) mutator = "'f kvalue \<Rightarrow> 'r \<times> int \<times> 'f kvalue"

definition shard_drop_if_empty :: "bytes \<Rightarrow> 'f::linorder kvalue \<Rightarrow> 'f shard \<Rightarrow> 'f shard" where
  "shard_drop_if_empty key v s =
     (if is_empty_collection v
      then s\<lparr>shard_map := AList.delete key (shard_map s),
             bytes_used := bytes_used s - of_nat (entry_size key v)\<rparr>
      else s)"

definition shard_with_mut ::
  "instant \<Rightarrow> u64 \<Rightarrow> bytes \<Rightarrow> ('f::linorder kvalue \<Rightarrow> 'r \<times> 'f kvalue) \<Rightarrow> 'r \<Rightarrow> 'f shard
   \<Rightarrow> 'r \<times> 'f shard" where
  "shard_with_mut now clock key f none s =
     (let s1 = shard_reap now key s
      in case map_of (shard_map s1) key of
           Some e \<Rightarrow>
             (let old_size = approx_size (ent_value e);
                  (r, v) = f (ent_value e);
                  new_size = approx_size v;
                  b = (if new_size > old_size then bytes_used s1 + of_nat (new_size - old_size)
                       else if new_size < old_size then bytes_used s1 - of_nat (old_size - new_size)
                       else bytes_used s1);
                  m = AList.update key (e\<lparr>ent_value := v, last_touched := clock\<rparr>) (shard_map s1)
              in (r, shard_drop_if_empty key v \<lparr>shard_map = m, bytes_used = b\<rparr>))
         | None \<Rightarrow> (none, s1))"

definition shard_with_mut_delta ::
  "instant \<Rightarrow> u64 \<Rightarrow> bytes \<Rightarrow> ('f::linorder, 'r) mutator \<Rightarrow> 'r \<Rightarrow> 'f shard \<Rightarrow> 'r \<times> 'f shard" where
  "shard_with_mut_delta now clock key f none s =
     (let s1 = shard_reap now key s
      in case map_of (shard_map s1) key of
           Some e \<Rightarrow>
             (let (r, delta, v) = f (ent_value e);
                  b = (if delta > 0 then bytes_used s1 + of_int delta
                       else if delta < 0 then bytes_used s1 - of_int \<bar>delta\<bar>
                       else bytes_used s1);
                  m = AList.update key (e\<lparr>ent_value := v, last_touched := clock\<rparr>) (shard_map s1)
              in (r, shard_drop_if_empty key v \<lparr>shard_map = m, bytes_used = b\<rparr>))
         | None \<Rightarrow> (none, s1))"

section \<open>The invariant and the live view\<close>

definition shard_total :: "(bytes, 'f::linorder entry) hmap \<Rightarrow> nat" where
  "shard_total m = hm_sum (\<lambda>k e. entry_size k (ent_value e)) m"

definition shard_ok :: "'f::linorder shard \<Rightarrow> bool" where
  "shard_ok s \<longleftrightarrow> hm_ok (shard_map s)
     \<and> (\<forall>e \<in> snd ` set (shard_map s). value_ok (ent_value e))
     \<and> bytes_used s = of_nat (shard_total (shard_map s))"

definition shard_view :: "instant \<Rightarrow> 'f shard \<Rightarrow> 'f keyspace" where
  "shard_view now s =
     prune now (\<lambda>k. map_option (\<lambda>e. (ent_value e, expires_at e)) (map_of (shard_map s) k))"

lemma is_expired_alt: "is_expired now e = expired_at now (expires_at e)"
  by (simp add: is_expired_def expired_at_def)

lemma shard_view_def2:
  "shard_view now s k =
     (case map_of (shard_map s) k of None \<Rightarrow> None
      | Some e \<Rightarrow> if is_expired now e then None else Some (ent_value e, expires_at e))"
  by (simp add: shard_view_def prune_def is_expired_alt split: option.splits)

section \<open>How the counter follows the map\<close>

lemma shard_upd [simp]:
  "s\<lparr>shard_map := m\<rparr> = \<lparr>shard_map = m, bytes_used = bytes_used s\<rparr>"
  "s\<lparr>bytes_used := b\<rparr> = \<lparr>shard_map = shard_map s, bytes_used = b\<rparr>"
  for s :: "'f shard"
  by simp_all

lemma shard_total_update:
  assumes "map_of m k = Some e"
    and "int (approx_size (ent_value e')) = int (approx_size (ent_value e)) + d"
  shows "(of_nat (shard_total m) :: u64) + of_int d = of_nat (shard_total (AList.update k e' m))"
proof (rule counter_adjust)
  have "shard_total (AList.update k e' m) + entry_size k (ent_value e) =
        shard_total m + entry_size k (ent_value e')"
    unfolding shard_total_def by (rule hm_sum_update [OF assms(1)])
  with assms(2) show "int (shard_total (AList.update k e' m)) = int (shard_total m) + d"
    by (simp add: entry_size_def)
qed

lemma shard_total_delete:
  assumes "hm_ok m" and "map_of m k = Some e"
  shows "(of_nat (shard_total m) :: u64) - of_nat (entry_size k (ent_value e)) =
         of_nat (shard_total (AList.delete k m))"
  using hm_sum_delete [OF assms] by (simp add: shard_total_def)

lemma shard_total_insert:
  assumes "map_of m k = None"
  shows "(of_nat (shard_total m) :: u64) + of_nat (entry_size k (ent_value e)) =
         of_nat (shard_total (AList.update k e m))"
  using hm_sum_update_new [OF assms] by (simp add: shard_total_def)

lemma shard_okD:
  assumes "shard_ok s"
  shows "hm_ok (shard_map s)"
    and "map_of (shard_map s) k = Some e \<Longrightarrow> value_ok (ent_value e)"
    and "bytes_used s = of_nat (shard_total (shard_map s))"
  using assms by (auto simp: shard_ok_def dest!: map_of_SomeD)

lemma values_ok_update:
  assumes "hm_ok m" and "\<forall>e \<in> snd ` set m. value_ok (ent_value e)" and "value_ok (ent_value e')"
  shows "\<forall>e \<in> snd ` set (AList.update k e' m). value_ok (ent_value e)"
  using assms by (auto simp: set_update_hmap)

lemma values_ok_delete:
  "\<forall>e \<in> snd ` set m. value_ok (ent_value e) \<Longrightarrow>
   \<forall>e \<in> snd ` set (AList.delete k m). value_ok (ent_value e)"
  by (auto simp: AList.delete_eq)

lemma shard_ok_replace:
  assumes "shard_ok s" and "map_of (shard_map s) k = Some e" and "value_ok (ent_value e')"
    and "int (approx_size (ent_value e')) = int (approx_size (ent_value e)) + d"
  shows "shard_ok \<lparr>shard_map = AList.update k e' (shard_map s), bytes_used = bytes_used s + of_int d\<rparr>"
proof -
  have "\<forall>e \<in> snd ` set (AList.update k e' (shard_map s)). value_ok (ent_value e)"
    using assms(1,3) unfolding shard_ok_def by (intro values_ok_update) simp_all
  moreover have "bytes_used s + of_int d = of_nat (shard_total (AList.update k e' (shard_map s)))"
    using shard_total_update [OF assms(2,4)] shard_okD(3) [OF assms(1)] by simp
  ultimately show ?thesis
    using shard_okD(1) [OF assms(1)] by (simp add: shard_ok_def)
qed

lemma shard_ok_drop:
  assumes "shard_ok s" and "map_of (shard_map s) k = Some e"
  shows "shard_ok \<lparr>shard_map = AList.delete k (shard_map s),
                   bytes_used = bytes_used s - of_nat (entry_size k (ent_value e))\<rparr>"
proof -
  have "\<forall>e \<in> snd ` set (AList.delete k (shard_map s)). value_ok (ent_value e)"
    using assms(1) unfolding shard_ok_def by (intro values_ok_delete) simp
  moreover have "bytes_used s - of_nat (entry_size k (ent_value e)) =
      of_nat (shard_total (AList.delete k (shard_map s)))"
    using shard_total_delete [OF shard_okD(1) [OF assms(1)] assms(2)] shard_okD(3) [OF assms(1)]
    by simp
  ultimately show ?thesis
    using shard_okD(1) [OF assms(1)] by (simp add: shard_ok_def)
qed

lemma shard_ok_insert:
  assumes "shard_ok s" and "map_of (shard_map s) k = None" and "value_ok (ent_value e)"
  shows "shard_ok \<lparr>shard_map = AList.update k e (shard_map s),
                   bytes_used = bytes_used s + of_nat (entry_size k (ent_value e))\<rparr>"
proof -
  have "\<forall>e \<in> snd ` set (AList.update k e (shard_map s)). value_ok (ent_value e)"
    using assms(1,3) unfolding shard_ok_def by (intro values_ok_update) simp_all
  moreover have "bytes_used s + of_nat (entry_size k (ent_value e)) =
      of_nat (shard_total (AList.update k e (shard_map s)))"
    using shard_total_insert [OF assms(2), of e] shard_okD(3) [OF assms(1)] by simp
  ultimately show ?thesis
    using shard_okD(1) [OF assms(1)] by (simp add: shard_ok_def)
qed

lemma shard_ok_touch [wf_intros]:
  assumes "shard_ok s" and "map_of (shard_map s) k = Some e"
  shows "shard_ok (shard_touch clock k e s)"
  using shard_ok_replace [OF assms, of "e\<lparr>last_touched := clock\<rparr>" 0] shard_okD(2) [OF assms]
  by (simp add: shard_touch_def)

section \<open>Every operation keeps the invariant\<close>

lemma shard_ok_new [wf_intros]: "shard_ok shard_new"
  by (simp add: shard_ok_def shard_new_def shard_total_def)

lemma shard_ok_clear [wf_intros]: "shard_ok (shard_clear s)"
  by (simp add: shard_ok_def shard_clear_def shard_total_def)

lemma shard_ok_reap [wf_intros]: "shard_ok s \<Longrightarrow> shard_ok (shard_reap now k s)"
  using shard_ok_drop [of s k] by (auto simp: shard_reap_def split: option.splits)

lemma shard_ok_get [wf_intros]: "shard_ok s \<Longrightarrow> shard_ok (snd (shard_get now clock k s))"
  by (auto simp: shard_get_def shard_ok_touch shard_ok_reap split: option.splits)

lemma shard_ok_with_ref [wf_intros]:
  "shard_ok s \<Longrightarrow> shard_ok (snd (shard_with_ref now clock k f s))"
  by (auto simp: shard_with_ref_def shard_ok_touch split: option.splits)

lemma shard_ok_set [wf_intros]:
  assumes "shard_ok s" and "value_ok v"
  shows "shard_ok (shard_set clock k v s)"
proof -
  let ?e = "\<lparr>ent_value = v, expires_at = None, last_touched = clock\<rparr>"
  show ?thesis
  proof (cases "map_of (shard_map s) k")
    case None
    with shard_ok_insert [OF assms(1) None, of ?e] assms(2) show ?thesis
      by (simp add: shard_set_def)
  next
    case (Some e)
    let ?d = "int (approx_size v) - int (approx_size (ent_value e))"
    have "(of_int ?d :: u64) = of_nat (entry_size k v) - of_nat (entry_size k (ent_value e))"
      by (simp add: entry_size_def)
    then show ?thesis
      using shard_ok_replace [OF assms(1) Some, of ?e ?d] assms(2)
      by (simp add: shard_set_def Some add_diff_eq diff_add_eq)
  qed
qed

lemma shard_ok_del [wf_intros]: "shard_ok s \<Longrightarrow> shard_ok (snd (shard_del now k s))"
  using shard_ok_drop [of s k] by (auto simp: shard_del_def split: option.splits)

lemma shard_ok_same_value:
  assumes "shard_ok s" and "map_of (shard_map s) k = Some e" and "ent_value e' = ent_value e"
  shows "shard_ok \<lparr>shard_map = AList.update k e' (shard_map s), bytes_used = bytes_used s\<rparr>"
  using shard_ok_replace [OF assms(1,2), of e' 0] shard_okD(2) [OF assms(1,2)] assms(3) by simp

lemma shard_ok_expire_at [wf_intros]:
  "shard_ok s \<Longrightarrow> shard_ok (snd (shard_expire_at now k at s))"
  by (auto simp: shard_expire_at_def shard_ok_same_value split: option.splits)

lemma shard_ok_persist [wf_intros]: "shard_ok s \<Longrightarrow> shard_ok (snd (shard_persist now k s))"
  by (auto simp: shard_persist_def shard_ok_same_value split: option.splits)

lemma shard_ok_remove_expired [wf_intros]:
  assumes "shard_ok s"
  shows "shard_ok (snd (shard_remove_expired now s))"
proof -
  let ?f = "\<lambda>k e. entry_size k (ent_value e)"
  have "hm_sum ?f (shard_map s) =
        hm_sum ?f (filter (\<lambda>(_, e). is_expired now e) (shard_map s)) +
        hm_sum ?f (filter (\<lambda>p. \<not> (case p of (_, e) \<Rightarrow> is_expired now e)) (shard_map s))"
    by (rule hm_sum_filter_split)
  also have "(\<lambda>p. \<not> (case p of (_, e) \<Rightarrow> is_expired now e)) = (\<lambda>(_, e). \<not> is_expired now e)"
    by (auto simp: fun_eq_iff)
  finally show ?thesis
    using assms by (auto simp: shard_ok_def shard_remove_expired_def shard_total_def Let_def)
qed

text \<open>The counter arithmetic of \<open>with_mut_delta\<close> adds the signed delta.\<close>

lemma delta_counter:
  "(if d > 0 then (b :: u64) + of_int d else if d < 0 then b - of_int \<bar>d\<bar> else b) = b + of_int d"
  by auto

lemma shard_with_mut_delta_alt:
  "shard_with_mut_delta now clock k f none s =
     (let s1 = shard_reap now k s
      in case map_of (shard_map s1) k of
           Some e \<Rightarrow>
             (let (r, d, v) = f (ent_value e)
              in (r, shard_drop_if_empty k v
                   \<lparr>shard_map = AList.update k (e\<lparr>ent_value := v, last_touched := clock\<rparr>) (shard_map s1),
                    bytes_used = bytes_used s1 + of_int d\<rparr>))
         | None \<Rightarrow> (none, s1))"
  by (simp only: shard_with_mut_delta_def delta_counter Let_def)

lemma shard_ok_mutated:
  assumes "shard_ok s" and "map_of (shard_map s) k = Some e" and "value_wf v"
    and "int (approx_size v) = int (approx_size (ent_value e)) + d"
  shows "shard_ok (shard_drop_if_empty k v
           \<lparr>shard_map = AList.update k (e\<lparr>ent_value := v, last_touched := clock\<rparr>) (shard_map s),
            bytes_used = bytes_used s + of_int d\<rparr>)"
proof (cases "is_empty_collection v")
  case False
  with assms shard_ok_replace [OF assms(1,2), of "e\<lparr>ent_value := v, last_touched := clock\<rparr>" d]
  show ?thesis by (simp add: shard_drop_if_empty_def value_ok_def)
next
  case True
  have d: "d = int (approx_size v) - int (approx_size (ent_value e))"
    using assms(4) by simp
  have "(of_int d :: u64) = of_nat (entry_size k v) - of_nat (entry_size k (ent_value e))"
    by (simp add: entry_size_def d)
  with True shard_ok_drop [OF assms(1,2)] show ?thesis
    by (simp add: shard_drop_if_empty_def delete_update_same)
qed

lemma shard_ok_with_mut_delta [wf_intros]:
  assumes "shard_ok s" and "delta_exact (\<lambda>v. snd (f v))"
  shows "shard_ok (snd (shard_with_mut_delta now clock k f none s))"
proof (cases "map_of (shard_map (shard_reap now k s)) k")
  case None
  with assms(1) show ?thesis by (simp add: shard_with_mut_delta_alt shard_ok_reap)
next
  case (Some e)
  have ok: "shard_ok (shard_reap now k s)" using assms(1) by (rule shard_ok_reap)
  obtain r d v where f: "f (ent_value e) = (r, d, v)" by (metis prod_cases3)
  then have "value_wf v" "int (approx_size v) = int (approx_size (ent_value e)) + d"
    using delta_exactD [OF assms(2) shard_okD(2) [OF ok Some]] by simp_all
  with ok Some f show ?thesis
    by (simp add: shard_with_mut_delta_alt shard_ok_mutated Let_def)
qed

text \<open>The rescanning fallback is \<open>with_mut_delta\<close> with the exact delta.\<close>

lemma resize_counter:
  "(if (n :: nat) > old then (b :: u64) + of_nat (n - old)
    else if n < old then b - of_nat (old - n) else b) = b + of_int (int n - int old)"
  by (simp add: of_nat_diff)

lemma shard_with_mut_eq_delta:
  "shard_with_mut now clock k f none s =
   shard_with_mut_delta now clock k
     (\<lambda>v. (fst (f v), int (approx_size (snd (f v))) - int (approx_size v), snd (f v))) none s"
  by (simp add: shard_with_mut_def shard_with_mut_delta_alt Let_def split_def resize_counter
      split: option.split)

section \<open>The live view of every operation\<close>

lemma shard_view_later: "t \<le> t' \<Longrightarrow> shard_view t' s = prune t' (shard_view t s)"
  by (simp add: shard_view_def prune_prune)

lemma shard_view_new [simp]: "shard_view t shard_new = (\<lambda>_. None)"
  by (rule ext) (simp add: shard_view_def2 shard_new_def)

lemma shard_view_clear [simp]: "shard_view t (shard_clear s) = (\<lambda>_. None)"
  by (rule ext) (simp add: shard_view_def2 shard_clear_def)

lemma shard_view_touch:
  "map_of (shard_map s) k = Some e \<Longrightarrow> shard_view t (shard_touch clock k e s) = shard_view t s"
  by (rule ext) (simp add: shard_view_def2 shard_touch_def is_expired_def)

lemma shard_view_reap [simp]: "shard_view t (shard_reap t k s) = shard_view t s"
  by (rule ext) (auto simp: shard_view_def2 shard_reap_def split: option.splits)

lemma shard_reap_lookup:
  "map_of (shard_map (shard_reap t k s)) k =
     (case map_of (shard_map s) k of Some e \<Rightarrow> if is_expired t e then None else Some e | None \<Rightarrow> None)"
  by (auto simp: shard_reap_def split: option.splits)

lemma shard_get_view: "fst (shard_get t clock k s) = map_option fst (shard_view t s k)"
  by (simp add: shard_get_def shard_view_def2 split: option.splits)

lemma shard_view_get: "shard_view t (snd (shard_get t clock k s)) = shard_view t s"
  by (auto simp: shard_get_def shard_view_touch split: option.splits)

lemma shard_with_ref_view:
  "fst (shard_with_ref t clock k f s) = f (map_option fst (shard_view t s k))"
  by (auto simp: shard_with_ref_def shard_view_def2 split: option.splits)

lemma shard_view_with_ref: "shard_view t (snd (shard_with_ref t clock k f s)) = shard_view t s"
  by (auto simp: shard_with_ref_def shard_view_touch split: option.splits)

lemma shard_view_set: "shard_view t (shard_set clock k v s) = ks_set k v (shard_view t s)"
  by (rule ext) (simp add: shard_view_def2 shard_set_def ks_set_def Let_def is_expired_def)

lemma shard_del_view: "fst (shard_del t k s) = (shard_view t s k \<noteq> None)"
  by (simp add: shard_del_def shard_view_def2 split: option.splits)

lemma shard_view_del: "shard_view t (snd (shard_del t k s)) = ks_del k (shard_view t s)"
  by (rule ext) (auto simp: shard_view_def2 shard_del_def ks_del_def split: option.splits)

lemma shard_expire_view: "fst (shard_expire_at t k at s) = (shard_view t s k \<noteq> None)"
  by (simp add: shard_expire_at_def shard_view_def2 split: option.splits)

lemma shard_view_expire:
  "shard_view t (snd (shard_expire_at t k at s)) = prune t (ks_expire_at k at (shard_view t s))"
  by (rule ext)
    (auto simp: shard_view_def2 shard_expire_at_def ks_expire_at_def prune_def is_expired_alt
      split: option.splits)

lemma shard_persist_view:
  "fst (shard_persist t k s) = (\<exists>v at. shard_view t s k = Some (v, Some at))"
  by (auto simp: shard_persist_def shard_view_def2 split: option.splits)

lemma shard_view_persist: "shard_view t (snd (shard_persist t k s)) = ks_persist k (shard_view t s)"
  by (rule ext)
    (auto simp: shard_view_def2 shard_persist_def ks_persist_def is_expired_alt split: option.splits)

lemma shard_ttl_view: "shard_ttl t k s = ks_ttl t k (shard_view t s)"
  by (simp add: shard_ttl_def ks_ttl_def shard_view_def2 split: option.splits)

lemma shard_with_mut_delta_view:
  "fst (shard_with_mut_delta t clock k f none s) =
     (case shard_view t s k of Some (v, _) \<Rightarrow> fst (f v) | None \<Rightarrow> none)"
  by (auto simp: shard_with_mut_delta_alt shard_reap_lookup shard_view_def2 Let_def split_def
      split: option.splits)

lemma shard_with_mut_delta_unit:
  "snd (shard_with_mut_delta t clock k f none s) =
   snd (shard_with_mut_delta t clock k (\<lambda>v. ((), snd (f v))) () s)"
  by (simp add: shard_with_mut_delta_alt Let_def split_def split: option.split)

lemma shard_view_mutated:
  assumes "map_of (shard_map s) k = Some e" and "\<not> is_expired t e"
  shows "shard_view t (shard_drop_if_empty k v
           \<lparr>shard_map = AList.update k (e\<lparr>ent_value := v, last_touched := clock\<rparr>) (shard_map s),
            bytes_used = b\<rparr>) =
         (if is_empty_collection v then (shard_view t s)(k := None)
          else (shard_view t s)(k \<mapsto> (v, expires_at e)))"
  using assms
  by (intro ext) (auto simp: shard_view_def2 shard_drop_if_empty_def is_expired_alt)

lemma shard_view_with_mut_delta:
  "shard_view t (snd (shard_with_mut_delta t clock k f none s)) =
     ks_mutate k (\<lambda>v. snd (snd (f v))) (shard_view t s)"
proof (cases "map_of (shard_map (shard_reap t k s)) k")
  case None
  moreover from None have "shard_view t s k = None"
    by (auto simp: shard_reap_lookup shard_view_def2 split: option.splits if_splits)
  ultimately show ?thesis by (simp add: shard_with_mut_delta_alt ks_mutate_def)
next
  case (Some e)
  then have live: "\<not> is_expired t e" and s: "shard_view t s k = Some (ent_value e, expires_at e)"
    by (auto simp: shard_reap_lookup shard_view_def2 split: option.splits if_splits)
  show ?thesis
    using shard_view_mutated [OF Some live] s Some
    by (simp add: shard_with_mut_delta_alt ks_mutate_def Let_def split_def)
qed

lemma shard_view_remove_expired:
  assumes "hm_ok (shard_map s)"
  shows "shard_view t (snd (shard_remove_expired t s)) = shard_view t s"
  using assms
  by (intro ext) (auto simp: shard_view_def2 shard_remove_expired_def Let_def map_of_filter_hmap
      split: option.splits)

text \<open>Enumerations of the live entries.\<close>

lemma map_of_shard_live:
  assumes "hm_ok (shard_map s)"
  shows "map_of (shard_live t s) k =
     (case map_of (shard_map s) k of Some e \<Rightarrow> if is_expired t e then None else Some e | None \<Rightarrow> None)"
  using assms by (auto simp: shard_live_def map_of_filter_hmap split: option.splits)

lemma shard_keys_set: "hm_ok (shard_map s) \<Longrightarrow> set (shard_keys t s) = dom (shard_view t s)"
proof -
  assume ok: "hm_ok (shard_map s)"
  have "set (shard_keys t s) = dom (map_of (shard_live t s))"
    by (simp add: shard_keys_def dom_map_of_conv_image_fst)
  also have "\<dots> = dom (shard_view t s)"
    using ok by (auto simp: map_of_shard_live shard_view_def2 dom_def split: option.splits if_splits)
  finally show ?thesis .
qed

lemma shard_keys_distinct: "hm_ok (shard_map s) \<Longrightarrow> distinct (shard_keys t s)"
  by (simp add: shard_keys_def shard_live_def distinct_map_filter)

lemma shard_entries_map_of:
  assumes "hm_ok (shard_map s)"
  shows "map_of (shard_entries t s) = shard_view t s"
proof
  fix k
  have "shard_entries t s = map (\<lambda>(k, e). (k, (ent_value e, expires_at e))) (shard_live t s)"
    by (simp add: shard_entries_def)
  then have "map_of (shard_entries t s) k =
      map_option (\<lambda>e. (ent_value e, expires_at e)) (map_of (shard_live t s) k)"
    by (simp add: map_of_map)
  also have "\<dots> = shard_view t s k"
    using assms by (simp add: map_of_shard_live shard_view_def2 split: option.splits)
  finally show "map_of (shard_entries t s) k = shard_view t s k" .
qed

lemma shard_entries_keys: "map fst (shard_entries t s) = shard_keys t s"
  by (simp add: shard_entries_def shard_keys_def split_def comp_def)

lemma counts_loop_counts:
  "counts_loop t es (a, b) =
     (a + length (filter (\<lambda>e. \<not> is_expired t e) es),
      b + length (filter (\<lambda>e. \<not> is_expired t e \<and> expires_at e \<noteq> None) es))"
  by (induction es arbitrary: a b) auto

lemma shard_counts_total: "fst (shard_counts t s) = length (shard_keys t s)"
  by (simp add: shard_counts_def counts_loop_counts shard_keys_def shard_live_def filter_map
      comp_def split_def)

section \<open>A shard is a keyspace\<close>

interpretation sh: keyspace_iface shard_view shard_ok "\<lambda>t. shard_get t clock"
  "\<lambda>_. shard_set clock" shard_del shard_expire_at shard_persist shard_ttl
  "\<lambda>t k g s. snd (shard_with_mut_delta t clock k (\<lambda>v. ((), g v)) () s)"
  for clock
proof unfold_locales
  fix t s k v x
  assume "shard_ok s" and "shard_view t s k = Some (v, x)"
  then show "value_ok v"
    by (auto simp: shard_view_def2 dest: shard_okD split: option.splits if_splits)
qed (simp_all add: shard_view_later shard_get_view shard_view_get shard_view_set shard_del_view
      shard_view_del shard_expire_view shard_view_expire shard_persist_view shard_view_persist
      shard_ttl_view shard_view_with_mut_delta shard_ok_get shard_ok_set shard_ok_del
      shard_ok_expire_at shard_ok_persist shard_ok_with_mut_delta comp_def)

end
