(* ===== verification/Rm_Store.thy ===== *)
theory Rm_Store
  imports Rm_Shard
begin

text \<open>
  The sharded store (\<open>crates/engine/src/store.rs\<close>): a vector of shards, each key routed by its
  hash, and the shared recency clock. The hash function \<open>h\<close> is a parameter throughout. The
  invariant \<open>store_ok\<close> adds to the shards' own that every key lives in the shard it routes to.
  The store implements \<open>keyspace_iface\<close>: the shards together behave as one map.
\<close>

section \<open>State and operations\<close>

record 'f store =
  shards :: "'f shard list"
  clock :: u64

abbreviation SHARD_COUNT :: nat where
  "SHARD_COUNT \<equiv> 16"

definition store_new :: "nat \<Rightarrow> 'f store" where
  "store_new shard_count = \<lparr>shards = replicate shard_count shard_new, clock = 0\<rparr>"

definition store_advance_clock :: "'f store \<Rightarrow> 'f store" where
  "store_advance_clock st = st\<lparr>clock := clock st + 1\<rparr>"

definition shard_index :: "(bytes \<Rightarrow> u64) \<Rightarrow> bytes \<Rightarrow> 'f store \<Rightarrow> nat" where
  "shard_index h key st = unat (h key) mod length (shards st)"

text \<open>Running a method of the shard a key routes to, and putting the shard back.\<close>

definition on_shard ::
  "(bytes \<Rightarrow> u64) \<Rightarrow> bytes \<Rightarrow> ('f shard \<Rightarrow> 'r \<times> 'f shard) \<Rightarrow> 'f store \<Rightarrow> 'r \<times> 'f store" where
  "on_shard h key f st =
     (let i = shard_index h key st;
          (r, s) = f (shards st ! i)
      in (r, st\<lparr>shards := (shards st)[i := s]\<rparr>))"

definition store_get ::
  "(bytes \<Rightarrow> u64) \<Rightarrow> instant \<Rightarrow> bytes \<Rightarrow> 'f::linorder store \<Rightarrow> 'f kvalue option \<times> 'f store" where
  "store_get h now key st = on_shard h key (shard_get now (clock st) key) st"

definition store_set ::
  "(bytes \<Rightarrow> u64) \<Rightarrow> bytes \<Rightarrow> 'f::linorder kvalue \<Rightarrow> 'f store \<Rightarrow> 'f store" where
  "store_set h key v st = snd (on_shard h key (\<lambda>s. ((), shard_set (clock st) key v s)) st)"

definition store_del ::
  "(bytes \<Rightarrow> u64) \<Rightarrow> instant \<Rightarrow> bytes \<Rightarrow> 'f::linorder store \<Rightarrow> bool \<times> 'f store" where
  "store_del h now key st = on_shard h key (shard_del now key) st"

definition store_exists ::
  "(bytes \<Rightarrow> u64) \<Rightarrow> instant \<Rightarrow> bytes \<Rightarrow> 'f store \<Rightarrow> bool \<times> 'f store" where
  "store_exists h now key st = on_shard h key (shard_exists now (clock st) key) st"

definition store_keys :: "instant \<Rightarrow> 'f store \<Rightarrow> bytes list" where
  "store_keys now st = concat (map (shard_keys now) (shards st))"

definition store_key_counts :: "instant \<Rightarrow> 'f store \<Rightarrow> nat \<times> nat" where
  "store_key_counts now st =
     foldl (\<lambda>(t, e) s. let (st', se) = shard_counts now s in (t + st', e + se)) (0, 0) (shards st)"

definition store_with_ref ::
  "(bytes \<Rightarrow> u64) \<Rightarrow> instant \<Rightarrow> bytes \<Rightarrow> ('f kvalue option \<Rightarrow> 'r) \<Rightarrow> 'f store \<Rightarrow> 'r \<times> 'f store" where
  "store_with_ref h now key f st = on_shard h key (shard_with_ref now (clock st) key f) st"

definition store_with_mut ::
  "(bytes \<Rightarrow> u64) \<Rightarrow> instant \<Rightarrow> bytes \<Rightarrow> ('f::linorder kvalue \<Rightarrow> 'r \<times> 'f kvalue) \<Rightarrow> 'r \<Rightarrow> 'f store
   \<Rightarrow> 'r \<times> 'f store" where
  "store_with_mut h now key f none st =
     on_shard h key (shard_with_mut now (clock st) key f none) st"

definition store_with_mut_delta ::
  "(bytes \<Rightarrow> u64) \<Rightarrow> instant \<Rightarrow> bytes \<Rightarrow> ('f::linorder, 'r) mutator \<Rightarrow> 'r \<Rightarrow> 'f store
   \<Rightarrow> 'r \<times> 'f store" where
  "store_with_mut_delta h now key f none st =
     on_shard h key (shard_with_mut_delta now (clock st) key f none) st"

definition store_expire_at ::
  "(bytes \<Rightarrow> u64) \<Rightarrow> instant \<Rightarrow> bytes \<Rightarrow> instant \<Rightarrow> 'f store \<Rightarrow> bool \<times> 'f store" where
  "store_expire_at h now key at st = on_shard h key (shard_expire_at now key at) st"

definition store_persist ::
  "(bytes \<Rightarrow> u64) \<Rightarrow> instant \<Rightarrow> bytes \<Rightarrow> 'f store \<Rightarrow> bool \<times> 'f store" where
  "store_persist h now key st = on_shard h key (shard_persist now key) st"

definition store_ttl :: "(bytes \<Rightarrow> u64) \<Rightarrow> instant \<Rightarrow> bytes \<Rightarrow> 'f store \<Rightarrow> ttl_status" where
  "store_ttl h now key st = shard_ttl now key (shards st ! shard_index h key st)"

definition store_active_expire_cycle ::
  "instant \<Rightarrow> nat \<Rightarrow> 'f::linorder store \<Rightarrow> nat \<times> 'f store" where
  "store_active_expire_cycle now shard_idx st =
     (let i = shard_idx mod length (shards st);
          (n, s) = shard_remove_expired now (shards st ! i)
      in (n, st\<lparr>shards := (shards st)[i := s]\<rparr>))"

definition store_scan :: "instant \<Rightarrow> nat \<Rightarrow> 'f store \<Rightarrow> nat \<times> bytes list" where
  "store_scan now cursor st =
     (if cursor \<ge> length (shards st) then (0, [])
      else let keys = shard_keys now (shards st ! cursor);
               next = (if cursor + 1 \<ge> length (shards st) then 0 else cursor + 1)
           in (next, keys))"

definition store_memory_used :: "'f store \<Rightarrow> u64" where
  "store_memory_used st = sum_list (map bytes_used (shards st))"

definition store_sample_for_eviction :: "nat \<Rightarrow> 'f store \<Rightarrow> (bytes \<times> u64) list" where
  "store_sample_for_eviction per_shard st = concat (map (shard_sample_recency per_shard) (shards st))"

definition store_snapshot_entries ::
  "instant \<Rightarrow> 'f store \<Rightarrow> (bytes \<times> 'f kvalue \<times> instant option) list" where
  "store_snapshot_entries now st = concat (map (shard_entries now) (shards st))"

fun load_entries ::
  "(bytes \<Rightarrow> u64) \<Rightarrow> instant \<Rightarrow> (bytes \<times> 'f::linorder kvalue \<times> instant option) list \<Rightarrow> 'f store
   \<Rightarrow> 'f store" where
  "load_entries h now [] st = st"
| "load_entries h now ((key, v, x) # es) st =
     (let st1 = store_set h key v st;
          st2 = (case x of Some at \<Rightarrow> snd (store_expire_at h now key at st1) | None \<Rightarrow> st1)
      in load_entries h now es st2)"

definition store_load_snapshot_entries ::
  "(bytes \<Rightarrow> u64) \<Rightarrow> instant \<Rightarrow> (bytes \<times> 'f::linorder kvalue \<times> instant option) list \<Rightarrow> 'f store
   \<Rightarrow> 'f store" where
  "store_load_snapshot_entries h now entries st =
     load_entries h now entries (st\<lparr>shards := map shard_clear (shards st)\<rparr>)"

section \<open>Invariant and view\<close>

definition store_ok :: "(bytes \<Rightarrow> u64) \<Rightarrow> 'f::linorder store \<Rightarrow> bool" where
  "store_ok h st \<longleftrightarrow> shards st \<noteq> []
     \<and> (\<forall>i < length (shards st). shard_ok (shards st ! i)
           \<and> (\<forall>k \<in> fst ` set (shard_map (shards st ! i)). shard_index h k st = i))"

definition store_view :: "(bytes \<Rightarrow> u64) \<Rightarrow> instant \<Rightarrow> 'f store \<Rightarrow> 'f keyspace" where
  "store_view h now st k = shard_view now (shards st ! shard_index h k st) k"

lemma shard_index_less: "store_ok h st \<Longrightarrow> shard_index h k st < length (shards st)"
  by (simp add: store_ok_def shard_index_def)

lemma shard_index_cong:
  "length (shards st') = length (shards st) \<Longrightarrow> shard_index h k st' = shard_index h k st"
  by (simp add: shard_index_def)

lemma store_ok_shard: "store_ok h st \<Longrightarrow> i < length (shards st) \<Longrightarrow> shard_ok (shards st ! i)"
  by (simp add: store_ok_def)

lemma store_ok_index:
  "store_ok h st \<Longrightarrow> i < length (shards st) \<Longrightarrow> k \<in> fst ` set (shard_map (shards st ! i)) \<Longrightarrow>
   shard_index h k st = i"
  by (auto simp: store_ok_def)

lemma store_ok_routed: "store_ok h st \<Longrightarrow> shard_ok (shards st ! shard_index h k st)"
  by (simp add: shard_index_less store_ok_shard)

lemma on_shard_simps:
  "fst (on_shard h k f st) = fst (f (shards st ! shard_index h k st))"
  "shards (snd (on_shard h k f st)) =
     (shards st)[shard_index h k st := snd (f (shards st ! shard_index h k st))]"
  "clock (snd (on_shard h k f st)) = clock st"
  by (simp_all add: on_shard_def Let_def split_def)

text \<open>
  A method of a shard that keeps the shard's invariant and adds no key but the one it was routed
  by keeps the store's invariant, and changes the store's view as it changes the shard's.
\<close>

lemma store_ok_on_shard:
  assumes "store_ok h st"
    and "\<And>s. shard_ok s \<Longrightarrow> shard_ok (snd (f s))"
    and "\<And>s. fst ` set (shard_map (snd (f s))) \<subseteq> insert k (fst ` set (shard_map s))"
  shows "store_ok h (snd (on_shard h k f st))"
proof -
  let ?i = "shard_index h k st" and ?st = "snd (on_shard h k f st)"
  have len: "length (shards ?st) = length (shards st)"
    by (simp add: on_shard_simps)
  have i: "?i < length (shards st)" using assms(1) by (rule shard_index_less)
  have "shard_ok (shards ?st ! j)
      \<and> (\<forall>k' \<in> fst ` set (shard_map (shards ?st ! j)). shard_index h k' ?st = j)"
    if j: "j < length (shards st)" for j
  proof (cases "j = ?i")
    case True
    with i have nth: "shards ?st ! j = snd (f (shards st ! ?i))" by (simp add: on_shard_simps)
    have "\<forall>k' \<in> fst ` set (shard_map (snd (f (shards st ! ?i)))). shard_index h k' ?st = j"
    proof
      fix k' assume "k' \<in> fst ` set (shard_map (snd (f (shards st ! ?i))))"
      then have "k' = k \<or> k' \<in> fst ` set (shard_map (shards st ! ?i))"
        using assms(3) by blast
      then show "shard_index h k' ?st = j"
        using assms(1) i True by (auto simp: shard_index_cong [OF len] store_ok_def)
    qed
    with nth assms(1,2) i show ?thesis by (simp add: store_ok_routed)
  next
    case False
    with j assms(1) show ?thesis
      by (simp add: on_shard_simps store_ok_def shard_index_cong [OF len])
  qed
  with assms(1) len show ?thesis unfolding store_ok_def by (metis length_0_conv)
qed

lemma store_view_on_shard:
  assumes "store_ok h st"
    and "\<And>k'. k' \<noteq> k \<Longrightarrow> g (store_view h t st) k' = store_view h t st k'"
    and "shard_view t (snd (f (shards st ! shard_index h k st))) k = g (store_view h t st) k"
    and "\<And>k'. k' \<noteq> k \<Longrightarrow>
      shard_view t (snd (f (shards st ! shard_index h k st))) k' =
      shard_view t (shards st ! shard_index h k st) k'"
  shows "store_view h t (snd (on_shard h k f st)) = g (store_view h t st)"
proof
  fix k'
  let ?st = "snd (on_shard h k f st)"
  have len: "length (shards ?st) = length (shards st)"
    by (simp add: on_shard_simps)
  have i: "shard_index h k st < length (shards st)" using assms(1) by (rule shard_index_less)
  have "store_view h t ?st k' = shard_view t (shards ?st ! shard_index h k' st) k'"
    by (simp add: store_view_def shard_index_cong [OF len])
  also have "\<dots> = g (store_view h t st) k'"
    using assms(2-4) i by (cases "shard_index h k' st = shard_index h k st"; cases "k' = k")
      (simp_all add: on_shard_simps store_view_def)
  finally show "store_view h t ?st k' = g (store_view h t st) k'" .
qed

section \<open>The operations of the store\<close>

lemma keys_update_subset: "fst ` set (AList.update k v m) \<subseteq> insert k (fst ` set m)"
  by (simp add: dom_update)

lemma keys_delete_subset: "fst ` set (AList.delete k m) \<subseteq> insert k (fst ` set m)"
  by (auto simp: AList.delete_eq)

lemma keys_reap_subset: "fst ` set (shard_map (shard_reap t k s)) \<subseteq> fst ` set (shard_map s)"
  by (auto simp: shard_reap_def AList.delete_eq split: option.splits)

lemmas keys_subset = keys_update_subset keys_delete_subset

lemma shard_keys_frame:
  "fst ` set (shard_map (snd (shard_get t c k s))) \<subseteq> insert k (fst ` set (shard_map s))"
  "fst ` set (shard_map (shard_set c k v s)) \<subseteq> insert k (fst ` set (shard_map s))"
  "fst ` set (shard_map (snd (shard_del t k s))) \<subseteq> insert k (fst ` set (shard_map s))"
  "fst ` set (shard_map (snd (shard_with_ref t c k f s))) \<subseteq> insert k (fst ` set (shard_map s))"
  "fst ` set (shard_map (snd (shard_expire_at t k at s))) \<subseteq> insert k (fst ` set (shard_map s))"
  "fst ` set (shard_map (snd (shard_persist t k s))) \<subseteq> insert k (fst ` set (shard_map s))"
  using keys_reap_subset [of t k s]
  by (auto simp: dom_update AList.delete_eq shard_get_def shard_set_def shard_del_def shard_with_ref_def shard_expire_at_def
      shard_persist_def shard_touch_def Let_def split: option.splits)

lemma shard_keys_frame_mut:
  "fst ` set (shard_map (snd (shard_with_mut_delta t c k f none s)))
     \<subseteq> insert k (fst ` set (shard_map s))"
proof (cases "map_of (shard_map (shard_reap t k s)) k")
  case None
  then show ?thesis
    using keys_reap_subset [of t k s] by (auto simp: shard_with_mut_delta_alt)
next
  case (Some e)
  let ?m = "AList.update k (e\<lparr>ent_value := snd (snd (f (ent_value e))), last_touched := c\<rparr>)
              (shard_map (shard_reap t k s))"
  have "fst ` set ?m \<subseteq> insert k (fst ` set (shard_map s))"
    using keys_reap_subset [of t k s] by (auto simp: dom_update)
  moreover from this have "fst ` set (AList.delete k ?m) \<subseteq> insert k (fst ` set (shard_map s))"
    by (auto simp: AList.delete_eq)
  ultimately show ?thesis
    using Some by (simp add: shard_with_mut_delta_alt Let_def split_def shard_drop_if_empty_def)
qed

lemma store_ok_new: "0 < n \<Longrightarrow> store_ok h (store_new n)"
  by (auto simp: store_ok_def store_new_def shard_ok_new) (simp add: shard_new_def)

lemma store_view_new: "0 < n \<Longrightarrow> store_view h t (store_new n) = (\<lambda>_. None)"
  by (rule ext) (simp add: store_view_def store_new_def shard_index_def)

lemma store_ok_ops [wf_intros]:
  assumes "store_ok h st"
  shows "store_ok h (snd (store_get h t k st))"
    and "value_ok v \<Longrightarrow> store_ok h (store_set h k v st)"
    and "store_ok h (snd (store_del h t k st))"
    and "store_ok h (snd (store_with_ref h t k f st))"
    and "store_ok h (snd (store_exists h t k st))"
    and "store_ok h (snd (store_expire_at h t k at st))"
    and "store_ok h (snd (store_persist h t k st))"
    and "delta_exact (\<lambda>v. snd (g v)) \<Longrightarrow> store_ok h (snd (store_with_mut_delta h t k g none st))"
  unfolding store_get_def store_set_def store_del_def store_with_ref_def store_exists_def
    store_expire_at_def store_persist_def store_with_mut_delta_def shard_exists_def
  by (rule store_ok_on_shard [OF assms];
      (simp add: shard_keys_frame shard_keys_frame_mut wf_intros)?)+

lemma store_view_later: "t \<le> t' \<Longrightarrow> store_view h t' st = prune t' (store_view h t st)"
  by (rule ext) (simp add: store_view_def shard_view_later prune_def)

lemma store_get_view: "fst (store_get h t k st) = map_option fst (store_view h t st k)"
  by (simp add: store_get_def on_shard_simps shard_get_view store_view_def)

lemma store_view_get: "store_ok h st \<Longrightarrow> store_view h t (snd (store_get h t k st)) = store_view h t st"
  unfolding store_get_def
  by (rule store_view_on_shard [where g = "\<lambda>m. m"]) (simp_all add: shard_view_get store_view_def)

lemma store_with_ref_view:
  "fst (store_with_ref h t k f st) = f (map_option fst (store_view h t st k))"
  by (simp add: store_with_ref_def on_shard_simps shard_with_ref_view store_view_def)

lemma store_view_with_ref:
  "store_ok h st \<Longrightarrow> store_view h t (snd (store_with_ref h t k f st)) = store_view h t st"
  unfolding store_with_ref_def
  by (rule store_view_on_shard [where g = "\<lambda>m. m"]) (simp_all add: shard_view_with_ref store_view_def)

lemma store_exists_view: "fst (store_exists h t k st) = (store_view h t st k \<noteq> None)"
  by (simp add: store_exists_def shard_exists_def on_shard_simps shard_with_ref_view store_view_def)

lemma store_view_exists:
  "store_ok h st \<Longrightarrow> store_view h t (snd (store_exists h t k st)) = store_view h t st"
  unfolding store_exists_def shard_exists_def
  by (rule store_view_on_shard [where g = "\<lambda>m. m"]) (simp_all add: shard_view_with_ref store_view_def)

lemma store_view_set:
  "store_ok h st \<Longrightarrow> store_view h t (store_set h k v st) = ks_set k v (store_view h t st)"
  unfolding store_set_def
  by (rule store_view_on_shard [where g = "ks_set k v"]) (simp_all add: shard_view_set ks_set_def)

lemma store_del_view: "fst (store_del h t k st) = (store_view h t st k \<noteq> None)"
  by (simp add: store_del_def on_shard_simps shard_del_view store_view_def)

lemma store_view_del:
  "store_ok h st \<Longrightarrow> store_view h t (snd (store_del h t k st)) = ks_del k (store_view h t st)"
  unfolding store_del_def
  by (rule store_view_on_shard [where g = "ks_del k"]) (simp_all add: shard_view_del ks_del_def)

lemma store_expire_view: "fst (store_expire_at h t k at st) = (store_view h t st k \<noteq> None)"
  by (simp add: store_expire_at_def on_shard_simps shard_expire_view store_view_def)

lemma store_view_pruned: "prune t (store_view h t st) = store_view h t st"
  using store_view_later [of t t h st] by simp

lemma store_view_expire:
  assumes "store_ok h st"
  shows "store_view h t (snd (store_expire_at h t k at st)) =
           prune t (ks_expire_at k at (store_view h t st))"
  unfolding store_expire_at_def
proof (rule store_view_on_shard [OF assms, where g = "\<lambda>m. prune t (ks_expire_at k at m)"])
  fix k' assume "k' \<noteq> k"
  then show "prune t (ks_expire_at k at (store_view h t st)) k' = store_view h t st k'"
    using fun_cong [OF store_view_pruned [of t h st], of k']
    by (auto simp: ks_expire_at_def prune_def split: option.splits if_splits)
next
  fix k' :: bytes
  let ?s = "shards st ! shard_index h k st"
  assume "k' \<noteq> k"
  then show "shard_view t (snd (shard_expire_at t k at ?s)) k' = shard_view t ?s k'"
    by (auto simp: shard_view_def2 shard_expire_at_def split: option.splits)
qed (auto simp: shard_view_expire store_view_def ks_expire_at_def prune_def split: option.splits)

lemma store_persist_view:
  "fst (store_persist h t k st) = (\<exists>v at. store_view h t st k = Some (v, Some at))"
  by (simp add: store_persist_def on_shard_simps shard_persist_view store_view_def)

lemma store_view_persist:
  "store_ok h st \<Longrightarrow>
   store_view h t (snd (store_persist h t k st)) = ks_persist k (store_view h t st)"
  unfolding store_persist_def
  by (rule store_view_on_shard [where g = "ks_persist k"])
    (auto simp: shard_view_persist ks_persist_def store_view_def split: option.splits)

lemma store_ttl_view: "store_ttl h t k st = ks_ttl t k (store_view h t st)"
  by (simp add: store_ttl_def shard_ttl_view ks_ttl_def store_view_def)

lemma store_with_mut_delta_view:
  "fst (store_with_mut_delta h t k f none st) =
     (case store_view h t st k of Some (v, _) \<Rightarrow> fst (f v) | None \<Rightarrow> none)"
  by (simp add: store_with_mut_delta_def on_shard_simps shard_with_mut_delta_view store_view_def)

lemma store_view_with_mut_delta:
  "store_ok h st \<Longrightarrow>
   store_view h t (snd (store_with_mut_delta h t k f none st)) =
     ks_mutate k (\<lambda>v. snd (snd (f v))) (store_view h t st)"
  unfolding store_with_mut_delta_def
  by (rule store_view_on_shard [where g = "ks_mutate k (\<lambda>v. snd (snd (f v)))"])
    (auto simp: shard_view_with_mut_delta ks_mutate_def store_view_def split: option.splits)

lemma store_view_value_ok:
  "store_ok h st \<Longrightarrow> store_view h t st k = Some (v, x) \<Longrightarrow> value_ok v"
  unfolding store_view_def by (rule sh.view_value_ok [OF store_ok_routed])

interpretation st: keyspace_iface "store_view h" "store_ok h" "store_get h" "\<lambda>_. store_set h"
  "store_del h" "store_expire_at h" "store_persist h" "store_ttl h"
  "\<lambda>t k g s. snd (store_with_mut_delta h t k (\<lambda>v. ((), g v)) () s)"
  for h
  by unfold_locales
    (simp_all add: store_view_later store_get_view store_view_get store_view_set store_del_view
      store_view_del store_expire_view store_view_expire store_persist_view store_view_persist
      store_ttl_view store_view_with_mut_delta store_ok_ops store_view_value_ok comp_def)

section \<open>Whole-store operations\<close>

lemma store_okI:
  assumes "store_ok h st" and "length ss = length (shards st)"
    and "\<And>i. i < length ss \<Longrightarrow> shard_ok (ss ! i)"
    and "\<And>i. i < length ss \<Longrightarrow>
      fst ` set (shard_map (ss ! i)) \<subseteq> fst ` set (shard_map (shards st ! i))"
  shows "store_ok h (st\<lparr>shards := ss\<rparr>)"
proof -
  have "shard_index h k (st\<lparr>shards := ss\<rparr>) = shard_index h k st" for k
    using assms(2) by (simp add: shard_index_def)
  moreover have "ss \<noteq> []" using assms(1,2) by (auto simp: store_ok_def)
  moreover have "\<forall>k \<in> fst ` set (shard_map (ss ! i)). shard_index h k st = i"
    if "i < length ss" for i
  proof
    fix k assume "k \<in> fst ` set (shard_map (ss ! i))"
    with assms(4) [OF that] have "k \<in> fst ` set (shard_map (shards st ! i))" by (rule subsetD)
    with assms(1,2) that show "shard_index h k st = i" by (simp only: store_ok_index)
  qed
  ultimately show ?thesis using assms(3) unfolding store_ok_def by simp
qed

lemma store_ok_active_expire_cycle [wf_intros]:
  assumes "store_ok h st"
  shows "store_ok h (snd (store_active_expire_cycle t i st))"
proof -
  let ?j = "i mod length (shards st)" 
  let ?ss = "(shards st)[?j := snd (shard_remove_expired t (shards st ! ?j))]"
  have j: "?j < length (shards st)" using assms by (simp add: store_ok_def)
  have "store_ok h (st\<lparr>shards := ?ss\<rparr>)"
  proof (rule store_okI [OF assms])
    fix i' assume "i' < length ?ss"
    then show "shard_ok (?ss ! i')"
      using j assms by (cases "i' = ?j") (simp_all add: store_ok_shard shard_ok_remove_expired)
    show "fst ` set (shard_map (?ss ! i')) \<subseteq> fst ` set (shard_map (shards st ! i'))"
      using j by (cases "i' = ?j") (auto simp: shard_remove_expired_def Let_def)
  qed simp
  then show ?thesis by (simp add: store_active_expire_cycle_def Let_def split_def)
qed

lemma store_view_active_expire_cycle:
  assumes "store_ok h st"
  shows "store_view h t (snd (store_active_expire_cycle t i st)) = store_view h t st"
proof
  fix k
  let ?j = "i mod length (shards st)" and ?st = "snd (store_active_expire_cycle t i st)"
  have j: "?j < length (shards st)" using assms by (simp add: store_ok_def)
  have ss: "shards ?st = (shards st)[?j := snd (shard_remove_expired t (shards st ! ?j))]"
    by (simp add: store_active_expire_cycle_def Let_def split_def)
  have "shard_index h k ?st = shard_index h k st" by (rule shard_index_cong) (simp add: ss)
  then show "store_view h t ?st k = store_view h t st k"
    using j shard_view_remove_expired [OF shard_okD(1) [OF store_ok_shard [OF assms j]]]
    by (cases "shard_index h k st = ?j") (simp_all add: store_view_def ss)
qed

lemma shard_keys_routed:
  "store_ok h st \<Longrightarrow> i < length (shards st) \<Longrightarrow> k \<in> set (shard_keys t (shards st ! i)) \<Longrightarrow>
   shard_index h k st = i"
  by (rule store_ok_index) (auto simp: shard_keys_def shard_live_def)

lemma store_keys_set:
  assumes "store_ok h st"
  shows "set (store_keys t st) = dom (store_view h t st)"
proof -
  have keys: "set (shard_keys t (shards st ! i)) = dom (shard_view t (shards st ! i))"
    if "i < length (shards st)" for i
    using assms that by (intro shard_keys_set shard_okD store_ok_shard)
  have "k \<in> set (store_keys t st) \<longleftrightarrow>
      (\<exists>i < length (shards st). k \<in> set (shard_keys t (shards st ! i)))" for k
    by (simp add: store_keys_def set_conv_nth [of "shards st"] Bex_def) blast
  moreover have "(\<exists>i < length (shards st). k \<in> set (shard_keys t (shards st ! i))) \<longleftrightarrow>
      k \<in> dom (store_view h t st)" for k
  proof -
    let ?i = "shard_index h k st"
    have "(\<exists>i < length (shards st). k \<in> set (shard_keys t (shards st ! i))) \<longleftrightarrow>
        k \<in> set (shard_keys t (shards st ! ?i))"
      using shard_keys_routed [OF assms] shard_index_less [OF assms] by blast
    then show ?thesis
      using keys [OF shard_index_less [OF assms]] by (simp add: store_view_def dom_def)
  qed
  ultimately show ?thesis by blast
qed

lemma distinct_concat_routed:
  assumes "\<And>i. i < length xss \<Longrightarrow> distinct (xss ! i)"
    and "\<And>i x. i < length xss \<Longrightarrow> x \<in> set (xss ! i) \<Longrightarrow> r x = i"
  shows "distinct (concat xss)"
  using assms
proof (induction xss arbitrary: r)
  case (Cons xs xss)
  have "distinct (concat xss)"
  proof (rule Cons.IH [of "\<lambda>x. r x - 1"])
    fix i x assume "i < length xss" and "x \<in> set (xss ! i)"
    then show "r x - 1 = i" using Cons.prems(2) [of "Suc i" x] by simp
  next
    fix i assume "i < length xss"
    then show "distinct (xss ! i)" using Cons.prems(1) [of "Suc i"] by simp
  qed
  moreover have "r x = 0" if "x \<in> set xs" for x
    using Cons.prems(2) [of 0 x] that by simp
  moreover have "r x \<noteq> 0" if "x \<in> set (concat xss)" for x
    using that Cons.prems(2) [of "Suc _" x] by (fastforce simp: in_set_conv_nth [of _ xss])
  ultimately show ?case using Cons.prems(1) [of 0] by fastforce
qed simp

lemma store_keys_distinct:
  assumes "store_ok h st"
  shows "distinct (store_keys t st)"
  unfolding store_keys_def
proof (rule distinct_concat_routed [where r = "\<lambda>k. shard_index h k st"])
  fix i assume i: "i < length (map (shard_keys t) (shards st))"
  with assms show "distinct (map (shard_keys t) (shards st) ! i)"
    by (simp add: shard_keys_distinct shard_okD(1) store_ok_shard)
  fix k assume "k \<in> set (map (shard_keys t) (shards st) ! i)"
  with assms i show "shard_index h k st = i" by (simp add: shard_keys_routed)
qed

lemma store_scan_sweep:
  "concat (map (\<lambda>c. snd (store_scan t c st)) [0..<length (shards st)]) = store_keys t st"
proof -
  have "map (\<lambda>c. snd (store_scan t c st)) [0..<length (shards st)] = map (shard_keys t) (shards st)"
    by (rule nth_equalityI) (simp_all add: store_scan_def)
  then show ?thesis by (simp add: store_keys_def)
qed

lemma store_scan_next:
  "c < length (shards st) \<Longrightarrow>
   fst (store_scan t c st) = (if c + 1 = length (shards st) then 0 else c + 1)"
  by (auto simp: store_scan_def)

lemma key_counts_fold:
  "foldl (\<lambda>(t, e) s. let (st', se) = shard_counts now s in (t + st', e + se)) (a, b) ss =
     (a + sum_list (map (\<lambda>s. fst (shard_counts now s)) ss),
      b + sum_list (map (\<lambda>s. snd (shard_counts now s)) ss))"
  by (induction ss arbitrary: a b) (simp_all add: Let_def split_def)

lemma store_key_counts_total: "fst (store_key_counts t st) = length (store_keys t st)"
  unfolding store_key_counts_def key_counts_fold
  by (simp add: store_keys_def shard_counts_total length_concat comp_def)

lemma store_memory_used_total:
  assumes "store_ok h st"
  shows "store_memory_used st = of_nat (sum_list (map (\<lambda>s. shard_total (shard_map s)) (shards st)))"
proof -
  have "map bytes_used (shards st) = map (\<lambda>s. of_nat (shard_total (shard_map s))) (shards st)"
    using assms by (auto simp: store_ok_def in_set_conv_nth shard_ok_def)
  moreover have "sum_list (map (\<lambda>s. of_nat (f s) :: u64) ss) = of_nat (sum_list (map f ss))"
    for f :: "'a shard \<Rightarrow> nat" and ss
    by (induction ss) simp_all
  ultimately show ?thesis by (simp only: store_memory_used_def)
qed

section \<open>Snapshots of the store\<close>

lemma store_snapshot_keys: "map fst (store_snapshot_entries t st) = store_keys t st"
  by (simp add: store_snapshot_entries_def store_keys_def map_concat comp_def shard_entries_keys)

lemma store_snapshot_entries_map_of:
  assumes "store_ok h st"
  shows "map_of (store_snapshot_entries t st) = store_view h t st"
proof
  fix k
  have dist: "distinct (map fst (store_snapshot_entries t st))"
    using assms by (simp add: store_snapshot_keys store_keys_distinct)
  show "map_of (store_snapshot_entries t st) k = store_view h t st k"
  proof (cases "store_view h t st k")
    case None
    then have "k \<notin> fst ` set (store_snapshot_entries t st)"
      using store_keys_set [OF assms, of t] store_snapshot_keys [of t st]
      by (metis domIff set_map)
    with None show ?thesis by (simp add: map_of_eq_None_iff)
  next
    case (Some p)
    let ?i = "shard_index h k st"
    have i: "?i < length (shards st)" using assms by (rule shard_index_less)
    from Some have "map_of (shard_entries t (shards st ! ?i)) k = Some p"
      using assms i by (simp add: store_view_def shard_entries_map_of shard_okD(1) store_ok_shard)
    with i have "(k, p) \<in> set (store_snapshot_entries t st)"
      by (force simp: store_snapshot_entries_def dest: map_of_SomeD)
    with dist Some show ?thesis by (simp add: map_of_is_SomeI)
  qed
qed

lemma store_clear_ok:
  "store_ok h st \<Longrightarrow> store_ok h (st\<lparr>shards := map shard_clear (shards st)\<rparr>)"
  by (rule store_okI) (simp_all add: shard_ok_clear, simp add: shard_clear_def)

lemma store_clear_view:
  assumes "store_ok h st"
  shows "store_view h t (st\<lparr>shards := map shard_clear (shards st)\<rparr>) = (\<lambda>_. None)"
proof
  fix k
  have "shard_index h k (st\<lparr>shards := map shard_clear (shards st)\<rparr>) = shard_index h k st"
    by (simp add: shard_index_def)
  then show "store_view h t (st\<lparr>shards := map shard_clear (shards st)\<rparr>) k = None"
    using shard_index_less [OF assms, of k] by (simp add: store_view_def)
qed

lemma load_entries_ok:
  "store_ok h st \<Longrightarrow> \<forall>(k, v, x) \<in> set es. value_ok v \<Longrightarrow> store_ok h (load_entries h t es st)"
  by (induction h t es st rule: load_entries.induct)
    (auto simp: Let_def store_ok_ops split: option.splits)

lemma load_entries_view:
  assumes "store_ok h st" and "\<forall>(k, v, x) \<in> set es. value_ok v" and "distinct (map fst es)"
  shows "store_view h t (load_entries h t es st) k =
           (case map_of es k of Some p \<Rightarrow> prune t (\<lambda>_. Some p) k | None \<Rightarrow> store_view h t st k)"
  using assms
proof (induction h t es st rule: load_entries.induct)
  case (2 h t key v x es st)
  let ?st1 = "store_set h key v st"
  let ?st2 = "case x of Some at \<Rightarrow> snd (store_expire_at h t key at ?st1) | None \<Rightarrow> ?st1"
  from 2 have ok1: "store_ok h ?st1" by (simp add: store_ok_ops)
  then have ok2: "store_ok h ?st2" by (simp add: store_ok_ops split: option.split)
  have v2: "store_view h t ?st2 k' = (if k' = key then prune t (\<lambda>_. Some (v, x)) key
              else store_view h t st k')" for k'
    using 2(2) ok1 fun_cong [OF store_view_pruned [of t h st], of k']
    by (cases x)
      (auto simp: store_view_expire store_view_set ks_set_def ks_expire_at_def prune_def
        split: option.splits if_splits)
  have "store_view h t (load_entries h t es ?st2) k =
     (case map_of es k of Some p \<Rightarrow> prune t (\<lambda>_. Some p) k | None \<Rightarrow> store_view h t ?st2 k)"
    using 2 ok2 by auto
  moreover have "k = key \<Longrightarrow> map_of es k = None"
    using 2(4) by (simp add: map_of_eq_None_iff)
  ultimately show ?case using v2 [of k] by (auto simp: Let_def prune_def split: option.splits)
qed simp

lemma store_load_snapshot_view:
  assumes "store_ok h st" and "\<forall>(k, v, x) \<in> set es. value_ok v" and "distinct (map fst es)"
  shows "store_view h t (store_load_snapshot_entries h t es st) = prune t (map_of es)"
    and "store_ok h (store_load_snapshot_entries h t es st)"
proof -
  note ok = store_clear_ok [OF assms(1)]
  show "store_view h t (store_load_snapshot_entries h t es st) = prune t (map_of es)"
    unfolding store_load_snapshot_entries_def
    by (rule ext) (auto simp: load_entries_view [OF ok assms(2,3)] store_clear_view [OF assms(1)]
        prune_def split: option.splits)
  show "store_ok h (store_load_snapshot_entries h t es st)"
    unfolding store_load_snapshot_entries_def by (rule load_entries_ok [OF ok assms(2)])
qed

end
