(* ===== verification/Rm_Engine.thy ===== *)
theory Rm_Engine
  imports Rm_Store
begin

text \<open>
  The engine facade (\<open>crates/engine/src/engine.rs\<close>): the store, an optional memory ceiling with
  sampled least-recently-used eviction after every write, and the rate-limited eviction report.
  Without a ceiling the facade implements \<open>keyspace_iface\<close>; with one it implements the weaker
  \<open>evicting_iface\<close>, and the eviction loop is shown to end under the ceiling.
\<close>

section \<open>Errors of the commands\<close>

datatype engine_error = WrongType | NotAnInteger | NoSuchKey | IncrementOverflow | IndexOutOfRange

section \<open>State and operations\<close>

record 'f engine =
  store :: "'f store"
  maxmemory :: "u64 option"
  eviction_count :: u64
  started_at :: instant
  last_eviction_warn_secs :: u64

abbreviation EVICTION_WARN_INTERVAL_SECS :: u64 where
  "EVICTION_WARN_INTERVAL_SECS \<equiv> 60"

abbreviation NEVER_WARNED :: u64 where
  "NEVER_WARNED \<equiv> - 1"

definition eviction_warn_is_due :: "u64 \<Rightarrow> u64 \<Rightarrow> bool" where
  "eviction_warn_is_due last_warn now =
     (last_warn = NEVER_WARNED
      \<or> (if last_warn \<le> now then now - last_warn else 0) \<ge> EVICTION_WARN_INTERVAL_SECS)"

definition engine_new :: "env \<Rightarrow> 'f engine" where
  "engine_new \<epsilon> = \<lparr>store = store_new SHARD_COUNT, maxmemory = None, eviction_count = 0,
                   started_at = env_now \<epsilon>, last_eviction_warn_secs = NEVER_WARNED\<rparr>"

definition engine_with_maxmemory :: "env \<Rightarrow> u64 \<Rightarrow> 'f engine" where
  "engine_with_maxmemory \<epsilon> limit =
     \<lparr>store = store_new SHARD_COUNT, maxmemory = Some limit, eviction_count = 0,
      started_at = env_now \<epsilon>, last_eviction_warn_secs = NEVER_WARNED\<rparr>"

definition on_store :: "('f store \<Rightarrow> 'r \<times> 'f store) \<Rightarrow> 'f engine \<Rightarrow> 'r \<times> 'f engine" where
  "on_store f e = (let (r, st) = f (store e) in (r, e\<lparr>store := st\<rparr>))"

definition evicted_entry_size :: "env \<Rightarrow> bytes \<Rightarrow> 'f::linorder engine \<Rightarrow> nat \<times> 'f engine" where
  "evicted_entry_size \<epsilon> key e =
     on_store (store_with_ref (env_hash \<epsilon>) (env_now \<epsilon>) key
       (\<lambda>v. case v of Some v \<Rightarrow> length key + approx_size v | None \<Rightarrow> 0)) e"

text \<open>\<open>Iterator::min_by_key\<close>: the first of the candidates with the least tick.\<close>

fun min_by_tick :: "(bytes \<times> u64) list \<Rightarrow> (bytes \<times> u64) option" where
  "min_by_tick [] = None"
| "min_by_tick (c # cs) =
     (case min_by_tick cs of None \<Rightarrow> Some c | Some d \<Rightarrow> if snd c \<le> snd d then Some c else Some d)"

abbreviation MAX_EVICTION_ATTEMPTS :: nat where
  "MAX_EVICTION_ATTEMPTS \<equiv> 1000"

abbreviation SAMPLE_PER_SHARD :: nat where
  "SAMPLE_PER_SHARD \<equiv> 5"

text \<open>
  The eviction loop with \<open>n\<close> attempts left: how many it used, the bytes it reports as freed, and
  the engine it leaves.
\<close>

fun evict_loop ::
  "env \<Rightarrow> u64 \<Rightarrow> nat \<Rightarrow> u64 \<Rightarrow> 'f::linorder engine \<Rightarrow> nat \<times> u64 \<times> 'f engine" where
  "evict_loop \<epsilon> ceiling 0 total_freed e = (0, total_freed, e)"
| "evict_loop \<epsilon> ceiling (Suc n) total_freed e =
     (if store_memory_used (store e) > ceiling then
        case min_by_tick (store_sample_for_eviction SAMPLE_PER_SHARD (store e)) of
          None \<Rightarrow> (0, total_freed, e)
        | Some (key, _) \<Rightarrow>
            (let (freed, e1) = evicted_entry_size \<epsilon> key e;
                 (_, e2) = on_store (store_del (env_hash \<epsilon>) (env_now \<epsilon>) key) e1;
                 e3 = e2\<lparr>eviction_count := eviction_count e2 + 1\<rparr>;
                 (attempts, tot, e4) = evict_loop \<epsilon> ceiling n (total_freed + of_nat freed) e3
             in (Suc attempts, tot, e4))
      else (0, total_freed, e))"

definition report_eviction_pressure ::
  "env \<Rightarrow> nat \<Rightarrow> u64 \<Rightarrow> 'f engine \<Rightarrow> (nat \<times> u64 \<times> u64) option \<times> 'f engine" where
  "report_eviction_pressure \<epsilon> evicted freed e =
     (let last_warn = last_eviction_warn_secs e;
          now = of_nat ((env_now \<epsilon> - started_at e) div nanos_per_sec)
      in if \<not> eviction_warn_is_due last_warn now then (None, e)
         else (Some (evicted, freed, eviction_count e), e\<lparr>last_eviction_warn_secs := now\<rparr>))"

definition maybe_evict :: "env \<Rightarrow> 'f::linorder engine \<Rightarrow> 'f engine" where
  "maybe_evict \<epsilon> e =
     (case maxmemory e of
        None \<Rightarrow> e
      | Some ceiling \<Rightarrow>
          (let (attempts, total_freed, e') = evict_loop \<epsilon> ceiling MAX_EVICTION_ATTEMPTS 0 e
           in if attempts > 0 then snd (report_eviction_pressure \<epsilon> attempts total_freed e') else e'))"

definition engine_get :: "env \<Rightarrow> bytes \<Rightarrow> 'f::linorder engine \<Rightarrow> 'f kvalue option \<times> 'f engine" where
  "engine_get \<epsilon> key e = on_store (store_get (env_hash \<epsilon>) (env_now \<epsilon>) key) e"

definition engine_set :: "env \<Rightarrow> bytes \<Rightarrow> 'f::linorder kvalue \<Rightarrow> 'f engine \<Rightarrow> 'f engine" where
  "engine_set \<epsilon> key v e = maybe_evict \<epsilon> (e\<lparr>store := store_set (env_hash \<epsilon>) key v (store e)\<rparr>)"

definition engine_del :: "env \<Rightarrow> bytes \<Rightarrow> 'f::linorder engine \<Rightarrow> bool \<times> 'f engine" where
  "engine_del \<epsilon> key e = on_store (store_del (env_hash \<epsilon>) (env_now \<epsilon>) key) e"

definition engine_exists :: "env \<Rightarrow> bytes \<Rightarrow> 'f engine \<Rightarrow> bool \<times> 'f engine" where
  "engine_exists \<epsilon> key e = on_store (store_exists (env_hash \<epsilon>) (env_now \<epsilon>) key) e"

definition engine_keys :: "env \<Rightarrow> 'f engine \<Rightarrow> bytes list" where
  "engine_keys \<epsilon> e = store_keys (env_now \<epsilon>) (store e)"

definition engine_scan :: "env \<Rightarrow> nat \<Rightarrow> 'f engine \<Rightarrow> nat \<times> bytes list" where
  "engine_scan \<epsilon> cursor e = store_scan (env_now \<epsilon>) cursor (store e)"

definition engine_with_ref ::
  "env \<Rightarrow> bytes \<Rightarrow> ('f kvalue option \<Rightarrow> 'r) \<Rightarrow> 'f engine \<Rightarrow> 'r \<times> 'f engine" where
  "engine_with_ref \<epsilon> key f e = on_store (store_with_ref (env_hash \<epsilon>) (env_now \<epsilon>) key f) e"

definition engine_with_mut ::
  "env \<Rightarrow> bytes \<Rightarrow> ('f::linorder kvalue \<Rightarrow> 'r \<times> 'f kvalue) \<Rightarrow> 'r \<Rightarrow> 'f engine \<Rightarrow> 'r \<times> 'f engine" where
  "engine_with_mut \<epsilon> key f none e =
     (let (r, e') = on_store (store_with_mut (env_hash \<epsilon>) (env_now \<epsilon>) key f none) e
      in (r, maybe_evict \<epsilon> e'))"

definition engine_with_mut_delta ::
  "env \<Rightarrow> bytes \<Rightarrow> ('f::linorder, 'r) mutator \<Rightarrow> 'r \<Rightarrow> 'f engine \<Rightarrow> 'r \<times> 'f engine" where
  "engine_with_mut_delta \<epsilon> key f none e =
     (let (r, e') = on_store (store_with_mut_delta (env_hash \<epsilon>) (env_now \<epsilon>) key f none) e
      in (r, maybe_evict \<epsilon> e'))"

definition engine_expire_at :: "env \<Rightarrow> bytes \<Rightarrow> instant \<Rightarrow> 'f engine \<Rightarrow> bool \<times> 'f engine" where
  "engine_expire_at \<epsilon> key at e = on_store (store_expire_at (env_hash \<epsilon>) (env_now \<epsilon>) key at) e"

definition engine_persist :: "env \<Rightarrow> bytes \<Rightarrow> 'f engine \<Rightarrow> bool \<times> 'f engine" where
  "engine_persist \<epsilon> key e = on_store (store_persist (env_hash \<epsilon>) (env_now \<epsilon>) key) e"

definition engine_ttl :: "env \<Rightarrow> bytes \<Rightarrow> 'f engine \<Rightarrow> ttl_status" where
  "engine_ttl \<epsilon> key e = store_ttl (env_hash \<epsilon>) (env_now \<epsilon>) key (store e)"

definition engine_active_expire_cycle :: "env \<Rightarrow> nat \<Rightarrow> 'f::linorder engine \<Rightarrow> nat \<times> 'f engine" where
  "engine_active_expire_cycle \<epsilon> shard_idx e =
     on_store (store_active_expire_cycle (env_now \<epsilon>) shard_idx) e"

definition engine_advance_recency_clock :: "'f engine \<Rightarrow> 'f engine" where
  "engine_advance_recency_clock e = e\<lparr>store := store_advance_clock (store e)\<rparr>"

definition engine_memory_used :: "'f engine \<Rightarrow> u64" where
  "engine_memory_used e = store_memory_used (store e)"

definition engine_key_counts :: "env \<Rightarrow> 'f engine \<Rightarrow> nat \<times> nat" where
  "engine_key_counts \<epsilon> e = store_key_counts (env_now \<epsilon>) (store e)"

section \<open>Invariant and view\<close>

definition engine_ok :: "(bytes \<Rightarrow> u64) \<Rightarrow> 'f::linorder engine \<Rightarrow> bool" where
  "engine_ok h e \<longleftrightarrow> store_ok h (store e)"

definition engine_view :: "(bytes \<Rightarrow> u64) \<Rightarrow> instant \<Rightarrow> 'f engine \<Rightarrow> 'f keyspace" where
  "engine_view h t e = store_view h t (store e)"

text \<open>What is in the maps, expired or not: the bytes it takes and the number of entries.\<close>

definition store_entries :: "'f store \<Rightarrow> nat" where
  "store_entries st = sum_list (map (\<lambda>s. length (shard_map s)) (shards st))"

lemma on_store_simps [simp]:
  "fst (on_store f e) = fst (f (store e))"
  "store (snd (on_store f e)) = snd (f (store e))"
  "maxmemory (snd (on_store f e)) = maxmemory e"
  "eviction_count (snd (on_store f e)) = eviction_count e"
  "started_at (snd (on_store f e)) = started_at e"
  "last_eviction_warn_secs (snd (on_store f e)) = last_eviction_warn_secs e"
  by (simp_all add: on_store_def Let_def split_def)

lemma engine_ok_upd [simp]:
  "engine_ok h (e\<lparr>eviction_count := c\<rparr>) = engine_ok h e"
  "engine_ok h (e\<lparr>last_eviction_warn_secs := w\<rparr>) = engine_ok h e"
  "engine_view h t (e\<lparr>eviction_count := c\<rparr>) = engine_view h t e"
  "engine_view h t (e\<lparr>last_eviction_warn_secs := w\<rparr>) = engine_view h t e"
  by (simp_all add: engine_ok_def engine_view_def)

section \<open>Eviction\<close>

lemma min_by_tick_in: "min_by_tick cs = Some c \<Longrightarrow> c \<in> set cs"
  by (induction cs arbitrary: c) (auto split: option.splits if_splits)

lemma min_by_tick_None: "min_by_tick cs = None \<longleftrightarrow> cs = []"
  by (cases cs) (auto split: option.splits)

lemma min_by_tick_least: "min_by_tick cs = Some c \<Longrightarrow> d \<in> set cs \<Longrightarrow> snd c \<le> snd d"
  by (induction cs arbitrary: c) (fastforce simp: min_by_tick_None split: option.splits if_splits)+

lemma report_simps [simp]:
  "store (snd (report_eviction_pressure \<epsilon> n b e)) = store e"
  "maxmemory (snd (report_eviction_pressure \<epsilon> n b e)) = maxmemory e"
  "eviction_count (snd (report_eviction_pressure \<epsilon> n b e)) = eviction_count e"
  by (simp_all add: report_eviction_pressure_def Let_def)

text \<open>One eviction: the size is read, which touches the entry, and the entry is removed.\<close>

definition evict_one :: "env \<Rightarrow> bytes \<Rightarrow> 'f::linorder engine \<Rightarrow> 'f engine" where
  "evict_one \<epsilon> key e =
     (let e2 = snd (on_store (store_del (env_hash \<epsilon>) (env_now \<epsilon>) key)
                 (snd (evicted_entry_size \<epsilon> key e)))
      in e2\<lparr>eviction_count := eviction_count e2 + 1\<rparr>)"

lemma evict_loop_Suc:
  "evict_loop \<epsilon> c (Suc n) b e =
     (if store_memory_used (store e) > c then
        case min_by_tick (store_sample_for_eviction SAMPLE_PER_SHARD (store e)) of
          None \<Rightarrow> (0, b, e)
        | Some (key, _) \<Rightarrow>
            (let (a, tot, e') = evict_loop \<epsilon> c n
                   (b + of_nat (fst (evicted_entry_size \<epsilon> key e))) (evict_one \<epsilon> key e)
             in (Suc a, tot, e'))
      else (0, b, e))"
  by (simp add: evict_one_def Let_def split_def split: option.split)

lemmas evict_loop_rec = evict_loop.simps(1) evict_loop_Suc
declare evict_loop.simps(2) [simp del]

lemma engine_ok_evict_one:
  "engine_ok (env_hash \<epsilon>) e \<Longrightarrow> engine_ok (env_hash \<epsilon>) (evict_one \<epsilon> key e)"
  by (simp add: evict_one_def Let_def engine_ok_def evicted_entry_size_def store_ok_ops)

lemma engine_view_evict_one:
  "engine_ok (env_hash \<epsilon>) e \<Longrightarrow>
   engine_view (env_hash \<epsilon>) (env_now \<epsilon>) (evict_one \<epsilon> key e) =
     ks_del key (engine_view (env_hash \<epsilon>) (env_now \<epsilon>) e)"
  by (simp add: evict_one_def Let_def engine_ok_def engine_view_def evicted_entry_size_def
      store_ok_ops store_view_del store_view_with_ref)

lemma evict_one_maxmemory [simp]: "maxmemory (evict_one \<epsilon> key e) = maxmemory e"
  by (simp add: evict_one_def Let_def evicted_entry_size_def)

lemma evict_one_count [simp]: "eviction_count (evict_one \<epsilon> key e) = eviction_count e + 1"
  by (simp add: evict_one_def Let_def evicted_entry_size_def)

lemma ks_del_le: "ks_del k m \<subseteq>\<^sub>m m"
  by (simp add: ks_del_def map_le_def)

lemma evict_loop_ok:
  assumes "engine_ok (env_hash \<epsilon>) e" and "evict_loop \<epsilon> c n b e = (a, b', e')"
  shows "engine_ok (env_hash \<epsilon>) e'
    \<and> engine_view (env_hash \<epsilon>) (env_now \<epsilon>) e' \<subseteq>\<^sub>m engine_view (env_hash \<epsilon>) (env_now \<epsilon>) e
    \<and> maxmemory e' = maxmemory e \<and> eviction_count e' = eviction_count e + of_nat a"
  using assms
proof (induction n arbitrary: b e a)
  case (Suc n)
  show ?case
  proof (cases "store_memory_used (store e) > c
      \<and> min_by_tick (store_sample_for_eviction SAMPLE_PER_SHARD (store e)) \<noteq> None")
    case False
    with Suc.prems show ?thesis by (auto simp: evict_loop_rec split: if_splits option.splits)
  next
    case True
    then obtain key u a1 where a: "a = Suc a1"
      and rec: "evict_loop \<epsilon> c n (b + of_nat (fst (evicted_entry_size \<epsilon> key e)))
          (evict_one \<epsilon> key e) = (a1, b', e')"
      using Suc.prems(2) by (auto simp: evict_loop_rec Let_def split_def prod_eq_iff)
    note IH = Suc.IH [OF engine_ok_evict_one [OF Suc.prems(1)] rec]
    then show ?thesis
      using engine_view_evict_one [OF Suc.prems(1), of key]
      by (auto simp: a algebra_simps intro: map_le_trans [OF _ ks_del_le])
  qed
qed (simp add: evict_loop_rec)

lemma hm_length_update: "map_of m k = Some v \<Longrightarrow> length (AList.update k v' m) = length m"
  using hm_sum_update [of m k v "\<lambda>_ _. 1" v'] by (simp add: hm_length_sum)

lemma hm_length_delete: "hm_ok m \<Longrightarrow> map_of m k = Some v \<Longrightarrow> Suc (length (AList.delete k m)) = length m"
  using hm_sum_delete [of m k v "\<lambda>_ _. 1"] by (simp add: hm_length_sum)

lemma store_entries_on_shard:
  assumes "store_ok h st"
  shows "store_entries (snd (on_shard h k f st)) + length (shard_map (shards st ! shard_index h k st)) =
         store_entries st + length (shard_map (snd (f (shards st ! shard_index h k st))))"
  unfolding store_entries_def on_shard_simps
  by (rule sum_list_update [OF shard_index_less [OF assms]])

lemma store_entries_with_ref:
  assumes "store_ok h st"
  shows "store_entries (snd (store_with_ref h t k f st)) = store_entries st"
proof -
  have "length (shard_map (snd (shard_with_ref t c k f s))) = length (shard_map s)" for c and s :: "'a shard"
    by (simp add: shard_with_ref_def shard_touch_def hm_length_update split: option.split)
  then show ?thesis
    using store_entries_on_shard [OF assms, of k "shard_with_ref t (clock st) k f"]
    by (simp add: store_with_ref_def)
qed

lemma store_entries_del:
  assumes "store_ok h st" and "map_of (shard_map (shards st ! shard_index h k st)) k = Some x"
  shows "Suc (store_entries (snd (store_del h t k st))) = store_entries st"
  using store_entries_on_shard [OF assms(1), of k "shard_del t k"] assms(2)
    hm_length_delete [OF shard_okD(1) [OF store_ok_routed [OF assms(1), of k]] assms(2)]
  by (simp add: store_del_def shard_del_def)

lemma sample_present:
  assumes "store_ok h st" and "(k, u) \<in> set (store_sample_for_eviction n st)"
  shows "map_of (shard_map (shards st ! shard_index h k st)) k \<noteq> None"
proof -
  obtain i e where i: "i < length (shards st)" and e: "(k, e) \<in> set (shard_map (shards st ! i))"
    using assms(2)
    by (fastforce simp: store_sample_for_eviction_def shard_sample_recency_def in_set_conv_nth [of _ "shards st"]
        dest: in_set_takeD)
  then have "k \<in> fst ` set (shard_map (shards st ! i))" by force
  with store_ok_index [OF assms(1) i] show ?thesis by (simp add: map_of_eq_None_iff)
qed

lemma evict_one_entries:
  assumes "engine_ok (env_hash \<epsilon>) e"
    and "(k, u) \<in> set (store_sample_for_eviction n (store e))"
  shows "Suc (store_entries (store (evict_one \<epsilon> k e))) = store_entries (store e)"
proof -
  let ?h = "env_hash \<epsilon>" and ?t = "env_now \<epsilon>"
  let ?f = "\<lambda>v. case v of Some v \<Rightarrow> length k + approx_size v | None \<Rightarrow> 0"
  let ?st = "snd (store_with_ref ?h ?t k ?f (store e))"
  have ok: "store_ok ?h ?st" using assms(1) by (simp add: engine_ok_def store_ok_ops)
  have "map_of (shard_map (shards ?st ! shard_index ?h k ?st)) k \<noteq> None"
  proof -
    have i: "shard_index ?h k (store e) < length (shards (store e))"
      using assms(1) by (simp add: engine_ok_def shard_index_less)
    have ix: "shard_index ?h k ?st = shard_index ?h k (store e)"
      by (rule shard_index_cong) (simp add: store_with_ref_def on_shard_simps)
    show ?thesis
      using sample_present [OF _ assms(2), of ?h] assms(1) i unfolding ix
      by (auto simp: engine_ok_def store_with_ref_def on_shard_simps shard_with_ref_def
          shard_touch_def split: option.splits)
  qed
  with store_entries_del [OF ok] show ?thesis
    using store_entries_with_ref [of ?h "store e" ?t k ?f] assms(1)
    by (auto simp: evict_one_def Let_def evicted_entry_size_def engine_ok_def)
qed

text \<open>No candidate is sampled only from an empty store, whose counters are all zero.\<close>

lemma no_sample_empty:
  assumes "store_ok h st" and "store_sample_for_eviction SAMPLE_PER_SHARD st = []"
  shows "store_memory_used st = 0"
proof -
  have "shard_map s = []" if "s \<in> set (shards st)" for s
    using assms(2) that by (auto simp: store_sample_for_eviction_def shard_sample_recency_def)
  then have "map (\<lambda>s. shard_total (shard_map s)) (shards st) = map (\<lambda>_. 0) (shards st)"
    by (simp add: shard_total_def)
  then show ?thesis
    unfolding store_memory_used_total [OF assms(1)] by (simp only: map_replicate_const sum_list_replicate) simp
qed

lemma evict_loop_bound:
  assumes "engine_ok (env_hash \<epsilon>) e" and "evict_loop \<epsilon> c n b e = (a, b', e')"
  shows "store_entries (store e') + a = store_entries (store e)
    \<and> (store_memory_used (store e') \<le> c \<or> a = n)"
  using assms
proof (induction n arbitrary: b e a)
  case (Suc n)
  let ?cs = "store_sample_for_eviction SAMPLE_PER_SHARD (store e)"
  show ?case
  proof (cases "store_memory_used (store e) > c \<and> min_by_tick ?cs \<noteq> None")
    case False
    then show ?thesis
      using Suc.prems no_sample_empty [of "env_hash \<epsilon>" "store e"]
      by (auto simp: evict_loop_rec min_by_tick_None engine_ok_def not_less
          split: if_splits option.splits)
  next
    case True
    then obtain key u where key: "min_by_tick ?cs = Some (key, u)" by auto
    with True obtain a1 where a: "a = Suc a1"
      and rec: "evict_loop \<epsilon> c n (b + of_nat (fst (evicted_entry_size \<epsilon> key e)))
          (evict_one \<epsilon> key e) = (a1, b', e')"
      using Suc.prems(2) by (auto simp: evict_loop_rec Let_def split_def prod_eq_iff)
    note IH = Suc.IH [OF engine_ok_evict_one [OF Suc.prems(1)] rec]
    then show ?thesis
      using evict_one_entries [OF Suc.prems(1) min_by_tick_in [OF key]] by (auto simp: a)
  qed
qed (simp add: evict_loop_rec)

lemma maybe_evict_cases:
  assumes "engine_ok (env_hash \<epsilon>) e"
  shows "engine_ok (env_hash \<epsilon>) (maybe_evict \<epsilon> e)
    \<and> engine_view (env_hash \<epsilon>) (env_now \<epsilon>) (maybe_evict \<epsilon> e)
        \<subseteq>\<^sub>m engine_view (env_hash \<epsilon>) (env_now \<epsilon>) e
    \<and> maxmemory (maybe_evict \<epsilon> e) = maxmemory e"
proof (cases "maxmemory e")
  case None
  with assms show ?thesis by (simp add: maybe_evict_def)
next
  case (Some c)
  obtain a b e' where loop: "evict_loop \<epsilon> c MAX_EVICTION_ATTEMPTS 0 e = (a, b, e')"
    by (metis prod_cases3)
  from evict_loop_ok [OF assms loop] Some loop show ?thesis
    by (auto simp: maybe_evict_def engine_ok_def engine_view_def)
qed

lemma maybe_evict_unlimited [simp]: "maxmemory e = None \<Longrightarrow> maybe_evict \<epsilon> e = e"
  by (simp add: maybe_evict_def)

section \<open>The operations of the facade\<close>

lemma engine_ok_new: "engine_ok h (engine_new \<epsilon>)"
  by (simp add: engine_ok_def engine_new_def store_ok_new)

lemma engine_ok_with_maxmemory: "engine_ok h (engine_with_maxmemory \<epsilon> limit)"
  by (simp add: engine_ok_def engine_with_maxmemory_def store_ok_new)

lemma engine_new_unlimited: "maxmemory (engine_new \<epsilon>) = None"
  by (simp add: engine_new_def)

lemma engine_view_new: "engine_view h t (engine_new \<epsilon>) = (\<lambda>_. None)"
  by (simp add: engine_view_def engine_new_def store_view_new)

lemmas engine_read_defs = engine_get_def engine_del_def engine_exists_def engine_with_ref_def
  engine_expire_at_def engine_persist_def engine_ttl_def

lemma engine_results:
  "fst (engine_get \<epsilon> k e) = map_option fst (engine_view (env_hash \<epsilon>) (env_now \<epsilon>) e k)"
  "fst (engine_del \<epsilon> k e) = (engine_view (env_hash \<epsilon>) (env_now \<epsilon>) e k \<noteq> None)"
  "fst (engine_exists \<epsilon> k e) = (engine_view (env_hash \<epsilon>) (env_now \<epsilon>) e k \<noteq> None)"
  "fst (engine_with_ref \<epsilon> k f e) = f (map_option fst (engine_view (env_hash \<epsilon>) (env_now \<epsilon>) e k))"
  "fst (engine_expire_at \<epsilon> k at e) = (engine_view (env_hash \<epsilon>) (env_now \<epsilon>) e k \<noteq> None)"
  "fst (engine_persist \<epsilon> k e) =
     (\<exists>v at. engine_view (env_hash \<epsilon>) (env_now \<epsilon>) e k = Some (v, Some at))"
  "engine_ttl \<epsilon> k e = ks_ttl (env_now \<epsilon>) k (engine_view (env_hash \<epsilon>) (env_now \<epsilon>) e)"
  "fst (engine_with_mut_delta \<epsilon> k g none e) =
     (case engine_view (env_hash \<epsilon>) (env_now \<epsilon>) e k of Some (v, _) \<Rightarrow> fst (g v) | None \<Rightarrow> none)"
  by (simp_all add: engine_read_defs engine_view_def engine_with_mut_delta_def Let_def split_def
      store_get_view store_del_view store_exists_view store_with_ref_view store_expire_view
      store_persist_view store_ttl_view store_with_mut_delta_view)

lemma engine_views:
  assumes "engine_ok (env_hash \<epsilon>) e"
  shows "engine_view (env_hash \<epsilon>) (env_now \<epsilon>) (snd (engine_get \<epsilon> k e)) =
           engine_view (env_hash \<epsilon>) (env_now \<epsilon>) e"
    and "engine_view (env_hash \<epsilon>) (env_now \<epsilon>) (snd (engine_exists \<epsilon> k e)) =
           engine_view (env_hash \<epsilon>) (env_now \<epsilon>) e"
    and "engine_view (env_hash \<epsilon>) (env_now \<epsilon>) (snd (engine_with_ref \<epsilon> k f e)) =
           engine_view (env_hash \<epsilon>) (env_now \<epsilon>) e"
    and "engine_view (env_hash \<epsilon>) (env_now \<epsilon>) (snd (engine_del \<epsilon> k e)) =
           ks_del k (engine_view (env_hash \<epsilon>) (env_now \<epsilon>) e)"
    and "engine_view (env_hash \<epsilon>) (env_now \<epsilon>) (snd (engine_expire_at \<epsilon> k at e)) =
           prune (env_now \<epsilon>) (ks_expire_at k at (engine_view (env_hash \<epsilon>) (env_now \<epsilon>) e))"
    and "engine_view (env_hash \<epsilon>) (env_now \<epsilon>) (snd (engine_persist \<epsilon> k e)) =
           ks_persist k (engine_view (env_hash \<epsilon>) (env_now \<epsilon>) e)"
  using assms
  by (simp_all add: engine_ok_def engine_read_defs engine_view_def store_view_get store_view_exists
      store_view_with_ref store_view_del store_view_expire store_view_persist)

lemma engine_ok_reads [wf_intros]:
  assumes "engine_ok (env_hash \<epsilon>) e"
  shows "engine_ok (env_hash \<epsilon>) (snd (engine_get \<epsilon> k e))"
    and "engine_ok (env_hash \<epsilon>) (snd (engine_exists \<epsilon> k e))"
    and "engine_ok (env_hash \<epsilon>) (snd (engine_with_ref \<epsilon> k f e))"
    and "engine_ok (env_hash \<epsilon>) (snd (engine_del \<epsilon> k e))"
    and "engine_ok (env_hash \<epsilon>) (snd (engine_expire_at \<epsilon> k at e))"
    and "engine_ok (env_hash \<epsilon>) (snd (engine_persist \<epsilon> k e))"
    and "engine_ok (env_hash \<epsilon>) (snd (engine_active_expire_cycle \<epsilon> i e))"
  using assms
  by (simp_all add: engine_ok_def engine_read_defs engine_active_expire_cycle_def store_ok_ops
      store_ok_active_expire_cycle)

lemma engine_ok_set_store:
  assumes "engine_ok (env_hash \<epsilon>) e" and "value_ok v"
  shows "engine_ok (env_hash \<epsilon>) (e\<lparr>store := store_set (env_hash \<epsilon>) k v (store e)\<rparr>)"
  using assms by (simp add: engine_ok_def store_ok_ops)

lemma engine_ok_mutate_store:
  assumes "engine_ok (env_hash \<epsilon>) e" and "delta_exact (\<lambda>v. snd (g v))"
  shows "engine_ok (env_hash \<epsilon>)
    (snd (on_store (store_with_mut_delta (env_hash \<epsilon>) (env_now \<epsilon>) k g none) e))"
  using assms by (simp add: engine_ok_def store_ok_ops)

lemma engine_ok_writes [wf_intros]:
  assumes "engine_ok (env_hash \<epsilon>) e"
  shows "value_ok v \<Longrightarrow> engine_ok (env_hash \<epsilon>) (engine_set \<epsilon> k v e)"
    and "delta_exact (\<lambda>v. snd (g v)) \<Longrightarrow>
      engine_ok (env_hash \<epsilon>) (snd (engine_with_mut_delta \<epsilon> k g none e))"
  using maybe_evict_cases [OF engine_ok_set_store [OF assms, of v k]]
    maybe_evict_cases [OF engine_ok_mutate_store [OF assms, of g k none]]
  by (simp_all add: engine_set_def engine_with_mut_delta_def Let_def split_def)

lemma engine_maxmemory_ops [simp]:
  "maxmemory (snd (engine_get \<epsilon> k e)) = maxmemory e"
  "maxmemory (snd (engine_exists \<epsilon> k e)) = maxmemory e"
  "maxmemory (snd (engine_with_ref \<epsilon> k f e)) = maxmemory e"
  "maxmemory (snd (engine_del \<epsilon> k e)) = maxmemory e"
  "maxmemory (snd (engine_expire_at \<epsilon> k at e)) = maxmemory e"
  "maxmemory (snd (engine_persist \<epsilon> k e)) = maxmemory e"
  "maxmemory e = None \<Longrightarrow> maxmemory (engine_set \<epsilon> k v e) = None"
  "maxmemory e = None \<Longrightarrow> maxmemory (snd (engine_with_mut_delta \<epsilon> k g none e)) = None"
  by (simp_all add: engine_read_defs engine_set_def engine_with_mut_delta_def Let_def split_def)

lemma engine_view_writes_le:
  assumes "engine_ok (env_hash \<epsilon>) e"
  shows "value_ok v \<Longrightarrow> engine_view (env_hash \<epsilon>) (env_now \<epsilon>) (engine_set \<epsilon> k v e) \<subseteq>\<^sub>m
           ks_set k v (engine_view (env_hash \<epsilon>) (env_now \<epsilon>) e)"
    and "delta_exact (\<lambda>v. snd (g v)) \<Longrightarrow>
         engine_view (env_hash \<epsilon>) (env_now \<epsilon>) (snd (engine_with_mut_delta \<epsilon> k g none e)) \<subseteq>\<^sub>m
           ks_mutate k (\<lambda>v. snd (snd (g v))) (engine_view (env_hash \<epsilon>) (env_now \<epsilon>) e)"
  using maybe_evict_cases [OF engine_ok_set_store [OF assms, of v k]]
    maybe_evict_cases [OF engine_ok_mutate_store [OF assms, of g k none]] assms
  by (simp_all add: engine_set_def engine_with_mut_delta_def engine_ok_def engine_view_def
      store_view_set store_view_with_mut_delta Let_def split_def)

lemma engine_view_set:
  "engine_ok (env_hash \<epsilon>) e \<Longrightarrow> maxmemory e = None \<Longrightarrow>
   engine_view (env_hash \<epsilon>) t (engine_set \<epsilon> k v e) = ks_set k v (engine_view (env_hash \<epsilon>) t e)"
  by (simp add: engine_set_def engine_ok_def engine_view_def store_view_set)

lemma engine_view_with_mut_delta:
  "engine_ok (env_hash \<epsilon>) e \<Longrightarrow> maxmemory e = None \<Longrightarrow>
   engine_view (env_hash \<epsilon>) (env_now \<epsilon>) (snd (engine_with_mut_delta \<epsilon> k g none e)) =
     ks_mutate k (\<lambda>v. snd (snd (g v))) (engine_view (env_hash \<epsilon>) (env_now \<epsilon>) e)"
  by (simp add: engine_with_mut_delta_def engine_ok_def engine_view_def
      store_view_with_mut_delta Let_def split_def)

lemma engine_view_later: "t \<le> t' \<Longrightarrow> engine_view h t' e = prune t' (engine_view h t e)"
  by (simp add: engine_view_def store_view_later)

lemma engine_view_value_ok:
  "engine_ok h e \<Longrightarrow> engine_view h t e k = Some (v, x) \<Longrightarrow> value_ok v"
  by (simp add: engine_ok_def engine_view_def store_view_value_ok)

lemma engine_active_expire_cycle_view:
  "engine_ok h e \<Longrightarrow>
   engine_view h (env_now \<epsilon>) (snd (engine_active_expire_cycle \<epsilon> i e)) = engine_view h (env_now \<epsilon>) e"
  by (simp add: engine_active_expire_cycle_def engine_view_def engine_ok_def
      store_view_active_expire_cycle)

lemma engine_keys_set:
  "engine_ok (env_hash \<epsilon>) e \<Longrightarrow> set (engine_keys \<epsilon> e) = dom (engine_view (env_hash \<epsilon>) (env_now \<epsilon>) e)"
  by (simp add: engine_keys_def engine_ok_def engine_view_def store_keys_set)

section \<open>The facade as a keyspace\<close>

abbreviation at_time :: "env \<Rightarrow> instant \<Rightarrow> env" where
  "at_time \<epsilon> t \<equiv> \<epsilon>\<lparr>env_now := t\<rparr>"

text \<open>The laws at an arbitrary time are those above, at the environment with that time.\<close>

lemmas engine_laws_at =
  engine_results [of "at_time \<epsilon> t" for \<epsilon> t, simplified]
  engine_views [of "at_time \<epsilon> t" for \<epsilon> t, simplified]
  engine_ok_reads [of "at_time \<epsilon> t" for \<epsilon> t, simplified]
  engine_ok_writes [of "at_time \<epsilon> t" for \<epsilon> t, simplified]
  engine_view_writes_le [of "at_time \<epsilon> t" for \<epsilon> t, simplified]

lemma engine_mutate_le_at:
  assumes "engine_ok (env_hash \<epsilon>) e" and "delta_exact g"
  shows "engine_view (env_hash \<epsilon>) t
      (snd (engine_with_mut_delta (at_time \<epsilon> t) k (\<lambda>v. ((), g v)) () e)) \<subseteq>\<^sub>m
    ks_mutate k (\<lambda>v. snd (g v)) (engine_view (env_hash \<epsilon>) t e)"
  using engine_view_writes_le(2) [of "at_time \<epsilon> t" e "\<lambda>v. ((), g v)" k "()"] assms by simp

interpretation ev: evicting_iface "engine_view (env_hash \<epsilon>)" "engine_ok (env_hash \<epsilon>)"
  "\<lambda>t. engine_get (at_time \<epsilon> t)" "\<lambda>t. engine_set (at_time \<epsilon> t)" "\<lambda>t. engine_del (at_time \<epsilon> t)"
  "\<lambda>t. engine_expire_at (at_time \<epsilon> t)" "\<lambda>t. engine_persist (at_time \<epsilon> t)"
  "\<lambda>t. engine_ttl (at_time \<epsilon> t)"
  "\<lambda>t k g e. snd (engine_with_mut_delta (at_time \<epsilon> t) k (\<lambda>v. ((), g v)) () e)"
  for \<epsilon>
proof unfold_locales
  fix t e k v x
  assume "engine_ok (env_hash \<epsilon>) e" and "engine_view (env_hash \<epsilon>) t e k = Some (v, x)"
  then show "value_ok v" by (rule engine_view_value_ok)
qed (simp_all add: engine_view_later engine_laws_at engine_mutate_le_at comp_def)

interpretation en: keyspace_iface "engine_view (env_hash \<epsilon>)"
  "\<lambda>e. engine_ok (env_hash \<epsilon>) e \<and> maxmemory e = None"
  "\<lambda>t. engine_get (at_time \<epsilon> t)" "\<lambda>t. engine_set (at_time \<epsilon> t)" "\<lambda>t. engine_del (at_time \<epsilon> t)"
  "\<lambda>t. engine_expire_at (at_time \<epsilon> t)" "\<lambda>t. engine_persist (at_time \<epsilon> t)"
  "\<lambda>t. engine_ttl (at_time \<epsilon> t)"
  "\<lambda>t k g e. snd (engine_with_mut_delta (at_time \<epsilon> t) k (\<lambda>v. ((), g v)) () e)"
  for \<epsilon>
proof unfold_locales
  fix t e k v x
  assume "engine_ok (env_hash \<epsilon>) e \<and> maxmemory e = None"
    and "engine_view (env_hash \<epsilon>) t e k = Some (v, x)"
  then show "value_ok v" by (blast intro: engine_view_value_ok)
qed (simp_all add: engine_view_later engine_laws_at comp_def
      engine_view_set [of "at_time \<epsilon> t" for \<epsilon> t, simplified]
      engine_view_with_mut_delta [of "at_time \<epsilon> t" for \<epsilon> t, simplified])

section \<open>Runs of the facade\<close>

fun engine_call :: "env \<Rightarrow> 'f::linorder kop \<Rightarrow> 'f engine \<Rightarrow> 'f kreply \<times> 'f engine" where
  "engine_call \<epsilon> (KGet k) e = (let (r, e') = engine_get \<epsilon> k e in (RVal r, e'))"
| "engine_call \<epsilon> (KSet k v) e = (RUnit, engine_set \<epsilon> k v e)"
| "engine_call \<epsilon> (KDel k) e = (let (r, e') = engine_del \<epsilon> k e in (RBool r, e'))"
| "engine_call \<epsilon> (KExpireAt k at) e = (let (r, e') = engine_expire_at \<epsilon> k at e in (RBool r, e'))"
| "engine_call \<epsilon> (KPersist k) e = (let (r, e') = engine_persist \<epsilon> k e in (RBool r, e'))"
| "engine_call \<epsilon> (KTtl k) e = (RTtl (engine_ttl \<epsilon> k e), e)"
| "engine_call \<epsilon> (KMutate k g) e =
     (RUnit, snd (engine_with_mut_delta \<epsilon> k (\<lambda>v. ((), g v)) () e))"

fun engine_run ::
  "env \<Rightarrow> (instant \<times> 'f::linorder kop) list \<Rightarrow> 'f engine \<Rightarrow> 'f kreply list \<times> 'f engine" where
  "engine_run \<epsilon> [] e = ([], e)"
| "engine_run \<epsilon> ((t, op) # ops) e =
     (let (r, e1) = engine_call (at_time \<epsilon> t) op e;
          (rs, e2) = engine_run \<epsilon> ops e1
      in (r # rs, e2))"

lemma engine_call_iface:
  "engine_call (at_time \<epsilon> t) op e = (ev.kreply \<epsilon> t op e, ev.kapply \<epsilon> t op e)"
  by (cases op) (simp_all add: Let_def split_def)

lemma engine_run_iface: "engine_run \<epsilon> ops e = (ev.ktrace \<epsilon> ops e, ev.krun \<epsilon> ops e)"
  by (induction ops arbitrary: e) (auto simp: engine_call_iface)

text \<open>A client's iteration with \<open>SCAN\<close>: from a cursor until the answer carries the cursor 0.\<close>

fun scan_sweep :: "env \<Rightarrow> nat \<Rightarrow> nat \<Rightarrow> 'f engine \<Rightarrow> bytes list option" where
  "scan_sweep \<epsilon> 0 cursor e = None"
| "scan_sweep \<epsilon> (Suc n) cursor e =
     (let (next, keys) = engine_scan \<epsilon> cursor e
      in if next = 0 then Some keys else map_option ((@) keys) (scan_sweep \<epsilon> n next e))"

lemma scan_sweep_from:
  assumes "c < length (shards (store e))" and "n = length (shards (store e)) - c"
  shows "scan_sweep \<epsilon> n c e =
    Some (concat (map (\<lambda>i. snd (engine_scan \<epsilon> i e)) [c..<length (shards (store e))]))"
  using assms
proof (induction n arbitrary: c)
  case (Suc n)
  let ?len = "length (shards (store e))"
  have upt: "[c..<?len] = c # [Suc c..<?len]" using Suc.prems(1) by (rule upt_conv_Cons)
  show ?case
  proof (cases "Suc c = ?len")
    case True
    then show ?thesis
      using store_scan_next [OF Suc.prems(1), of "env_now \<epsilon>"] upt
      by (simp add: engine_scan_def split_def)
  next
    case False
    then have "scan_sweep \<epsilon> n (Suc c) e =
        Some (concat (map (\<lambda>i. snd (engine_scan \<epsilon> i e)) [Suc c..<?len]))"
      using Suc.prems by (intro Suc.IH) auto
    with False show ?thesis
      using store_scan_next [OF Suc.prems(1), of "env_now \<epsilon>"] upt
      by (simp add: engine_scan_def split_def)
  qed
qed simp

lemma maybe_evict_under:
  "maxmemory e = Some c \<Longrightarrow> store_memory_used (store e) \<le> c \<Longrightarrow> maybe_evict \<epsilon> e = e"
  using evict_loop_Suc [of \<epsilon> c 999 0 e] by (simp add: maybe_evict_def)

lemma no_entries_no_memory:
  assumes "store_ok h st" and "store_entries st = 0"
  shows "store_memory_used st = 0"
proof (rule no_sample_empty [OF assms(1)])
  show "store_sample_for_eviction SAMPLE_PER_SHARD st = []"
    using assms(2)
    by (simp add: store_sample_for_eviction_def shard_sample_recency_def store_entries_def)
qed

lemma engine_run_ok:
  "engine_ok (env_hash \<epsilon>) e \<Longrightarrow> \<forall>(t, op) \<in> set ops. kop_ok op \<Longrightarrow>
   engine_ok (env_hash \<epsilon>) (snd (engine_run \<epsilon> ops e))"
proof (induction ops arbitrary: e)
  case (Cons p ops)
  obtain t op where p: "p = (t, op)" by (cases p)
  with Cons.prems have "engine_ok (env_hash \<epsilon>) (ev.kapply \<epsilon> t op e)"
    by (auto intro: ev.ok_kapply)
  with Cons p show ?case by (simp add: engine_call_iface Let_def split_def)
qed simp

section \<open>Properties\<close>

text \<open>A concrete environment for the instances of the properties.\<close>

definition sample_env :: env where
  "sample_env = \<lparr>env_hash = (\<lambda>k. of_nat (sum_list (map byte k))), env_now = 5,
                 env_unix = 1700000000000000000, env_rand = (\<lambda>_. 0)\<rparr>"

lemma sample_env_simps [simp]:
  "env_now sample_env = 5"
  "env_hash sample_env k = of_nat (sum_list (map byte k))"
  by (simp_all add: sample_env_def)

text \<open>
  C1: Without a memory ceiling (the shipped configuration) the sharded engine is observationally
  the abstract keyspace. For every sequence of facade calls at non-decreasing times, in which the
  values written are well formed and the mutations report their byte deltas exactly, every reply
  and the final live contents are those of one map from keys to values with deadlines.
\<close>

theorem engine_refines_keyspace:
  assumes "engine_ok (env_hash \<epsilon>) e" and "maxmemory e = None"
    and "\<forall>(t, op) \<in> set ops. kop_ok op" and "sorted (t0 # map fst ops)"
  shows "fst (engine_run \<epsilon> ops e) = ks_trace ops (engine_view (env_hash \<epsilon>) t0 e)
    \<and> engine_view (env_hash \<epsilon>) (last (t0 # map fst ops)) (snd (engine_run \<epsilon> ops e)) =
        ks_run ops (engine_view (env_hash \<epsilon>) t0 e)"
  using en.krun_refines [OF conjI [OF assms(1,2)] assms(3,4)] by (simp add: engine_run_iface)

theorem engine_refines_keyspace_witness:
  "fst (engine_run sample_env
          [(6, KSet ''a'' (VString ''x'')), (7, KExpireAt ''a'' 9), (8, KGet ''a''), (9, KGet ''a'')]
          (engine_new sample_env :: nat engine)) =
   [RUnit, RBool True, RVal (Some (VString ''x'')), RVal None]"
  using engine_refines_keyspace [of sample_env "engine_new sample_env :: nat engine"
      "[(6, KSet ''a'' (VString ''x'')), (7, KExpireAt ''a'' 9), (8, KGet ''a''), (9, KGet ''a'')]" 0]
  by (simp del: engine_run.simps
      add: engine_ok_new engine_view_new engine_new_unlimited ks_defs prune_def value_ok_def)

text \<open>
  C2: With a memory ceiling eviction only ever forgets: after every sequence of facade calls each
  live entry is the entry the abstract keyspace holds for that key, with the same deadline. No
  call resurrects, corrupts or re-times a key because of eviction.
\<close>

theorem engine_eviction_only_forgets:
  assumes "engine_ok (env_hash \<epsilon>) e"
    and "\<forall>(t, op) \<in> set ops. kop_ok op" and "sorted (t0 # map fst ops)"
    and "engine_view (env_hash \<epsilon>) (last (t0 # map fst ops)) (snd (engine_run \<epsilon> ops e)) k = Some p"
  shows "ks_run ops (engine_view (env_hash \<epsilon>) t0 e) k = Some p"
  using ev.krun_approximates [OF assms(1-3)] assms(4)
  by (auto simp: engine_run_iface intro: map_le_Some)

theorem engine_eviction_only_forgets_witness:
  "ks_run [(6, KSet ''a'' (VString ''x'' :: nat kvalue))] (\<lambda>_. None) ''a'' =
   Some (VString ''x'', None)"
proof -
  let ?e = "engine_with_maxmemory sample_env (- 1) :: nat engine"
  have ok: "engine_ok (env_hash sample_env) ?e" by (rule engine_ok_with_maxmemory)
  have view: "engine_view (env_hash sample_env) t ?e = (\<lambda>_. None)" for t
    by (simp add: engine_view_def engine_with_maxmemory_def store_view_new)
  have "maybe_evict \<epsilon> e = e" if "maxmemory e = Some (- 1)" for \<epsilon> and e :: "nat engine"
    using that by (rule maybe_evict_under) (rule word_order.extremum)
  then have "engine_view (env_hash sample_env) 6
      (engine_set (at_time sample_env 6) ''a'' (VString ''x'') ?e) ''a'' = Some (VString ''x'', None)"
    using ok
    by (simp add: engine_set_def engine_view_def engine_with_maxmemory_def engine_ok_def
        store_view_set ks_set_def)
  then show ?thesis
    using engine_eviction_only_forgets [of sample_env ?e "[(6, KSet ''a'' (VString ''x''))]" 0 "''a''"]
    by (simp add: engine_ok_with_maxmemory view value_ok_def del: ks_run.simps)
qed

text \<open>
  C3: The eviction loop does its work within its 1000 attempts. After \<open>maybe_evict\<close> the accounted
  memory is at or under the ceiling, unless exactly 1000 entries were evicted; and when at most
  1000 entries were stored it is always at or under the ceiling.
\<close>

theorem maybe_evict_restores_ceiling:
  assumes "engine_ok (env_hash \<epsilon>) e" and "maxmemory e = Some ceiling"
  shows "(engine_memory_used (maybe_evict \<epsilon> e) \<le> ceiling
        \<or> store_entries (store (maybe_evict \<epsilon> e)) + MAX_EVICTION_ATTEMPTS = store_entries (store e))
    \<and> (store_entries (store e) \<le> MAX_EVICTION_ATTEMPTS \<longrightarrow>
         engine_memory_used (maybe_evict \<epsilon> e) \<le> ceiling)"
proof -
  obtain a b e' where loop: "evict_loop \<epsilon> ceiling MAX_EVICTION_ATTEMPTS 0 e = (a, b, e')"
    by (metis prod_cases3)
  have st: "store (maybe_evict \<epsilon> e) = store e'"
    using loop assms(2) by (simp add: maybe_evict_def)
  have ok: "store_ok (env_hash \<epsilon>) (store e')"
    using evict_loop_ok [OF assms(1) loop] by (simp add: engine_ok_def)
  show ?thesis
    using evict_loop_bound [OF assms(1) loop] no_entries_no_memory [OF ok]
    by (auto simp: engine_memory_used_def st)
qed

theorem maybe_evict_restores_ceiling_witness:
  "engine_memory_used (maybe_evict sample_env (engine_with_maxmemory sample_env 60 :: nat engine)) \<le> 60"
  using maybe_evict_restores_ceiling [of sample_env "engine_with_maxmemory sample_env 60 :: nat engine" 60]
  by (simp add: engine_ok_with_maxmemory)
     (simp add: engine_with_maxmemory_def store_entries_def store_new_def shard_new_def
       sum_list_replicate)



text \<open>
  C5: A full \<open>SCAN\<close> iteration over an unchanging engine ends after one call per shard and returns
  every live key exactly once; \<open>KEYS\<close> and the live-key count of \<open>key_counts\<close> agree with it.
\<close>

theorem scan_sweep_complete:
  assumes "engine_ok (env_hash \<epsilon>) e"
  shows "\<exists>keys. scan_sweep \<epsilon> (length (shards (store e))) 0 e = Some keys
    \<and> distinct keys \<and> set keys = dom (engine_view (env_hash \<epsilon>) (env_now \<epsilon>) e)
    \<and> engine_keys \<epsilon> e = keys \<and> fst (engine_key_counts \<epsilon> e) = length keys"
proof -
  have "0 < length (shards (store e))" using assms by (simp add: engine_ok_def store_ok_def)
  from scan_sweep_from [OF this] have
    "scan_sweep \<epsilon> (length (shards (store e))) 0 e = Some (store_keys (env_now \<epsilon>) (store e))"
    by (simp add: engine_scan_def store_scan_sweep)
  with assms show ?thesis
    by (simp add: engine_ok_def engine_view_def engine_keys_def engine_key_counts_def
        store_keys_set store_keys_distinct store_key_counts_total)
qed

theorem scan_sweep_complete_witness:
  "\<exists>keys. scan_sweep sample_env 16 0 (engine_set sample_env ''a'' (VString ''x'') (engine_new sample_env) :: nat engine) = Some keys
    \<and> set keys = {''a''}"
proof -
  let ?e = "engine_set sample_env ''a'' (VString ''x'') (engine_new sample_env) :: nat engine"
  have ok: "engine_ok (env_hash sample_env) ?e"
    by (simp add: engine_ok_writes engine_ok_new value_ok_def)
  have "length (shards (store ?e)) = 16"
    by (simp add: engine_set_def engine_new_def store_set_def on_shard_simps store_new_def)
  moreover have "dom (engine_view (env_hash sample_env) 5 ?e) = {''a''}"
    by (simp add: engine_view_set engine_ok_new engine_new_unlimited engine_view_new ks_set_def)
  ultimately show ?thesis using scan_sweep_complete [OF ok] by auto
qed

end
