(* ===== verification/Rm_Text.thy ===== *)
theory Rm_Text
  imports Rm_Prelude
begin

text \<open>
  The parts of the standard library's text handling that the server relies on: UTF-8 validation
  (\<open>std::str::from_utf8\<close>), ASCII case folding, decimal printing (\<open>to_string\<close>) and decimal
  parsing (\<open>str::parse\<close>) of 64-bit integers, with the round trip between the last two.
\<close>

section \<open>64-bit integers\<close>

text \<open>An \<open>i64\<close> is an \<open>int\<close> within its bounds; \<open>checked_add_i64\<close> is \<open>i64::checked_add\<close>.\<close>

definition in_i64 :: "int \<Rightarrow> bool" where
  "in_i64 i \<longleftrightarrow> - (2 ^ 63) \<le> i \<and> i < 2 ^ 63"

definition checked_add_i64 :: "int \<Rightarrow> int \<Rightarrow> int option" where
  "checked_add_i64 a b = (if in_i64 (a + b) then Some (a + b) else None)"

definition saturating_mul_i64 :: "int \<Rightarrow> int \<Rightarrow> int" where
  "saturating_mul_i64 a b = max (- (2 ^ 63)) (min (2 ^ 63 - 1) (a * b))"

lemma checked_add_i64_Some: "checked_add_i64 a b = Some c \<longleftrightarrow> c = a + b \<and> in_i64 c"
  by (auto simp: checked_add_i64_def)

lemma saturating_mul_i64_range: "in_i64 (saturating_mul_i64 a b)"
  by (auto simp: saturating_mul_i64_def in_i64_def)

section \<open>UTF-8\<close>

definition utf8_cont :: "char \<Rightarrow> bool" where
  "utf8_cont c \<longleftrightarrow> 128 \<le> byte c \<and> byte c \<le> 191"

text \<open>The table of well-formed sequences of the Unicode standard, as \<open>from_utf8\<close> checks it.\<close>

fun utf8_valid :: "bytes \<Rightarrow> bool" where
  "utf8_valid [] = True"
| "utf8_valid (a # r) =
     (if byte a < 128 then utf8_valid r
      else if 194 \<le> byte a \<and> byte a \<le> 223 then
        (case r of b # r' \<Rightarrow> utf8_cont b \<and> utf8_valid r' | _ \<Rightarrow> False)
      else if 224 \<le> byte a \<and> byte a \<le> 239 then
        (case r of b # c # r' \<Rightarrow>
            utf8_cont b \<and> (byte a = 224 \<longrightarrow> 160 \<le> byte b) \<and> (byte a = 237 \<longrightarrow> byte b \<le> 159)
            \<and> utf8_cont c \<and> utf8_valid r'
         | _ \<Rightarrow> False)
      else if 240 \<le> byte a \<and> byte a \<le> 244 then
        (case r of b # c # d # r' \<Rightarrow>
            utf8_cont b \<and> (byte a = 240 \<longrightarrow> 144 \<le> byte b) \<and> (byte a = 244 \<longrightarrow> byte b \<le> 143)
            \<and> utf8_cont c \<and> utf8_cont d \<and> utf8_valid r'
         | _ \<Rightarrow> False)
      else False)"

definition is_ascii :: "bytes \<Rightarrow> bool" where
  "is_ascii s \<longleftrightarrow> list_all (\<lambda>c. byte c < 128) s"

lemma utf8_valid_ascii: "is_ascii s \<Longrightarrow> utf8_valid s"
  by (induction s) (auto simp: is_ascii_def)

text \<open>
  \<open>String::from_utf8_lossy\<close>: every maximal prefix of a well-formed sequence that is not completed,
  and every byte that cannot start one, becomes the replacement character U+FFFD.
\<close>

definition REPLACEMENT :: bytes where
  "REPLACEMENT = [CHR 0xEF, CHR 0xBF, CHR 0xBD]"

definition utf8_second3 :: "char \<Rightarrow> char \<Rightarrow> bool" where
  "utf8_second3 a b \<longleftrightarrow>
     utf8_cont b \<and> (byte a = 224 \<longrightarrow> 160 \<le> byte b) \<and> (byte a = 237 \<longrightarrow> byte b \<le> 159)"

definition utf8_second4 :: "char \<Rightarrow> char \<Rightarrow> bool" where
  "utf8_second4 a b \<longleftrightarrow>
     utf8_cont b \<and> (byte a = 240 \<longrightarrow> 144 \<le> byte b) \<and> (byte a = 244 \<longrightarrow> byte b \<le> 143)"

fun utf8_lossy :: "bytes \<Rightarrow> bytes" where
  "utf8_lossy [] = []"
| "utf8_lossy (a # r) =
     (if byte a < 128 then a # utf8_lossy r
      else if 194 \<le> byte a \<and> byte a \<le> 223 then
        (case r of
           b # r1 \<Rightarrow> if utf8_cont b then a # b # utf8_lossy r1 else REPLACEMENT @ utf8_lossy (b # r1)
         | [] \<Rightarrow> REPLACEMENT)
      else if 224 \<le> byte a \<and> byte a \<le> 239 then
        (case r of
           b # r1 \<Rightarrow>
             if utf8_second3 a b then
               (case r1 of
                  c # r2 \<Rightarrow> if utf8_cont c then a # b # c # utf8_lossy r2
                            else REPLACEMENT @ utf8_lossy (c # r2)
                | [] \<Rightarrow> REPLACEMENT)
             else REPLACEMENT @ utf8_lossy (b # r1)
         | [] \<Rightarrow> REPLACEMENT)
      else if 240 \<le> byte a \<and> byte a \<le> 244 then
        (case r of
           b # r1 \<Rightarrow>
             if utf8_second4 a b then
               (case r1 of
                  c # r2 \<Rightarrow>
                    if utf8_cont c then
                      (case r2 of
                         d # r3 \<Rightarrow> if utf8_cont d then a # b # c # d # utf8_lossy r3
                                   else REPLACEMENT @ utf8_lossy (d # r3)
                       | [] \<Rightarrow> REPLACEMENT)
                    else REPLACEMENT @ utf8_lossy (c # r2)
                | [] \<Rightarrow> REPLACEMENT)
             else REPLACEMENT @ utf8_lossy (b # r1)
         | [] \<Rightarrow> REPLACEMENT)
      else REPLACEMENT @ utf8_lossy r)"

lemma utf8_lossy_valid: "utf8_valid s \<Longrightarrow> utf8_lossy s = s"
proof (induction s rule: length_induct)
  case (1 s)
  then have IH: "\<And>t. length t < length s \<Longrightarrow> utf8_valid t \<Longrightarrow> utf8_lossy t = t" by blast
  show ?case
  proof (cases s)
    case (Cons a r)
    note IH' = IH [unfolded Cons list.size]
    consider "byte a < 128" | "194 \<le> byte a" "byte a \<le> 223" | "224 \<le> byte a" "byte a \<le> 239"
      | "240 \<le> byte a" "byte a \<le> 244"
      using "1.prems" Cons by (simp split: if_splits)
    then show ?thesis
    proof cases
      case 1
      with "1.prems" IH' [of r] show ?thesis unfolding Cons by simp
    next
      case 2
      with "1.prems" obtain b r1 where "r = b # r1" "utf8_cont b" "utf8_valid r1"
        unfolding Cons by (simp split: list.splits)
      with 2 IH' [of r1] show ?thesis unfolding Cons by simp
    next
      case 3
      with "1.prems" obtain b c r2 where "r = b # c # r2" "utf8_second3 a b" "utf8_cont c"
          "utf8_valid r2"
        unfolding Cons by (simp add: utf8_second3_def split: list.splits)
      with 3 IH' [of r2] show ?thesis unfolding Cons by simp
    next
      case 4
      with "1.prems" obtain b c d r3 where "r = b # c # d # r3" "utf8_second4 a b" "utf8_cont c"
          "utf8_cont d" "utf8_valid r3"
        unfolding Cons by (simp add: utf8_second4_def split: list.splits)
      with 4 IH' [of r3] show ?thesis unfolding Cons by simp
    qed
  qed simp
qed

lemma utf8_lossy_ascii: "is_ascii s \<Longrightarrow> utf8_lossy s = s"
  by (simp add: utf8_lossy_valid utf8_valid_ascii)

section \<open>ASCII case\<close>

definition to_ascii_upper :: "char \<Rightarrow> char" where
  "to_ascii_upper c = (if 97 \<le> byte c \<and> byte c \<le> 122 then char_of (byte c - 32) else c)"

definition to_ascii_lower :: "char \<Rightarrow> char" where
  "to_ascii_lower c = (if 65 \<le> byte c \<and> byte c \<le> 90 then char_of (byte c + 32) else c)"

definition ascii_uppercase :: "bytes \<Rightarrow> bytes" where
  "ascii_uppercase s = map to_ascii_upper s"

definition ascii_lowercase :: "bytes \<Rightarrow> bytes" where
  "ascii_lowercase s = map to_ascii_lower s"

definition eq_ignore_ascii_case :: "bytes \<Rightarrow> bytes \<Rightarrow> bool" where
  "eq_ignore_ascii_case s t \<longleftrightarrow> ascii_lowercase s = ascii_lowercase t"

lemma to_ascii_upper_idem: "to_ascii_upper (to_ascii_upper c) = to_ascii_upper c"
  by (auto simp: to_ascii_upper_def)

lemma ascii_uppercase_idem: "ascii_uppercase (ascii_uppercase s) = ascii_uppercase s"
  by (simp add: ascii_uppercase_def to_ascii_upper_idem)

lemma length_ascii_uppercase [simp]: "length (ascii_uppercase s) = length s"
  by (simp add: ascii_uppercase_def)

section \<open>Decimal printing and parsing\<close>

definition digit_char :: "nat \<Rightarrow> char" where
  "digit_char d = char_of (48 + d)"

definition digit_val :: "char \<Rightarrow> nat option" where
  "digit_val c = (if 48 \<le> byte c \<and> byte c \<le> 57 then Some (byte c - 48) else None)"

fun show_nat :: "nat \<Rightarrow> bytes" where
  "show_nat n = (if n < 10 then [digit_char n] else show_nat (n div 10) @ [digit_char (n mod 10)])"

declare show_nat.simps [simp del]

definition show_int :: "int \<Rightarrow> bytes" where
  "show_int i = (if i < 0 then ''-'' @ show_nat (nat (- i)) else show_nat (nat i))"

text \<open>The digits of a number, most significant first; any other byte makes the parse fail.\<close>

fun parse_digits :: "nat \<Rightarrow> bytes \<Rightarrow> nat option" where
  "parse_digits acc [] = Some acc"
| "parse_digits acc (c # s) =
     (case digit_val c of None \<Rightarrow> None | Some d \<Rightarrow> parse_digits (10 * acc + d) s)"

definition parse_nat :: "bytes \<Rightarrow> nat option" where
  "parse_nat s = (if s = [] then None else parse_digits 0 s)"

text \<open>
  \<open>str::parse::<i64>\<close> and \<open>str::parse::<u64>\<close>: an optional sign (only \<open>+\<close> for the unsigned
  type), at least one digit, and a value within the type's bounds.
\<close>

definition parse_i64 :: "bytes \<Rightarrow> int option" where
  "parse_i64 s =
     (let (neg, ds) = (case s of c # r \<Rightarrow> if c = CHR ''-'' then (True, r)
                                  else if c = CHR ''+'' then (False, r) else (False, s)
                       | [] \<Rightarrow> (False, s))
      in case parse_nat ds of None \<Rightarrow> None
         | Some n \<Rightarrow> (let i = (if neg then - int n else int n)
                      in if in_i64 i then Some i else None))"

definition parse_u64 :: "bytes \<Rightarrow> nat option" where
  "parse_u64 s =
     (let ds = (case s of c # r \<Rightarrow> if c = CHR ''+'' then r else s | [] \<Rightarrow> s)
      in case parse_nat ds of None \<Rightarrow> None | Some n \<Rightarrow> if n < 2 ^ 64 then Some n else None)"

text \<open>\<open>std::str::from_utf8(b).ok().and_then(|s| s.parse().ok())\<close>, the shape of every argument.\<close>

definition parse_i64_arg :: "bytes \<Rightarrow> int option" where
  "parse_i64_arg b = (if utf8_valid b then parse_i64 b else None)"

definition parse_u64_arg :: "bytes \<Rightarrow> nat option" where
  "parse_u64_arg b = (if utf8_valid b then parse_u64 b else None)"

lemma byte_digit_char [simp]: "d < 10 \<Longrightarrow> byte (digit_char d) = 48 + d"
  by (simp add: digit_char_def)

lemma digit_val_digit_char [simp]: "d < 10 \<Longrightarrow> digit_val (digit_char d) = Some d"
  by (simp add: digit_val_def)

lemma digit_val_less: "digit_val c = Some d \<Longrightarrow> d < 10"
  by (auto simp: digit_val_def split: if_splits)

lemma parse_digits_append:
  "parse_digits acc (s @ t) =
     (case parse_digits acc s of None \<Rightarrow> None | Some n \<Rightarrow> parse_digits n t)"
  by (induction s arbitrary: acc) (auto split: option.splits)

lemma show_nat_nonempty [simp]: "show_nat n \<noteq> []"
  by (subst show_nat.simps) simp

lemma parse_digits_show_nat: "parse_digits 0 (show_nat n) = Some n"
proof (induction n rule: show_nat.induct)
  case (1 n)
  show ?case
  proof (cases "n < 10")
    case True
    then show ?thesis by (subst show_nat.simps) simp
  next
    case False
    with 1 have "parse_digits 0 (show_nat (n div 10)) = Some (n div 10)" by simp
    with False show ?thesis by (subst show_nat.simps) (simp add: parse_digits_append)
  qed
qed

lemma show_nat_digits: "c \<in> set (show_nat n) \<Longrightarrow> 48 \<le> byte c \<and> byte c \<le> 57"
proof (induction n rule: show_nat.induct)
  case (1 n)
  show ?case
  proof (cases "n < 10")
    case True
    with 1 show ?thesis by (subst (asm) (2) show_nat.simps) auto
  next
    case False
    with 1 show ?thesis by (subst (asm) (2) show_nat.simps) auto
  qed
qed

lemma parse_nat_show_nat [simp]: "parse_nat (show_nat n) = Some n"
  by (simp add: parse_nat_def parse_digits_show_nat)

lemma show_nat_hd: "\<exists>c r. show_nat n = c # r \<and> 48 \<le> byte c \<and> byte c \<le> 57"
  by (metis list.exhaust list.set_intros(1) show_nat_digits show_nat_nonempty)

lemma parse_i64_show_int: "in_i64 i \<Longrightarrow> parse_i64 (show_int i) = Some i"
proof (cases "i < 0")
  case True
  assume "in_i64 i"
  with True show ?thesis by (simp add: parse_i64_def show_int_def)
next
  case False
  assume i: "in_i64 i"
  obtain c r where cr: "show_nat (nat i) = c # r" "48 \<le> byte c" "byte c \<le> 57"
    using show_nat_hd by blast
  then have "c \<noteq> CHR ''-''" "c \<noteq> CHR ''+''" by auto
  then have "parse_i64 (show_int i) =
      (case parse_nat (show_nat (nat i)) of None \<Rightarrow> None
       | Some n \<Rightarrow> if in_i64 (int n) then Some (int n) else None)"
    using False by (auto simp: parse_i64_def show_int_def cr(1) Let_def split: option.split)
  also have "\<dots> = Some i" using i False by simp
  finally show ?thesis .
qed

lemma is_ascii_show_int: "is_ascii (show_int i)"
  using show_nat_digits by (fastforce simp: is_ascii_def show_int_def list_all_iff)

lemma parse_i64_arg_show_int [simp]: "in_i64 i \<Longrightarrow> parse_i64_arg (show_int i) = Some i"
  by (simp add: parse_i64_arg_def parse_i64_show_int utf8_valid_ascii is_ascii_show_int)

lemma parse_i64_range: "parse_i64 s = Some i \<Longrightarrow> in_i64 i"
  by (auto simp: parse_i64_def Let_def split: option.splits if_splits prod.splits)

lemma parse_i64_arg_range: "parse_i64_arg s = Some i \<Longrightarrow> in_i64 i"
  by (auto simp: parse_i64_arg_def dest: parse_i64_range split: if_splits)

end
