(* ===== verification/Rm_Command.thy ===== *)
theory Rm_Command
  imports Rm_Engine Rm_Text
begin

text \<open>
  What the data-type commands (\<open>crates/engine/src/commands/\<close>) share. A command is a function from
  the environment, its arguments and the engine to its result and the engine it leaves. \<open>upsert\<close>
  is the shape of the commands that change a value in place with \<open>with_mut_delta\<close>, keeping its
  deadline, and create the key with \<open>Engine::set\<close> when it is missing and there is something to
  store. The lemmas give the effect
  of such a command on the live view from two facts about its closure: that the byte delta it
  reports is exact, and what it does to the value. The locale \<open>collection\<close> lifts this to the
  mathematical object a key stores, once for every kind of collection.
\<close>

section \<open>The view a command runs on\<close>

abbreviation live :: "env \<Rightarrow> 'f engine \<Rightarrow> 'f keyspace" where
  "live \<epsilon> e \<equiv> engine_view (env_hash \<epsilon>) (env_now \<epsilon>) e"

text \<open>The engine without a memory ceiling, as the shipped binary builds it.\<close>

definition unlimited :: "env \<Rightarrow> 'f::linorder engine \<Rightarrow> bool" where
  "unlimited \<epsilon> e \<longleftrightarrow> engine_ok (env_hash \<epsilon>) e \<and> maxmemory e = None"

lemma unlimited_new: "unlimited \<epsilon> (engine_new \<epsilon>')"
  by (simp add: unlimited_def engine_ok_new engine_new_unlimited)

lemma live_pruned: "prune (env_now \<epsilon>) (live \<epsilon> e) = live \<epsilon> e"
  using engine_view_later [of "env_now \<epsilon>" "env_now \<epsilon>" "env_hash \<epsilon>" e] by simp

lemma live_not_expired: "live \<epsilon> e k = Some (v, Some at) \<Longrightarrow> env_now \<epsilon> < at"
  using fun_cong [OF live_pruned [of \<epsilon> e], of k] by (auto simp: prune_def split: if_splits)

lemma unlimited_ops [simp]:
  assumes "unlimited \<epsilon> e"
  shows "unlimited \<epsilon> (snd (engine_get \<epsilon> k e))"
    and "unlimited \<epsilon> (snd (engine_exists \<epsilon> k e))"
    and "unlimited \<epsilon> (snd (engine_with_ref \<epsilon> k f e))"
    and "unlimited \<epsilon> (snd (engine_del \<epsilon> k e))"
    and "unlimited \<epsilon> (snd (engine_expire_at \<epsilon> k at e))"
    and "unlimited \<epsilon> (snd (engine_persist \<epsilon> k e))"
    and "value_ok v \<Longrightarrow> unlimited \<epsilon> (engine_set \<epsilon> k v e)"
    and "delta_exact (\<lambda>v. snd (g v)) \<Longrightarrow> unlimited \<epsilon> (snd (engine_with_mut_delta \<epsilon> k g none e))"
  using assms by (simp_all add: unlimited_def engine_ok_reads engine_ok_writes)

lemma live_ops [simp]:
  assumes "unlimited \<epsilon> e"
  shows "live \<epsilon> (snd (engine_get \<epsilon> k e)) = live \<epsilon> e"
    and "live \<epsilon> (snd (engine_exists \<epsilon> k e)) = live \<epsilon> e"
    and "live \<epsilon> (snd (engine_with_ref \<epsilon> k f e)) = live \<epsilon> e"
    and "live \<epsilon> (snd (engine_del \<epsilon> k e)) = ks_del k (live \<epsilon> e)"
    and "live \<epsilon> (snd (engine_expire_at \<epsilon> k at e)) = prune (env_now \<epsilon>) (ks_expire_at k at (live \<epsilon> e))"
    and "live \<epsilon> (snd (engine_persist \<epsilon> k e)) = ks_persist k (live \<epsilon> e)"
    and "live \<epsilon> (engine_set \<epsilon> k v e) = ks_set k v (live \<epsilon> e)"
    and "live \<epsilon> (snd (engine_with_mut_delta \<epsilon> k g none e)) =
           ks_mutate k (\<lambda>v. snd (snd (g v))) (live \<epsilon> e)"
  using assms by (simp_all add: unlimited_def engine_views engine_view_set engine_view_with_mut_delta)

lemma live_value_ok: "unlimited \<epsilon> e \<Longrightarrow> live \<epsilon> e k = Some (v, x) \<Longrightarrow> value_ok v"
  unfolding unlimited_def by (blast intro: engine_view_value_ok)

lemma first_set:
  assumes "value_ok v"
  shows "unlimited \<epsilon> (engine_set \<epsilon> k v (engine_new \<epsilon>'))"
    and "live \<epsilon> (engine_set \<epsilon> k v (engine_new \<epsilon>')) = [k \<mapsto> (v, None)]"
  using assms by (simp_all add: unlimited_new engine_view_new ks_set_def)

section \<open>Mutate in place or create\<close>

definition upsert ::
  "env \<Rightarrow> bytes \<Rightarrow> ('f::linorder, engine_error + 'r option) mutator \<Rightarrow> 'r \<Rightarrow> 'f kvalue option
   \<Rightarrow> 'f engine \<Rightarrow> (engine_error + 'r) \<times> 'f engine" where
  "upsert \<epsilon> key f created fresh e =
     (let (existed, e1) = engine_with_mut_delta \<epsilon> key f (Inr None) e
      in case existed of
           Inl err \<Rightarrow> (Inl err, e1)
         | Inr (Some r) \<Rightarrow> (Inr r, e1)
         | Inr None \<Rightarrow>
             (Inr created, case fresh of Some v \<Rightarrow> engine_set \<epsilon> key v e1 | None \<Rightarrow> e1))"

text \<open>The closure of an upsert answers for a value it finds: an error, or a result.\<close>

definition answers :: "('f kvalue \<Rightarrow> (engine_error + 'r option) \<times> int \<times> 'f kvalue) \<Rightarrow> bool" where
  "answers f \<longleftrightarrow> (\<forall>v. fst (f v) \<noteq> Inr None)"

lemma engine_ok_upsert [wf_intros]:
  assumes "engine_ok (env_hash \<epsilon>) e" and "delta_exact (\<lambda>v. snd (f v))"
    and "pred_option value_ok fresh"
  shows "engine_ok (env_hash \<epsilon>) (snd (upsert \<epsilon> key f created fresh e))"
  using engine_ok_writes(2) [OF assms(1,2), of key "Inr None"] assms(3)
  by (auto simp: upsert_def Let_def split_def engine_ok_writes(1) split: sum.split option.split)

lemma unlimited_upsert [simp]:
  assumes "unlimited \<epsilon> e" and "delta_exact (\<lambda>v. snd (f v))" and "pred_option value_ok fresh"
  shows "unlimited \<epsilon> (snd (upsert \<epsilon> key f created fresh e))"
  using assms by (auto simp: upsert_def Let_def split_def split: sum.split option.split)

lemma upsert_missing:
  assumes "unlimited \<epsilon> e" and "delta_exact (\<lambda>v. snd (f v))" and "live \<epsilon> e key = None"
  shows "fst (upsert \<epsilon> key f created fresh e) = Inr created"
    and "live \<epsilon> (snd (upsert \<epsilon> key f created fresh e)) =
           (case fresh of Some v \<Rightarrow> ks_set key v (live \<epsilon> e) | None \<Rightarrow> live \<epsilon> e)"
  using assms
  by (simp_all add: upsert_def Let_def split_def engine_results ks_mutate_def split: option.split)

lemma upsert_present:
  assumes "unlimited \<epsilon> e" and "delta_exact (\<lambda>v. snd (f v))" and "answers f"
    and "live \<epsilon> e key = Some (v', x)"
  shows "fst (upsert \<epsilon> key f created fresh e) = map_sum id the (fst (f v'))"
    and "live \<epsilon> (snd (upsert \<epsilon> key f created fresh e)) =
           ks_mutate key (\<lambda>v. snd (snd (f v))) (live \<epsilon> e)"
  using assms
  by (auto simp: upsert_def Let_def split_def engine_results answers_def
      split: sum.split option.split)

text \<open>A mutation that leaves the value alone leaves the view alone.\<close>

lemma ks_mutate_same:
  assumes "unlimited \<epsilon> e" and "live \<epsilon> e k = Some (v, x)" and "g v = v"
  shows "ks_mutate k g (live \<epsilon> e) = live \<epsilon> e"
  using assms live_value_ok [OF assms(1,2)]
  by (auto simp: ks_mutate_def value_ok_def fun_upd_idem)

lemma ks_mutate_present:
  "m k = Some (v, x) \<Longrightarrow> \<not> is_empty_collection (g v) \<Longrightarrow> ks_mutate k g m = m(k \<mapsto> (g v, x))"
  by (simp add: ks_mutate_def)

lemma ks_mutate_emptied:
  "m k = Some (v, x) \<Longrightarrow> is_empty_collection (g v) \<Longrightarrow> ks_mutate k g m = m(k := None)"
  by (simp add: ks_mutate_def)

lemma ks_mutate_None: "m k = None \<Longrightarrow> ks_mutate k g m = m"
  by (simp add: ks_mutate_def)

lemma ks_mutate_frame: "k \<noteq> key \<Longrightarrow> ks_mutate key g ks k = ks k"
  by (auto simp: ks_mutate_def split: option.split)

text \<open>The deadline stored with a key, if there is one.\<close>

definition deadline :: "'f keyspace \<Rightarrow> bytes \<Rightarrow> instant option" where
  "deadline ks key = (case ks key of Some (_, x) \<Rightarrow> x | None \<Rightarrow> None)"

section \<open>Commands on one kind of collection\<close>

text \<open>
  A kind of collection: how it is wrapped into a value, when it is well formed, and the
  mathematical object it denotes. A key \<open>stores\<close> an object when its entry is a well-formed
  collection denoting it; the empty object is stored by a missing key, because an emptied
  collection is deleted. A command on such keys is understood by what its closure does to the
  object.
\<close>

locale collection =
  fixes wrap :: "'c \<Rightarrow> 'f::linorder kvalue"
    and wf :: "'c \<Rightarrow> bool"
    and content :: "'c \<Rightarrow> 'a"
    and nothing :: 'a
  assumes wrap_ok: "value_ok (wrap c) \<longleftrightarrow> wf c \<and> content c \<noteq> nothing"
    and wrap_empty: "wf c \<Longrightarrow> is_empty_collection (wrap c) \<longleftrightarrow> content c = nothing"
begin

definition stores :: "'f keyspace \<Rightarrow> bytes \<Rightarrow> 'a \<Rightarrow> instant option \<Rightarrow> bool" where
  "stores ks key a x \<longleftrightarrow>
     (if a = nothing then ks key = None
      else \<exists>c. ks key = Some (wrap c, x) \<and> wf c \<and> content c = a)"

lemma stores_cases:
  assumes "stores ks key a x"
  obtains "a = nothing" and "ks key = None"
  | c where "a \<noteq> nothing" and "ks key = Some (wrap c, x)" and "wf c" and "content c = a"
  using assms by (auto simp: stores_def split: if_splits)

lemma stores_mutated:
  assumes "unlimited \<epsilon> e" and "stores (live \<epsilon> e) key a x"
    and "\<And>c. wf c \<Longrightarrow> content c = a \<Longrightarrow>
      \<exists>c'. snd (snd (g (wrap c))) = wrap c' \<and> wf c' \<and> content c' = a'"
    and "a = nothing \<Longrightarrow> a' = nothing"
  shows "stores (live \<epsilon> (snd (engine_with_mut_delta \<epsilon> key g none e))) key a' x
    \<and> (\<forall>k. k \<noteq> key \<longrightarrow> live \<epsilon> (snd (engine_with_mut_delta \<epsilon> key g none e)) k = live \<epsilon> e k)"
  using assms(2)
proof (cases rule: stores_cases)
  case 1
  with assms(1,4) show ?thesis by (simp add: stores_def ks_mutate_None)
next
  case (2 c)
  obtain c' where c': "snd (snd (g (wrap c))) = wrap c'" "wf c'" "content c' = a'"
    using assms(3) [OF 2(3,4)] by blast
  with 2 assms(1) wrap_empty [OF c'(2)] show ?thesis
    by (auto simp: stores_def ks_mutate_def)
qed

lemma stores_upserted:
  assumes "unlimited \<epsilon> e" and "stores (live \<epsilon> e) key a x" and "a = nothing \<Longrightarrow> x = None"
    and "delta_exact (\<lambda>v. snd (f v))" and "answers f"
    and "\<And>c. wf c \<Longrightarrow> content c = a \<Longrightarrow>
      \<exists>c'. snd (snd (f (wrap c))) = wrap c' \<and> wf c' \<and> content c' = a'"
    and "a = nothing \<Longrightarrow>
      (case fresh of None \<Rightarrow> a' = nothing
       | Some v \<Rightarrow> \<exists>c. v = wrap c \<and> wf c \<and> content c = a' \<and> a' \<noteq> nothing)"
  shows "stores (live \<epsilon> (snd (upsert \<epsilon> key f n fresh e))) key a' x
    \<and> (\<forall>k. k \<noteq> key \<longrightarrow> live \<epsilon> (snd (upsert \<epsilon> key f n fresh e)) k = live \<epsilon> e k)"
  using assms(2)
proof (cases rule: stores_cases)
  case 1
  with assms(3,7) show ?thesis
    unfolding upsert_missing(2) [OF assms(1,4) 1(2)]
    by (auto simp: stores_def ks_set_def split: option.splits)
next
  case (2 c)
  obtain c' where c': "snd (snd (f (wrap c))) = wrap c'" "wf c'" "content c' = a'"
    using assms(6) [OF 2(3,4)] by blast
  with 2 wrap_empty [OF c'(2)] show ?thesis
    unfolding upsert_present(2) [OF assms(1,4,5) 2(2)]
    by (auto simp: stores_def ks_mutate_def)
qed

lemma mutated_reply:
  assumes "stores (live \<epsilon> e) key a x"
    and "\<And>c. wf c \<Longrightarrow> content c = a \<Longrightarrow> fst (g (wrap c)) = r" and "a = nothing \<Longrightarrow> none = r"
  shows "fst (engine_with_mut_delta \<epsilon> key g none e) = r"
  using assms by (cases rule: stores_cases) (auto simp: engine_results)

lemma upserted_reply:
  assumes "unlimited \<epsilon> e" and "stores (live \<epsilon> e) key a x"
    and "delta_exact (\<lambda>v. snd (f v))" and "answers f"
    and "\<And>c. wf c \<Longrightarrow> content c = a \<Longrightarrow> fst (f (wrap c)) = Inr (Some r)" and "a = nothing \<Longrightarrow> n = r"
  shows "fst (upsert \<epsilon> key f n fresh e) = Inr r"
  using assms(2)
proof (cases rule: stores_cases)
  case 1
  with assms(6) show ?thesis by (simp add: upsert_missing(1) [OF assms(1,3) 1(2)])
next
  case (2 c)
  with assms(5) show ?thesis by (simp add: upsert_present(1) [OF assms(1,3,4) 2(2)])
qed

lemma read_reply:
  assumes "stores (live \<epsilon> e) key a x"
    and "\<And>c. wf c \<Longrightarrow> content c = a \<Longrightarrow> f (Some (wrap c)) = r" and "a = nothing \<Longrightarrow> f None = r"
  shows "fst (engine_with_ref \<epsilon> key f e) = r"
  using assms by (cases rule: stores_cases) (auto simp: engine_results)

end

end
