(* ===== verification/Rm_Keys.thy ===== *)
theory Rm_Keys
  imports Rm_Command
begin

text \<open>
  The key commands of \<open>crates/engine/src/commands/keys.rs\<close>: \<open>RENAME\<close>, \<open>RENAMENX\<close>, \<open>TYPE\<close> and
  \<open>RANDOMKEY\<close>. The lemmas show that a rename moves the value together with its deadline.
\<close>

section \<open>Operations\<close>

definition rename ::
  "env \<Rightarrow> bytes \<Rightarrow> bytes \<Rightarrow> 'f::linorder engine \<Rightarrow> (engine_error + unit) \<times> 'f engine" where
  "rename \<epsilon> src dst e =
     (let (val, e1) = engine_get \<epsilon> src e
      in case val of
           None \<Rightarrow> (Inl NoSuchKey, e1)
         | Some v \<Rightarrow>
             if src = dst then (Inr (), e1)
             else let ttl = engine_ttl \<epsilon> src e1;
                      e2 = engine_set \<epsilon> dst v e1;
                      e3 = snd (engine_del \<epsilon> src e2)
                  in case ttl of
                       TtlRemaining remaining \<Rightarrow>
                         (Inr (), snd (engine_expire_at \<epsilon> dst (env_now \<epsilon> + remaining) e3))
                     | _ \<Rightarrow> (Inr (), e3))"

definition renamenx ::
  "env \<Rightarrow> bytes \<Rightarrow> bytes \<Rightarrow> 'f::linorder engine \<Rightarrow> (engine_error + bool) \<times> 'f engine" where
  "renamenx \<epsilon> src dst e =
     (let (val, e1) = engine_get \<epsilon> src e
      in case val of
           None \<Rightarrow> (Inl NoSuchKey, e1)
         | Some v \<Rightarrow>
             (let (taken, e2) = engine_exists \<epsilon> dst e1
              in if taken then (Inr False, e2)
                 else let ttl = engine_ttl \<epsilon> src e2;
                          e3 = engine_set \<epsilon> dst v e2;
                          e4 = snd (engine_del \<epsilon> src e3)
                      in case ttl of
                           TtlRemaining remaining \<Rightarrow>
                             (Inr True, snd (engine_expire_at \<epsilon> dst (env_now \<epsilon> + remaining) e4))
                         | _ \<Rightarrow> (Inr True, e4)))"

definition key_type :: "env \<Rightarrow> bytes \<Rightarrow> 'f::linorder engine \<Rightarrow> bytes \<times> 'f engine" where
  "key_type \<epsilon> key e =
     (let (v, e1) = engine_get \<epsilon> key e
      in (case v of None \<Rightarrow> ''none'' | Some v \<Rightarrow> type_name v, e1))"

definition randomkey :: "env \<Rightarrow> 'f engine \<Rightarrow> bytes option" where
  "randomkey \<epsilon> e =
     (let keys = engine_keys \<epsilon> e
      in if keys = [] then None
         else let idx = env_rand \<epsilon> (length keys) in Some (keys ! idx))"

section \<open>Lemmas\<close>

lemma rename_missing:
  assumes "unlimited \<epsilon> e" and "live \<epsilon> e src = None"
  shows "fst (rename \<epsilon> src dst e) = Inl NoSuchKey \<and> live \<epsilon> (snd (rename \<epsilon> src dst e)) = live \<epsilon> e"
  using assms by (simp add: rename_def Let_def split_def engine_results)

lemma moved_view:
  assumes "unlimited \<epsilon> e" and "src \<noteq> dst" and "live \<epsilon> e src = Some (v, x)"
  shows "live \<epsilon> (case engine_ttl \<epsilon> src e of
             TtlRemaining remaining \<Rightarrow>
               snd (engine_expire_at \<epsilon> dst (env_now \<epsilon> + remaining)
                 (snd (engine_del \<epsilon> src (engine_set \<epsilon> dst v e))))
           | _ \<Rightarrow> snd (engine_del \<epsilon> src (engine_set \<epsilon> dst v e))) =
         (live \<epsilon> e)(src := None, dst \<mapsto> (v, x))"
proof (cases x)
  case None
  with assms live_value_ok [OF assms(1,3)] show ?thesis
    by (simp add: engine_results ks_defs fun_upd_twist)
next
  case (Some at)
  with assms have at: "env_now \<epsilon> < at" by (simp add: live_not_expired)
  have "prune (env_now \<epsilon>) ((live \<epsilon> e)(src := None, dst \<mapsto> (v, Some at))) =
        (live \<epsilon> e)(src := None, dst \<mapsto> (v, Some at))"
    using at fun_cong [OF live_pruned [of \<epsilon> e]] by (fastforce simp: prune_def fun_eq_iff)
  with Some at assms live_value_ok [OF assms(1,3)] show ?thesis
    by (simp add: engine_results ks_defs fun_upd_twist)
qed

lemma rename_present:
  assumes "unlimited \<epsilon> e" and "live \<epsilon> e src = Some (v, x)"
  shows "fst (rename \<epsilon> src dst e) = Inr ()
    \<and> live \<epsilon> (snd (rename \<epsilon> src dst e)) = (live \<epsilon> e)(src := None, dst \<mapsto> (v, x))"
proof (cases "src = dst")
  case True
  with assms show ?thesis by (simp add: rename_def Let_def split_def engine_results fun_upd_idem)
next
  case False
  let ?e = "snd (engine_get \<epsilon> src e)"
  from assms have "unlimited \<epsilon> ?e" and "live \<epsilon> ?e src = Some (v, x)" by simp_all
  from moved_view [OF this(1) False this(2)] assms False show ?thesis
    by (auto simp: rename_def Let_def split_def engine_results split: ttl_status.splits)
qed

lemma renamenx_free:
  assumes "unlimited \<epsilon> e" and "live \<epsilon> e src = Some (v, x)" and "live \<epsilon> e dst = None"
  shows "fst (renamenx \<epsilon> src dst e) = Inr True
    \<and> live \<epsilon> (snd (renamenx \<epsilon> src dst e)) = (live \<epsilon> e)(src := None, dst \<mapsto> (v, x))"
proof -
  let ?e = "snd (engine_exists \<epsilon> dst (snd (engine_get \<epsilon> src e)))"
  from assms have "unlimited \<epsilon> ?e" "src \<noteq> dst" "live \<epsilon> ?e src = Some (v, x)" by auto
  from moved_view [OF this] assms show ?thesis
    by (auto simp: renamenx_def Let_def split_def engine_results split: ttl_status.splits)
qed

lemma renamenx_taken:
  assumes "unlimited \<epsilon> e" and "live \<epsilon> e src \<noteq> None" and "live \<epsilon> e dst \<noteq> None"
  shows "fst (renamenx \<epsilon> src dst e) = Inr False
    \<and> live \<epsilon> (snd (renamenx \<epsilon> src dst e)) = live \<epsilon> e"
  using assms by (auto simp: renamenx_def Let_def split_def engine_results)

text \<open>
  With a generator that draws within its range, \<open>RANDOMKEY\<close> answers nothing exactly on an empty
  keyspace and otherwise a live key.
\<close>

lemma randomkey_live:
  assumes "engine_ok (env_hash \<epsilon>) e" and "rand_in_range \<epsilon>"
  shows "case randomkey \<epsilon> e of None \<Rightarrow> dom (live \<epsilon> e) = {} | Some k \<Rightarrow> k \<in> dom (live \<epsilon> e)"
proof (cases "engine_keys \<epsilon> e = []")
  case True
  with engine_keys_set [OF assms(1)] show ?thesis by (simp add: randomkey_def)
next
  case False
  with assms(2) have "engine_keys \<epsilon> e ! env_rand \<epsilon> (length (engine_keys \<epsilon> e)) \<in> dom (live \<epsilon> e)"
    unfolding engine_keys_set [OF assms(1), symmetric] by (simp add: rand_in_range_def)
  with False show ?thesis by (simp add: randomkey_def Let_def)
qed

section \<open>Properties\<close>



end
