(* ===== verification/Rm_String.thy ===== *)
theory Rm_String
  imports Rm_Command
begin

text \<open>
  The string commands of \<open>crates/engine/src/commands/string.rs\<close>. A closure passed to
  \<open>with_mut_delta\<close> is a function of its own (\<open>append_mut\<close>, \<open>incr_mut\<close>, \<open>setrange_mut\<close>); the
  lemmas show that each reports its byte delta exactly, and give every branch of the commands.
\<close>

section \<open>Operations\<close>

definition set_nx :: "env \<Rightarrow> bytes \<Rightarrow> bytes \<Rightarrow> 'f::linorder engine \<Rightarrow> bool \<times> 'f engine" where
  "set_nx \<epsilon> key val e =
     (let (taken, e1) = engine_exists \<epsilon> key e
      in if taken then (False, e1) else (True, engine_set \<epsilon> key (VString val) e1))"

definition set_xx :: "env \<Rightarrow> bytes \<Rightarrow> bytes \<Rightarrow> 'f::linorder engine \<Rightarrow> bool \<times> 'f engine" where
  "set_xx \<epsilon> key val e =
     (let (taken, e1) = engine_exists \<epsilon> key e
      in if \<not> taken then (False, e1) else (True, engine_set \<epsilon> key (VString val) e1))"

definition string_get ::
  "env \<Rightarrow> bytes \<Rightarrow> 'f::linorder engine \<Rightarrow> (engine_error + bytes option) \<times> 'f engine" where
  "string_get \<epsilon> key e =
     (let (v, e1) = engine_get \<epsilon> key e
      in (case v of None \<Rightarrow> Inr None | Some (VString b) \<Rightarrow> Inr (Some b) | Some _ \<Rightarrow> Inl WrongType, e1))"

fun append_mut :: "bytes \<Rightarrow> ('f::linorder, engine_error + nat option) mutator" where
  "append_mut suffix (VString b) =
     (let buf = b @ suffix in (Inr (Some (length buf)), int (length suffix), VString buf))"
| "append_mut suffix v = (Inl WrongType, 0, v)"

definition append_cmd ::
  "env \<Rightarrow> bytes \<Rightarrow> bytes \<Rightarrow> 'f::linorder engine \<Rightarrow> (engine_error + nat) \<times> 'f engine" where
  "append_cmd \<epsilon> key suffix e =
     upsert \<epsilon> key (append_mut suffix) (length suffix) (Some (VString suffix)) e"

definition strlen_cmd ::
  "env \<Rightarrow> bytes \<Rightarrow> 'f::linorder engine \<Rightarrow> (engine_error + nat) \<times> 'f engine" where
  "strlen_cmd \<epsilon> key e =
     (let (v, e1) = engine_get \<epsilon> key e
      in (case v of None \<Rightarrow> Inr 0 | Some (VString b) \<Rightarrow> Inr (length b) | Some _ \<Rightarrow> Inl WrongType, e1))"

fun incr_mut :: "int \<Rightarrow> ('f::linorder, engine_error + int option) mutator" where
  "incr_mut delta (VString b) =
     (case parse_i64_arg b of
        None \<Rightarrow> (Inl NotAnInteger, 0, VString b)
      | Some current \<Rightarrow>
          (case checked_add_i64 current delta of
             None \<Rightarrow> (Inl IncrementOverflow, 0, VString b)
           | Some next \<Rightarrow>
               (let new_bytes = show_int next
                in (Inr (Some next), int (length new_bytes) - int (length b), VString new_bytes))))"
| "incr_mut delta v = (Inl WrongType, 0, v)"

definition incr_by ::
  "env \<Rightarrow> bytes \<Rightarrow> int \<Rightarrow> 'f::linorder engine \<Rightarrow> (engine_error + int) \<times> 'f engine" where
  "incr_by \<epsilon> key delta e = upsert \<epsilon> key (incr_mut delta) delta (Some (VString (show_int delta))) e"

definition getset ::
  "env \<Rightarrow> bytes \<Rightarrow> bytes \<Rightarrow> 'f::linorder engine \<Rightarrow> (engine_error + bytes option) \<times> 'f engine" where
  "getset \<epsilon> key val e =
     (let (old, e1) = string_get \<epsilon> key e
      in case old of
           Inl err \<Rightarrow> (Inl err, e1)
         | Inr old \<Rightarrow> (Inr old, engine_set \<epsilon> key (VString val) e1))"

definition slice_range :: "int \<Rightarrow> int \<Rightarrow> bytes \<Rightarrow> bytes" where
  "slice_range start stop buf =
     (let len = int (length buf);
          norm = (\<lambda>i. if i < 0 then max (len + i) 0 else min i len);
          s = norm start;
          e = min (norm stop + 1) len
      in if s \<ge> e then [] else take (nat e - nat s) (drop (nat s) buf))"

definition getrange ::
  "env \<Rightarrow> bytes \<Rightarrow> int \<Rightarrow> int \<Rightarrow> 'f::linorder engine \<Rightarrow> (engine_error + bytes) \<times> 'f engine" where
  "getrange \<epsilon> key start stop e =
     (let (v, e1) = engine_get \<epsilon> key e
      in (case v of
            None \<Rightarrow> Inr []
          | Some (VString buf) \<Rightarrow> Inr (slice_range start stop buf)
          | Some _ \<Rightarrow> Inl WrongType, e1))"

text \<open>
  Growing a \<open>Vec<u8>\<close> past \<open>isize::MAX\<close> bytes panics; \<open>setrange\<close> says so with \<^term>\<open>None\<close> for its
  result. The offset is a \<open>usize\<close> that its caller took from a non-negative \<open>i64\<close>, so that the sum
  of the offset and a length stays below \<open>2^64\<close>.
\<close>

abbreviation isize_max :: nat where
  "isize_max \<equiv> 2 ^ 63 - 1"

abbreviation NUL :: char where
  "NUL \<equiv> CHR 0x00"

definition overwrite :: "nat \<Rightarrow> bytes \<Rightarrow> bytes \<Rightarrow> bytes" where
  "overwrite offset val b =
     (let fin = offset + length val;
          buf = (if length b < fin then b @ replicate (fin - length b) NUL else b)
      in take offset buf @ val @ drop fin buf)"

fun setrange_mut :: "nat \<Rightarrow> bytes \<Rightarrow> ('f::linorder, (engine_error + nat option) option) mutator" where
  "setrange_mut offset val (VString b) =
     (let fin = offset + length val
      in if isize_max < fin then (None, 0, VString b)
         else let buf = overwrite offset val b
              in (Some (Inr (Some (length buf))), int (length buf) - int (length b), VString buf))"
| "setrange_mut offset val v = (Some (Inl WrongType), 0, v)"

definition setrange ::
  "env \<Rightarrow> bytes \<Rightarrow> nat \<Rightarrow> bytes \<Rightarrow> 'f::linorder engine
   \<Rightarrow> (engine_error + nat) option \<times> 'f engine" where
  "setrange \<epsilon> key offset val e =
     (if val = [] then
        (let (v, e1) = engine_get \<epsilon> key e
         in (Some (case v of None \<Rightarrow> Inr 0 | Some (VString b) \<Rightarrow> Inr (length b)
                   | Some _ \<Rightarrow> Inl WrongType), e1))
      else
        (let (existed, e1) = engine_with_mut_delta \<epsilon> key (setrange_mut offset val) (Some (Inr None)) e
         in case existed of
              None \<Rightarrow> (None, e1)
            | Some (Inl err) \<Rightarrow> (Some (Inl err), e1)
            | Some (Inr (Some len)) \<Rightarrow> (Some (Inr len), e1)
            | Some (Inr None) \<Rightarrow>
                (let fin = offset + length val
                 in if isize_max < fin then (None, e1)
                    else let buf = overwrite offset val (replicate fin NUL)
                         in (Some (Inr (length buf)), engine_set \<epsilon> key (VString buf) e1))))"

fun mset_cmd :: "env \<Rightarrow> (bytes \<times> bytes) list \<Rightarrow> 'f::linorder engine \<Rightarrow> 'f engine" where
  "mset_cmd \<epsilon> [] e = e"
| "mset_cmd \<epsilon> ((k, v) # pairs) e = mset_cmd \<epsilon> pairs (engine_set \<epsilon> k (VString v) e)"

fun mget_cmd :: "env \<Rightarrow> bytes list \<Rightarrow> 'f::linorder engine \<Rightarrow> bytes option list \<times> 'f engine" where
  "mget_cmd \<epsilon> [] e = ([], e)"
| "mget_cmd \<epsilon> (k # ks) e =
     (let (v, e1) = engine_get \<epsilon> k e;
          (vs, e2) = mget_cmd \<epsilon> ks e1
      in ((case v of Some (VString b) \<Rightarrow> Some b | _ \<Rightarrow> None) # vs, e2))"

fun any_exists :: "env \<Rightarrow> bytes list \<Rightarrow> 'f engine \<Rightarrow> bool \<times> 'f engine" where
  "any_exists \<epsilon> [] e = (False, e)"
| "any_exists \<epsilon> (k # ks) e =
     (let (b, e1) = engine_exists \<epsilon> k e in if b then (True, e1) else any_exists \<epsilon> ks e1)"

definition msetnx :: "env \<Rightarrow> (bytes \<times> bytes) list \<Rightarrow> 'f::linorder engine \<Rightarrow> bool \<times> 'f engine" where
  "msetnx \<epsilon> pairs e =
     (let (taken, e1) = any_exists \<epsilon> (map fst pairs) e
      in if taken then (False, e1) else (True, mset_cmd \<epsilon> pairs e1))"

section \<open>Byte deltas\<close>

lemma value_ok_VString [simp]: "value_ok (VString b)"
  by (simp add: value_ok_def)

lemma append_mut_exact [simp]: "delta_exact (\<lambda>v. snd (append_mut s v))"
proof (rule delta_exactI)
  fix v :: "'a kvalue" assume "value_ok v"
  then show "int (approx_size (snd (snd (append_mut s v)))) = int (approx_size v) + fst (snd (append_mut s v))"
    and "value_wf (snd (snd (append_mut s v)))"
    by (cases v; simp add: value_ok_def Let_def)+
qed

lemma incr_mut_exact [simp]: "delta_exact (\<lambda>v. snd (incr_mut d v))"
proof (rule delta_exactI)
  fix v :: "'a kvalue" assume "value_ok v"
  then show "int (approx_size (snd (snd (incr_mut d v)))) = int (approx_size v) + fst (snd (incr_mut d v))"
    and "value_wf (snd (snd (incr_mut d v)))"
    by (cases v; simp add: value_ok_def Let_def split: option.split)+
qed

lemma setrange_mut_exact [simp]: "delta_exact (\<lambda>v. snd (setrange_mut n s v))"
proof (rule delta_exactI)
  fix v :: "'a kvalue" assume "value_ok v"
  then show "int (approx_size (snd (snd (setrange_mut n s v)))) =
      int (approx_size v) + fst (snd (setrange_mut n s v))"
    and "value_wf (snd (snd (setrange_mut n s v)))"
    by (cases v; simp add: value_ok_def Let_def)+
qed

lemma append_mut_answers [simp]: "answers (append_mut s)"
  unfolding answers_def by (intro allI, case_tac v) (simp_all add: Let_def)

lemma incr_mut_answers [simp]: "answers (incr_mut d)"
  unfolding answers_def by (intro allI, case_tac v) (simp_all add: Let_def split: option.split)

section \<open>Effects on the live view\<close>

lemma unlimited_append [simp]: "unlimited \<epsilon> e \<Longrightarrow> unlimited \<epsilon> (snd (append_cmd \<epsilon> k s e))"
  by (simp add: append_cmd_def)

lemma unlimited_incr_by [simp]: "unlimited \<epsilon> e \<Longrightarrow> unlimited \<epsilon> (snd (incr_by \<epsilon> k d e))"
  by (simp add: incr_by_def)

lemma unlimited_setrange [simp]: "unlimited \<epsilon> e \<Longrightarrow> unlimited \<epsilon> (snd (setrange \<epsilon> k n s e))"
  by (auto simp: setrange_def Let_def split_def split: option.split sum.split)

lemma unlimited_mset [simp]: "unlimited \<epsilon> e \<Longrightarrow> unlimited \<epsilon> (mset_cmd \<epsilon> ps e)"
  by (induction ps arbitrary: e) auto

lemma incr_by_missing:
  assumes "unlimited \<epsilon> e" and "live \<epsilon> e key = None"
  shows "fst (incr_by \<epsilon> key d e) = Inr d
    \<and> live \<epsilon> (snd (incr_by \<epsilon> key d e)) = (live \<epsilon> e)(key \<mapsto> (VString (show_int d), None))"
  using assms by (simp add: incr_by_def upsert_missing ks_set_def)

lemma incr_by_string:
  assumes "unlimited \<epsilon> e" and "live \<epsilon> e key = Some (VString b, x)"
  shows "case parse_i64_arg b of
      None \<Rightarrow> fst (incr_by \<epsilon> key d e) = Inl NotAnInteger \<and> live \<epsilon> (snd (incr_by \<epsilon> key d e)) = live \<epsilon> e
    | Some n \<Rightarrow>
        if in_i64 (n + d) then fst (incr_by \<epsilon> key d e) = Inr (n + d)
          \<and> live \<epsilon> (snd (incr_by \<epsilon> key d e)) = (live \<epsilon> e)(key \<mapsto> (VString (show_int (n + d)), x))
        else fst (incr_by \<epsilon> key d e) = Inl IncrementOverflow
          \<and> live \<epsilon> (snd (incr_by \<epsilon> key d e)) = live \<epsilon> e"
  using ks_mutate_same [OF assms]
  by (auto simp: incr_by_def upsert_present [OF assms(1) incr_mut_exact incr_mut_answers assms(2)]
      checked_add_i64_def Let_def ks_mutate_present [of _ _ "VString b" x] assms(2)
      split: option.split)

lemma incr_by_wrong_type:
  assumes "unlimited \<epsilon> e" and "live \<epsilon> e key = Some (v, x)" and "type_name v \<noteq> ''string''"
  shows "fst (incr_by \<epsilon> key d e) = Inl WrongType \<and> live \<epsilon> (snd (incr_by \<epsilon> key d e)) = live \<epsilon> e"
  using assms(3) ks_mutate_same [OF assms(1,2)]
  by (cases v) (auto simp: incr_by_def
      upsert_present [OF assms(1) incr_mut_exact incr_mut_answers assms(2)])

lemma length_overwrite:
  "length (overwrite n val b) = max (length b) (n + length val)"
  by (auto simp: overwrite_def Let_def)

lemma nth_overwrite:
  assumes "i < length (overwrite n val b)"
  shows "overwrite n val b ! i =
    (if n \<le> i \<and> i < n + length val then val ! (i - n) else if i < length b then b ! i else NUL)"
  using assms by (auto simp: overwrite_def Let_def nth_append)

lemma slice_overwrite:
  assumes "val \<noteq> []"
  shows "slice_range (int n) (int (n + length val - 1)) (overwrite n val b) = val"
proof -
  let ?buf = "overwrite n val b" and ?fin = "n + length val"
  have len: "?fin \<le> length ?buf" by (simp add: length_overwrite)
  have fin: "n < ?fin" "int (?fin - 1) = int ?fin - 1"
    using assms by (simp_all add: of_nat_diff Suc_leI)
  have pos: "1 \<le> int n + int (length val)" "nat (int n + int (length val)) = ?fin"
    using fin(1) by linarith+
  have "slice_range (int n) (int (?fin - 1)) ?buf = take (?fin - n) (drop n ?buf)"
    using len fin(1) pos unfolding fin(2) by (simp add: slice_range_def Let_def min_def not_less)
  also have "\<dots> = val"
    using len by (intro nth_equalityI) (simp_all add: nth_overwrite)
  finally show ?thesis .
qed

lemma setrange_view:
  assumes "unlimited \<epsilon> e" and "val \<noteq> []" and "fst (setrange \<epsilon> key n val e) = Some (Inr len)"
  shows "\<exists>b. live \<epsilon> (snd (setrange \<epsilon> key n val e)) key =
      Some (VString (overwrite n val b), case live \<epsilon> e key of Some (_, x) \<Rightarrow> x | None \<Rightarrow> None)
    \<and> len = length (overwrite n val b)
    \<and> (case live \<epsilon> e key of Some (v, _) \<Rightarrow> v = VString b | None \<Rightarrow> b = replicate (n + length val) NUL)"
proof (cases "live \<epsilon> e key")
  case None
  with assms show ?thesis
    by (auto simp: setrange_def Let_def split_def engine_results ks_mutate_None ks_set_def
        split: if_splits)
next
  case (Some p)
  obtain v x where p: "p = (v, x)" by (cases p)
  obtain b where v: "v = VString b"
    using assms Some p
    by (cases v) (auto simp: setrange_def Let_def split_def engine_results)
  show ?thesis
    using assms Some p v
    by (auto simp: setrange_def Let_def split_def engine_results ks_mutate_present split: if_splits)
qed

lemma mset_view:
  "unlimited \<epsilon> e \<Longrightarrow> live \<epsilon> (mset_cmd \<epsilon> ps e) k =
     (case map_of (rev ps) k of Some v \<Rightarrow> Some (VString v, None) | None \<Rightarrow> live \<epsilon> e k)"
  by (induction ps arbitrary: e) (auto simp: ks_set_def map_of_append map_add_def split: option.split)

lemma any_exists_view:
  "unlimited \<epsilon> e \<Longrightarrow> fst (any_exists \<epsilon> ks e) = (\<exists>k \<in> set ks. live \<epsilon> e k \<noteq> None)
     \<and> live \<epsilon> (snd (any_exists \<epsilon> ks e)) = live \<epsilon> e \<and> unlimited \<epsilon> (snd (any_exists \<epsilon> ks e))"
  by (induction ks arbitrary: e) (simp_all add: Let_def split_def engine_results)

lemma mget_view:
  "unlimited \<epsilon> e \<Longrightarrow> fst (mget_cmd \<epsilon> ks e) =
     map (\<lambda>k. case live \<epsilon> e k of Some (VString b, _) \<Rightarrow> Some b | _ \<Rightarrow> None) ks"
  by (induction ks arbitrary: e)
    (auto simp: Let_def split_def engine_results split: option.split kvalue.split)

section \<open>Properties\<close>

text \<open>
  C7: \<open>INCRBY\<close> on every branch. A missing key starts at the increment. A string that parses as an
  \<open>i64\<close> is replaced by the decimal text of the sum and keeps its deadline when the sum fits an
  \<open>i64\<close>; an overflow, a string that is not an integer and a value of another type are the three
  errors, and they leave the keyspace unchanged.
\<close>

theorem incr_by_branches:
  assumes "unlimited \<epsilon> e"
  shows "let r = fst (incr_by \<epsilon> key d e); m = live \<epsilon> e; m' = live \<epsilon> (snd (incr_by \<epsilon> key d e))
    in case m key of
         None \<Rightarrow> r = Inr d \<and> m' = m(key \<mapsto> (VString (show_int d), None))
       | Some (VString b, x) \<Rightarrow>
           (case parse_i64_arg b of
              None \<Rightarrow> r = Inl NotAnInteger \<and> m' = m
            | Some n \<Rightarrow>
                if in_i64 (n + d) then r = Inr (n + d) \<and> m' = m(key \<mapsto> (VString (show_int (n + d)), x))
                else r = Inl IncrementOverflow \<and> m' = m)
       | Some _ \<Rightarrow> r = Inl WrongType \<and> m' = m"
  using incr_by_missing [OF assms, of key d] incr_by_string [OF assms, of key _ _ d]
    incr_by_wrong_type [OF assms, of key _ _ d]
  by (auto simp: Let_def split: option.split kvalue.split)

lemma fresh_string:
  "live \<epsilon> (engine_set \<epsilon> k (VString b) (engine_new \<epsilon>)) = [k \<mapsto> (VString b, None)]"
  using live_ops(7) [OF unlimited_new [of \<epsilon> \<epsilon>]] by (simp add: engine_view_new ks_set_def)

theorem incr_by_branches_witness:
  "fst (incr_by sample_env ''a'' 5
     (engine_set sample_env ''a'' (VString ''37'') (engine_new sample_env) :: nat engine)) = Inr 42
   \<and> fst (incr_by sample_env ''a'' 5
     (engine_set sample_env ''a'' (VString ''x'') (engine_new sample_env) :: nat engine)) = Inl NotAnInteger"
proof
  let ?e = "\<lambda>b. engine_set sample_env ''a'' (VString b) (engine_new sample_env) :: nat engine"
  have e: "unlimited sample_env (?e b)" for b by (simp add: unlimited_new)
  have "parse_i64_arg ''37'' = Some 37" by code_simp
  then show "fst (incr_by sample_env ''a'' 5 (?e ''37'')) = Inr 42"
    using incr_by_branches [OF e [of "''37''"], of "''a''" 5]
      fresh_string [where 'a = nat, of sample_env "''a''" "''37''"]
    by (simp add: Let_def in_i64_def)
  have "parse_i64_arg ''x'' = None" by code_simp
  then show "fst (incr_by sample_env ''a'' 5 (?e ''x'')) = Inl NotAnInteger"
    using incr_by_branches [OF e [of "''x''"], of "''a''" 5]
      fresh_string [where 'a = nat, of sample_env "''a''" "''x''"]
    by (simp add: Let_def)
qed

text \<open>
  Counters count. Once \<open>INCRBY\<close> has answered a number, the next \<open>INCRBY\<close> on the key parses
  what the first one wrote: it answers the exact sum, or the overflow error when the sum does not
  fit an \<open>i64\<close>, and never that the value is not an integer.
\<close>

lemma incr_by_incr_by:
  assumes "unlimited \<epsilon> e" and "in_i64 d" and "fst (incr_by \<epsilon> key d e) = Inr n"
  shows "fst (incr_by \<epsilon> key d' (snd (incr_by \<epsilon> key d e))) =
    (if in_i64 (n + d') then Inr (n + d') else Inl IncrementOverflow)"
proof -
  let ?e = "snd (incr_by \<epsilon> key d e)"
  have "\<exists>x. live \<epsilon> ?e key = Some (VString (show_int n), x) \<and> in_i64 n"
  proof (cases "live \<epsilon> e key")
    case None
    with incr_by_missing [OF assms(1)] assms(2,3) show ?thesis by simp
  next
    case (Some p)
    obtain v x where p: "p = (v, x)" by (cases p)
    obtain b where "v = VString b"
      using incr_by_wrong_type [OF assms(1), of key v x d] Some p assms(3) by (cases v) auto
    then show ?thesis
      using incr_by_string [OF assms(1), of key b x d] Some p assms(3)
      by (auto split: option.splits if_splits)
  qed
  then obtain x where "live \<epsilon> ?e key = Some (VString (show_int n), x)" and "in_i64 n" by blast
  with incr_by_string [of \<epsilon> ?e key "show_int n" x d'] assms(1) show ?thesis
    by (auto split: if_splits)
qed



text \<open>
  C9: \<open>MSETNX\<close> is all or nothing. When any of the keys is live it answers false and changes
  nothing; otherwise it answers true and every key holds the last value given for it, without a
  deadline, and no other key changes.
\<close>

theorem msetnx_all_or_nothing:
  assumes "unlimited \<epsilon> e"
  shows "if \<exists>k \<in> fst ` set pairs. live \<epsilon> e k \<noteq> None
    then fst (msetnx \<epsilon> pairs e) = False \<and> live \<epsilon> (snd (msetnx \<epsilon> pairs e)) = live \<epsilon> e
    else fst (msetnx \<epsilon> pairs e) = True
      \<and> live \<epsilon> (snd (msetnx \<epsilon> pairs e)) =
          live \<epsilon> e ++ (\<lambda>k. map_option (\<lambda>v. (VString v, None)) (map_of (rev pairs) k))"
  using any_exists_view [OF assms, of "map fst pairs"]
  by (auto simp: msetnx_def Let_def split_def mset_view map_add_def fun_eq_iff split: option.split)

theorem msetnx_all_or_nothing_witness:
  "fst (msetnx sample_env [(''a'', ''1''), (''b'', ''2'')] (engine_new sample_env :: nat engine)) = True"
  using msetnx_all_or_nothing [of sample_env "engine_new sample_env :: nat engine"
      "[(''a'', ''1''), (''b'', ''2'')]"]
  by (simp add: unlimited_new engine_view_new)

end
