(* ===== verification/Rm_List.thy ===== *)
theory Rm_List
  imports Rm_Command
begin

text \<open>
  The list commands of \<open>crates/engine/src/commands/list.rs\<close>. A \<open>VecDeque\<close> is a list; every loop
  of the source is a function of its own. The lemmas show that each closure reports its byte
  delta exactly, that pushes, pops and moves are those of a double-ended queue, that \<open>LRANGE\<close>
  and \<open>LTRIM\<close> agree, and what \<open>LREM\<close> and \<open>LINSERT\<close> leave.
\<close>

section \<open>Pushing\<close>

fun push_back_all :: "bytes list \<Rightarrow> int \<times> bytes list \<Rightarrow> int \<times> bytes list" where
  "push_back_all [] acc = acc"
| "push_back_all (val # vals) (delta, l) =
     push_back_all vals (delta + (int (length val) + 8), l @ [val])"

fun push_front_all :: "bytes list \<Rightarrow> int \<times> bytes list \<Rightarrow> int \<times> bytes list" where
  "push_front_all [] acc = acc"
| "push_front_all (val # vals) (delta, l) =
     push_front_all vals (delta + (int (length val) + 8), val # l)"

fun rpush_mut :: "bytes list \<Rightarrow> ('f::linorder, engine_error + nat option) mutator" where
  "rpush_mut vals (VList l) =
     (let (delta, l') = push_back_all vals (0, l) in (Inr (Some (length l')), delta, VList l'))"
| "rpush_mut vals v = (Inl WrongType, 0, v)"

definition rpush ::
  "env \<Rightarrow> bytes \<Rightarrow> bytes list \<Rightarrow> 'f::linorder engine \<Rightarrow> (engine_error + nat) \<times> 'f engine" where
  "rpush \<epsilon> key vals e =
     upsert \<epsilon> key (rpush_mut vals) (length vals) (if vals = [] then None else Some (VList vals)) e"

fun lpush_mut :: "bytes list \<Rightarrow> ('f::linorder, engine_error + nat option) mutator" where
  "lpush_mut vals (VList l) =
     (let (delta, l') = push_front_all vals (0, l) in (Inr (Some (length l')), delta, VList l'))"
| "lpush_mut vals v = (Inl WrongType, 0, v)"

definition lpush ::
  "env \<Rightarrow> bytes \<Rightarrow> bytes list \<Rightarrow> 'f::linorder engine \<Rightarrow> (engine_error + nat) \<times> 'f engine" where
  "lpush \<epsilon> key vals e =
     (let l = snd (push_front_all vals (0, []))
      in upsert \<epsilon> key (lpush_mut vals) (length l) (if vals = [] then None else Some (VList l)) e)"

section \<open>Popping\<close>

definition popped_delta :: "bytes option \<Rightarrow> int" where
  "popped_delta popped = (case popped of Some b \<Rightarrow> - (int (length b) + 8) | None \<Rightarrow> 0)"

definition pop_back :: "bytes list \<Rightarrow> bytes option \<times> bytes list" where
  "pop_back l = (if l = [] then (None, []) else (Some (last l), butlast l))"

fun pop_front :: "bytes list \<Rightarrow> bytes option \<times> bytes list" where
  "pop_front [] = (None, [])"
| "pop_front (b # l) = (Some b, l)"

datatype list_end = ListLeft | ListRight

definition pop_end :: "list_end \<Rightarrow> bytes list \<Rightarrow> bytes option \<times> bytes list" where
  "pop_end end l = (case end of ListLeft \<Rightarrow> pop_front l | ListRight \<Rightarrow> pop_back l)"

fun pop_mut :: "list_end \<Rightarrow> ('f::linorder, engine_error + bytes option) mutator" where
  "pop_mut end (VList l) =
     (let (popped, l') = pop_end end l in (Inr popped, popped_delta popped, VList l'))"
| "pop_mut end v = (Inl WrongType, 0, v)"

definition rpop ::
  "env \<Rightarrow> bytes \<Rightarrow> 'f::linorder engine \<Rightarrow> (engine_error + bytes option) \<times> 'f engine" where
  "rpop \<epsilon> key e = engine_with_mut_delta \<epsilon> key (pop_mut ListRight) (Inr None) e"

definition lpop ::
  "env \<Rightarrow> bytes \<Rightarrow> 'f::linorder engine \<Rightarrow> (engine_error + bytes option) \<times> 'f engine" where
  "lpop \<epsilon> key e = engine_with_mut_delta \<epsilon> key (pop_mut ListLeft) (Inr None) e"

section \<open>Reading\<close>

definition llen :: "env \<Rightarrow> bytes \<Rightarrow> 'f engine \<Rightarrow> (engine_error + nat) \<times> 'f engine" where
  "llen \<epsilon> key e = engine_with_ref \<epsilon> key
     (\<lambda>v. case v of None \<Rightarrow> Inr 0 | Some (VList l) \<Rightarrow> Inr (length l) | Some _ \<Rightarrow> Inl WrongType) e"

definition normalize_range :: "int \<Rightarrow> int \<Rightarrow> int \<Rightarrow> nat \<times> nat" where
  "normalize_range len start stop =
     (let norm = (\<lambda>i. if i < 0 then max (len + i) 0 else min i len);
          s = norm start;
          e = norm stop + 1
      in if s \<ge> e then (0, 0) else (nat s, nat e))"

definition lrange_of :: "int \<Rightarrow> int \<Rightarrow> bytes list \<Rightarrow> bytes list" where
  "lrange_of start stop l =
     (let (s, e) = normalize_range (int (length l)) start stop in take (e - s) (drop s l))"

definition lrange ::
  "env \<Rightarrow> bytes \<Rightarrow> int \<Rightarrow> int \<Rightarrow> 'f engine \<Rightarrow> (engine_error + bytes list) \<times> 'f engine" where
  "lrange \<epsilon> key start stop e = engine_with_ref \<epsilon> key
     (\<lambda>v. case v of None \<Rightarrow> Inr [] | Some (VList l) \<Rightarrow> Inr (lrange_of start stop l)
          | Some _ \<Rightarrow> Inl WrongType) e"

definition lindex ::
  "env \<Rightarrow> bytes \<Rightarrow> int \<Rightarrow> 'f engine \<Rightarrow> (engine_error + bytes option) \<times> 'f engine" where
  "lindex \<epsilon> key index e = engine_with_ref \<epsilon> key
     (\<lambda>v. case v of None \<Rightarrow> Inr None
          | Some (VList l) \<Rightarrow>
              (let len = int (length l);
                   idx = (if index < 0 then len + index else index)
               in if idx < 0 \<or> idx \<ge> len then Inr None else Inr (Some (l ! nat idx)))
          | Some _ \<Rightarrow> Inl WrongType) e"

section \<open>Updating\<close>

fun lset_mut :: "int \<Rightarrow> bytes \<Rightarrow> ('f::linorder, engine_error + unit) mutator" where
  "lset_mut index val (VList l) =
     (let len = int (length l);
          idx = (if index < 0 then len + index else index)
      in if idx < 0 \<or> idx \<ge> len then (Inl IndexOutOfRange, 0, VList l)
         else (Inr (), int (length val) - int (length (l ! nat idx)), VList (l[nat idx := val])))"
| "lset_mut index val v = (Inl WrongType, 0, v)"

definition lset ::
  "env \<Rightarrow> bytes \<Rightarrow> int \<Rightarrow> bytes \<Rightarrow> 'f::linorder engine \<Rightarrow> (engine_error + unit) \<times> 'f engine" where
  "lset \<epsilon> key index val e = engine_with_mut_delta \<epsilon> key (lset_mut index val) (Inl NoSuchKey) e"

definition elems_delta :: "bytes list \<Rightarrow> int" where
  "elems_delta l = foldl (\<lambda>d b. d - (int (length b) + 8)) 0 l"

fun ltrim_mut :: "int \<Rightarrow> int \<Rightarrow> ('f::linorder, engine_error + unit) mutator" where
  "ltrim_mut start stop (VList l) =
     (let (s, e) = normalize_range (int (length l)) start stop;
          delta = elems_delta (drop e l);
          l1 = take e l;
          delta' = delta + elems_delta (take s l1);
          l2 = drop s l1
      in (Inr (), delta', VList l2))"
| "ltrim_mut start stop v = (Inl WrongType, 0, v)"

definition ltrim ::
  "env \<Rightarrow> bytes \<Rightarrow> int \<Rightarrow> int \<Rightarrow> 'f::linorder engine \<Rightarrow> (engine_error + unit) \<times> 'f engine" where
  "ltrim \<epsilon> key start stop e = engine_with_mut_delta \<epsilon> key (ltrim_mut start stop) (Inr ()) e"

text \<open>
  \<open>LREM\<close>: the \<open>retain\<close> pass from the head with what remains to be removed, and the scan from the
  tail that collects indices, highest first, followed by the removals.
\<close>

fun retain_loop :: "bytes \<Rightarrow> nat \<Rightarrow> bytes list \<Rightarrow> nat \<times> bytes list" where
  "retain_loop val remaining [] = (0, [])"
| "retain_loop val remaining (b # l) =
     (if remaining > 0 \<and> b = val
      then let (removed, l') = retain_loop val (remaining - 1) l in (removed + 1, l')
      else let (removed, l') = retain_loop val remaining l in (removed, b # l'))"

fun tail_scan :: "bytes \<Rightarrow> nat \<Rightarrow> (nat \<times> bytes) list \<Rightarrow> nat list" where
  "tail_scan val remaining [] = []"
| "tail_scan val remaining ((idx, b) # items) =
     (if remaining = 0 then []
      else if b = val then idx # tail_scan val (remaining - 1) items
      else tail_scan val remaining items)"

definition remove_at :: "nat \<Rightarrow> bytes list \<Rightarrow> bytes list" where
  "remove_at idx l = take idx l @ drop (Suc idx) l"

fun remove_all_at :: "nat list \<Rightarrow> bytes list \<Rightarrow> bytes list" where
  "remove_all_at [] l = l"
| "remove_all_at (idx # idxs) l = remove_all_at idxs (remove_at idx l)"

definition lrem_of :: "int \<Rightarrow> bytes \<Rightarrow> bytes list \<Rightarrow> nat \<times> bytes list" where
  "lrem_of cnt val l =
     (if cnt \<ge> 0 then
        (let remaining = (if cnt = 0 then 2 ^ 64 - 1 else nat cnt)
         in retain_loop val remaining l)
      else
        (let remaining = nat (- cnt);
             to_remove = tail_scan val remaining (rev (List.enumerate 0 l))
         in (length to_remove, remove_all_at to_remove l)))"

fun lrem_mut :: "int \<Rightarrow> bytes \<Rightarrow> ('f::linorder, engine_error + nat) mutator" where
  "lrem_mut cnt val (VList l) =
     (let (removed, l') = lrem_of cnt val l
      in (Inr removed, - int removed * (int (length val) + 8), VList l'))"
| "lrem_mut cnt val v = (Inl WrongType, 0, v)"

definition lrem ::
  "env \<Rightarrow> bytes \<Rightarrow> int \<Rightarrow> bytes \<Rightarrow> 'f::linorder engine \<Rightarrow> (engine_error + nat) \<times> 'f engine" where
  "lrem \<epsilon> key cnt val e = engine_with_mut_delta \<epsilon> key (lrem_mut cnt val) (Inr 0) e"

section \<open>Moving and inserting\<close>

fun push_one_mut :: "list_end \<Rightarrow> bytes \<Rightarrow> ('f::linorder, engine_error + bool) mutator" where
  "push_one_mut end val (VList l) =
     (Inr True, int (length val) + 8,
      VList (case end of ListLeft \<Rightarrow> val # l | ListRight \<Rightarrow> l @ [val]))"
| "push_one_mut end val v = (Inl WrongType, 0, v)"

definition push_one ::
  "env \<Rightarrow> bytes \<Rightarrow> list_end \<Rightarrow> bytes \<Rightarrow> 'f::linorder engine \<Rightarrow> (engine_error + unit) \<times> 'f engine" where
  "push_one \<epsilon> key end val e =
     (let (existed, e1) = engine_with_mut_delta \<epsilon> key (push_one_mut end val) (Inr False) e
      in case existed of
           Inl err \<Rightarrow> (Inl err, e1)
         | Inr b \<Rightarrow> if \<not> b then (Inr (), engine_set \<epsilon> key (VList [val]) e1) else (Inr (), e1))"

definition lmove ::
  "env \<Rightarrow> bytes \<Rightarrow> bytes \<Rightarrow> list_end \<Rightarrow> list_end \<Rightarrow> 'f::linorder engine
   \<Rightarrow> (engine_error + bytes option) \<times> 'f engine" where
  "lmove \<epsilon> source destination from to e =
     (let (dest_ok, e1) = engine_with_ref \<epsilon> destination
            (\<lambda>v. case v of None \<Rightarrow> True | Some (VList _) \<Rightarrow> True | Some _ \<Rightarrow> False) e
      in if \<not> dest_ok then (Inl WrongType, e1)
         else let (popped, e2) = engine_with_mut_delta \<epsilon> source (pop_mut from) (Inr None) e1
              in case popped of
                   Inl err \<Rightarrow> (Inl err, e2)
                 | Inr None \<Rightarrow> (Inr None, e2)
                 | Inr (Some val) \<Rightarrow>
                     (let (pushed, e3) = push_one \<epsilon> destination to val e2
                      in case pushed of
                           Inl err \<Rightarrow> (Inl err, snd (push_one \<epsilon> source from val e3))
                         | Inr _ \<Rightarrow> (Inr (Some val), e3)))"

fun linsert_mut :: "bool \<Rightarrow> bytes \<Rightarrow> bytes \<Rightarrow> ('f::linorder, engine_error + int) mutator" where
  "linsert_mut before pivot val (VList l) =
     (case position (\<lambda>b. b = pivot) l of
        None \<Rightarrow> (Inr (- 1), 0, VList l)
      | Some pos \<Rightarrow>
          (let insert_at = (if before then pos else pos + 1);
               l' = take insert_at l @ val # drop insert_at l
           in (Inr (int (length l')), int (length val) + 8, VList l')))"
| "linsert_mut before pivot val v = (Inl WrongType, 0, v)"

definition linsert ::
  "env \<Rightarrow> bytes \<Rightarrow> bool \<Rightarrow> bytes \<Rightarrow> bytes \<Rightarrow> 'f::linorder engine
   \<Rightarrow> (engine_error + int) \<times> 'f engine" where
  "linsert \<epsilon> key before pivot val e =
     engine_with_mut_delta \<epsilon> key (linsert_mut before pivot val) (Inr 0) e"

section \<open>Byte deltas\<close>

text \<open>
  What it takes for a closure that only handles lists: it rejects the other types unchanged, and
  on a list its delta is the change of the size of the elements.
\<close>

definition list_closure :: "('f::linorder kvalue \<Rightarrow> 'r \<times> int \<times> 'f kvalue) \<Rightarrow> bool" where
  "list_closure f \<longleftrightarrow>
     (\<forall>l. \<exists>l'. snd (snd (f (VList l))) = VList l' \<and>
        int (list_size l') = int (list_size l) + fst (snd (f (VList l))))
     \<and> (\<forall>v. type_name v \<noteq> ''list'' \<longrightarrow> snd (f v) = (0, v))"

lemma list_closure_exact:
  assumes "list_closure f"
  shows "delta_exact (\<lambda>v. snd (f v))"
proof (rule delta_exactI)
  fix v :: "'a kvalue" assume v: "value_ok v"
  have "int (approx_size (snd (snd (f v)))) = int (approx_size v) + fst (snd (f v))
      \<and> value_wf (snd (snd (f v)))"
  proof (cases "type_name v = ''list''")
    case True
    then obtain l where l: "v = VList l" by (cases v) auto
    from assms obtain l' where "snd (snd (f (VList l))) = VList l'"
      and "int (list_size l') = int (list_size l) + fst (snd (f (VList l)))"
      unfolding list_closure_def by blast
    with l show ?thesis by simp
  next
    case False
    with assms v show ?thesis by (simp add: list_closure_def value_ok_def)
  qed
  then show "int (approx_size (snd (snd (f v)))) = int (approx_size v) + fst (snd (f v))"
    and "value_wf (snd (snd (f v)))" by simp_all
qed

lemma type_name_cases [elim]:
  assumes "type_name v \<noteq> ''list''"
  obtains b where "v = VString b" | m where "v = VHash m" | s where "v = VSet s"
    | z where "v = VSortedSet z"
  using assms by (cases v) auto

lemma push_back_all_eq:
  "push_back_all vals (d, l) = (d + int (list_size vals), l @ vals)"
  by (induction vals arbitrary: d l) (simp_all add: algebra_simps)

lemma push_front_all_eq:
  "push_front_all vals (d, l) = (d + int (list_size vals), rev vals @ l)"
  by (induction vals arbitrary: d l) (simp_all add: algebra_simps)

lemma list_size_butlast:
  "l \<noteq> [] \<Longrightarrow> list_size l = list_size (butlast l) + length (last l) + 8"
  by (subst append_butlast_last_id [symmetric, of l]) (simp_all del: append_butlast_last_id)

lemma pop_end_size:
  "int (list_size (snd (pop_end d l))) = int (list_size l) + popped_delta (fst (pop_end d l))"
  using list_size_butlast [of l]
  by (cases d; cases l) (auto simp: pop_end_def pop_back_def popped_delta_def)

lemma elems_delta_eq: "elems_delta l = - int (list_size l)"
proof -
  have "foldl (\<lambda>d b. d - (int (length b) + 8)) d l = d - int (list_size l)" for d
    by (induction l arbitrary: d) simp_all
  then show ?thesis by (simp add: elems_delta_def)
qed

lemma ltrim_size:
  "int (list_size (drop s (take e l))) =
     int (list_size l) + (elems_delta (drop e l) + elems_delta (take s (take e l)))"
  using list_size_take_drop [of l e] list_size_take_drop [of "take e l" s]
  by (simp add: elems_delta_eq)

lemma retain_loop_size:
  "list_size l = list_size (snd (retain_loop val n l)) + fst (retain_loop val n l) * (length val + 8)"
  by (induction val n l rule: retain_loop.induct) (auto simp: Let_def split_def algebra_simps)

lemma retain_loop_int:
  "int (list_size l) =
     int (list_size (snd (retain_loop val n l))) + int (fst (retain_loop val n l)) * (int (length val) + 8)"
  using arg_cong [OF retain_loop_size [of l val n], of int] by (simp only: of_nat_simps of_nat_numeral)

lemma lset_size:
  assumes "0 \<le> i" and "i < int (length l)"
  shows "int (list_size (l[nat i := val])) =
    int (list_size l) + (int (length val) - int (length (l ! nat i)))"
proof -
  have "nat i < length l" using assms by simp
  from list_size_update [OF this, of val] show ?thesis by linarith
qed

lemma insert_size:
  "int (list_size (take n l @ val # drop n l)) = int (list_size l) + (int (length val) + 8)"
  using list_size_take_drop [of l n] by simp

lemma remove_at_size:
  "i < length l \<Longrightarrow> list_size l = list_size (remove_at i l) + length (l ! i) + 8"
  unfolding remove_at_def
  by (subst id_take_nth_drop [of i l]) simp_all

text \<open>The scan from the tail is the \<open>retain\<close> pass on the reversed list.\<close>

lemma tail_scan_fst: "set (tail_scan val n items) \<subseteq> fst ` set items"
  by (induction val n items rule: tail_scan.induct) auto

lemma tail_scan_desc: "sorted_wrt (>) (map fst items) \<Longrightarrow> sorted_wrt (>) (tail_scan val n items)"
proof (induction val n items rule: tail_scan.induct)
  case (2 val n idx b items)
  then show ?case using tail_scan_fst [of val "n - 1" items] by auto
qed simp

lemma remove_all_at_snoc:
  assumes "sorted_wrt (>) idxs" and "\<forall>i \<in> set idxs. i < length l"
  shows "remove_all_at idxs (l @ [b]) = remove_all_at idxs l @ [b]"
  using assms
proof (induction idxs arbitrary: l)
  case (Cons i idxs)
  then have "remove_at i (l @ [b]) = remove_at i l @ [b]" by (simp add: remove_at_def)
  moreover have "\<forall>j \<in> set idxs. j < length (remove_at i l)"
    using Cons.prems by (auto simp: remove_at_def)
  ultimately show ?case using Cons by simp
qed simp

lemma enumerate_desc: "sorted_wrt (>) (map fst (rev (List.enumerate n l)))"
  by (simp add: rev_map [symmetric] sorted_wrt_rev)

lemma tail_removal:
  "(let idxs = tail_scan val n (rev (List.enumerate 0 l)) in (length idxs, remove_all_at idxs l)) =
   (let (removed, l') = retain_loop val n (rev l) in (removed, rev l'))"
proof (induction l arbitrary: n rule: rev_induct)
  case (snoc b l)
  have enum: "rev (List.enumerate 0 (l @ [b])) = (length l, b) # rev (List.enumerate 0 l)"
    by (simp add: enumerate_append_eq)
  have less: "\<forall>i \<in> set (tail_scan val n (rev (List.enumerate 0 l))). i < length l" for n
  proof -
    have "fst ` set (rev (List.enumerate 0 l)) = set (map fst (List.enumerate 0 l))"
      by (simp only: set_map set_rev)
    also have "\<dots> = {0..<length l}" by simp
    finally have "fst ` set (rev (List.enumerate 0 l)) = {0..<length l}" .
    with tail_scan_fst [of val n "rev (List.enumerate 0 l)"] show ?thesis by auto
  qed
  have snoc': "remove_all_at (tail_scan val n (rev (List.enumerate 0 l))) (l @ [b]) =
      remove_all_at (tail_scan val n (rev (List.enumerate 0 l))) l @ [b]" for n
    by (rule remove_all_at_snoc [OF tail_scan_desc [OF enumerate_desc] less])
  have "tail_scan val 0 items = []" for items by (cases items) auto
  then show ?case
    using snoc [of n] snoc [of "n - 1"] snoc' [of n]
    by (auto simp: enum Let_def split_def prod_eq_iff remove_at_def)
qed simp

lemma lrem_of_tail:
  "cnt < 0 \<Longrightarrow> lrem_of cnt val l =
     (let (removed, l') = retain_loop val (nat (- cnt)) (rev l) in (removed, rev l'))"
  using tail_removal [of val "nat (- cnt)" l] by (simp add: lrem_of_def Let_def)

lemma lrem_of_size:
  "int (list_size (snd (lrem_of cnt val l))) =
     int (list_size l) + - int (fst (lrem_of cnt val l)) * (int (length val) + 8)"
proof (cases "cnt < 0")
  case True
  with retain_loop_int [of "rev l" val "nat (- cnt)"] show ?thesis
    by (simp add: lrem_of_tail Let_def split_def)
next
  case False
  then obtain n where "lrem_of cnt val l = retain_loop val n l"
    by (auto simp: lrem_of_def Let_def)
  with retain_loop_int [of l val n] show ?thesis by simp
qed

lemma list_closures [simp]:
  "list_closure (rpush_mut vals)"
  "list_closure (lpush_mut vals)"
  "list_closure (pop_mut d)"
  "list_closure (lset_mut i val)"
  "list_closure (ltrim_mut start stop)"
  "list_closure (lrem_mut cnt val)"
  "list_closure (push_one_mut d val)"
  "list_closure (linsert_mut before pivot val)"
proof -
  show "list_closure (rpush_mut vals)" and "list_closure (lpush_mut vals)"
    by (auto simp: list_closure_def push_back_all_eq push_front_all_eq)
  show "list_closure (pop_mut d)"
    by (auto simp: list_closure_def Let_def split_def pop_end_size)
  show "list_closure (lset_mut i val)"
    by (auto simp: list_closure_def Let_def lset_size)
  show "list_closure (ltrim_mut start stop)"
    by (auto simp: list_closure_def Let_def split_def ltrim_size)
  show "list_closure (lrem_mut cnt val)"
    by (auto simp: list_closure_def Let_def split_def lrem_of_size)
  show "list_closure (push_one_mut d val)"
    by (auto simp: list_closure_def split: list_end.split)
  show "list_closure (linsert_mut before pivot val)"
    by (auto simp: list_closure_def Let_def insert_size simp del: list_size_simps(3) split: option.split)
qed

lemmas list_exact [simp] = list_closures [THEN list_closure_exact]

section \<open>Effects on the live view\<close>

text \<open>
  The entry of a list: a key whose list is empty is not stored. A command on lists maps such an
  entry to such an entry.
\<close>

definition list_slot :: "bytes list \<Rightarrow> instant option \<Rightarrow> 'f slot option" where
  "list_slot l x = (if l = [] then None else Some (VList l, x))"

lemma list_slot_simps [simp]:
  "list_slot [] x = None"
  "l \<noteq> [] \<Longrightarrow> list_slot l x = Some (VList l, x)"
  by (simp_all add: list_slot_def)

lemma list_mutated:
  assumes "unlimited \<epsilon> e" and "live \<epsilon> e key = list_slot l x"
    and "g (VList l) = (r, d, VList l')" and "l = [] \<Longrightarrow> l' = []"
  shows "fst (engine_with_mut_delta \<epsilon> key g none e) = (if l = [] then none else r)"
    and "live \<epsilon> (snd (engine_with_mut_delta \<epsilon> key g none e)) = (live \<epsilon> e)(key := list_slot l' x)"
  using assms
  by (auto simp: engine_results ks_mutate_def list_slot_def fun_upd_idem_iff split: if_splits)

lemma list_rejected:
  assumes "unlimited \<epsilon> e" and "live \<epsilon> e key = Some (v, x)" and "g v = (r, d, v)"
  shows "fst (engine_with_mut_delta \<epsilon> key g none e) = r"
    and "live \<epsilon> (snd (engine_with_mut_delta \<epsilon> key g none e)) = live \<epsilon> e"
  using assms ks_mutate_same [OF assms(1,2)] by (simp_all add: engine_results)

lemma push_answers [simp]: "answers (rpush_mut vals)" "answers (lpush_mut vals)"
  unfolding answers_def by (intro allI, case_tac v; simp add: Let_def split_def)+

lemma value_ok_VList [simp]: "value_ok (VList l) \<longleftrightarrow> l \<noteq> []"
  by (simp add: value_ok_def)

lemma list_upsert:
  assumes "unlimited \<epsilon> e" and "live \<epsilon> e key = list_slot l x" and "l = [] \<Longrightarrow> x = None"
    and "delta_exact (\<lambda>v. snd (f v))" and "answers f"
    and "f (VList l) = (Inr (Some r), d, VList l')"
    and "l = [] \<Longrightarrow> l' = fresh \<and> r = n" and "l \<noteq> [] \<Longrightarrow> l' \<noteq> []"
  shows "fst (upsert \<epsilon> key f n (if fresh = [] then None else Some (VList fresh)) e) = Inr r"
    and "live \<epsilon> (snd (upsert \<epsilon> key f n (if fresh = [] then None else Some (VList fresh)) e)) =
           (live \<epsilon> e)(key := list_slot l' x)"
proof -
  let ?up = "upsert \<epsilon> key f n (if fresh = [] then None else Some (VList fresh)) e"
  have "fst ?up = Inr r \<and> live \<epsilon> (snd ?up) = (live \<epsilon> e)(key := list_slot l' x)"
  proof (cases "l = []")
    case True
    with assms upsert_missing [OF assms(1,4), of key n] show ?thesis
      by (auto simp: ks_set_def fun_upd_idem_iff)
  next
    case False
    then have "live \<epsilon> e key = Some (VList l, x)" using assms(2) by simp
    with upsert_present [OF assms(1,4,5) this, of n] assms(6,8) False show ?thesis
      by (simp add: ks_mutate_def)
  qed
  then show "fst ?up = Inr r" and "live \<epsilon> (snd ?up) = (live \<epsilon> e)(key := list_slot l' x)"
    by simp_all
qed

lemma rpush_view:
  assumes "unlimited \<epsilon> e" and "live \<epsilon> e key = list_slot l x" and "l = [] \<Longrightarrow> x = None"
  shows "fst (rpush \<epsilon> key vals e) = Inr (length l + length vals)
    \<and> live \<epsilon> (snd (rpush \<epsilon> key vals e)) = (live \<epsilon> e)(key := list_slot (l @ vals) x)"
  unfolding rpush_def
  using list_upsert [OF assms, of "rpush_mut vals" "length l + length vals" "int (list_size vals)"
      "l @ vals" vals "length vals"]
  by (simp add: push_back_all_eq)

lemma lpush_view:
  assumes "unlimited \<epsilon> e" and "live \<epsilon> e key = list_slot l x" and "l = [] \<Longrightarrow> x = None"
  shows "fst (lpush \<epsilon> key vals e) = Inr (length l + length vals)
    \<and> live \<epsilon> (snd (lpush \<epsilon> key vals e)) = (live \<epsilon> e)(key := list_slot (rev vals @ l) x)"
  unfolding lpush_def
  using list_upsert [OF assms, of "lpush_mut vals" "length l + length vals" "int (list_size vals)"
      "rev vals @ l" "rev vals" "length vals"]
  by (simp add: push_front_all_eq add.commute)

lemma pop_end_eq:
  "pop_end ListLeft l = (if l = [] then (None, []) else (Some (hd l), tl l))"
  "pop_end ListRight l = (if l = [] then (None, []) else (Some (last l), butlast l))"
  by (cases l) (simp_all add: pop_end_def pop_back_def)

lemma pop_view:
  assumes "unlimited \<epsilon> e" and "live \<epsilon> e key = list_slot l x"
  shows "fst (engine_with_mut_delta \<epsilon> key (pop_mut d) (Inr None) e) = Inr (fst (pop_end d l))
    \<and> live \<epsilon> (snd (engine_with_mut_delta \<epsilon> key (pop_mut d) (Inr None) e)) =
        (live \<epsilon> e)(key := list_slot (snd (pop_end d l)) x)"
  using list_mutated [OF assms, of "pop_mut d" "Inr (fst (pop_end d l))" _ "snd (pop_end d l)" "Inr None"]
  by (cases d) (auto simp: pop_end_eq split_def)

lemma ltrim_view:
  assumes "unlimited \<epsilon> e" and "live \<epsilon> e key = list_slot l x"
  shows "fst (ltrim \<epsilon> key start stop e) = Inr ()
    \<and> live \<epsilon> (snd (ltrim \<epsilon> key start stop e)) = (live \<epsilon> e)(key := list_slot (lrange_of start stop l) x)"
proof -
  obtain s n where n: "normalize_range (int (length l)) start stop = (s, n)" by (metis surj_pair)
  have "drop s (take n l) = lrange_of start stop l"
    by (simp add: lrange_of_def n drop_take)
  then have "ltrim_mut start stop (VList l) =
      (Inr (), elems_delta (drop n l) + elems_delta (take s (take n l)), VList (lrange_of start stop l))"
    by (simp add: n Let_def)
  from list_mutated [where g = "ltrim_mut start stop" and none = "Inr ()", OF assms this]
  show ?thesis by (auto simp: ltrim_def lrange_of_def split_def)
qed

lemma lrem_view:
  assumes "unlimited \<epsilon> e" and "live \<epsilon> e key = list_slot l x"
  shows "fst (lrem \<epsilon> key cnt val e) = Inr (fst (lrem_of cnt val l))
    \<and> live \<epsilon> (snd (lrem \<epsilon> key cnt val e)) = (live \<epsilon> e)(key := list_slot (snd (lrem_of cnt val l)) x)"
proof -
  have eq: "lrem_mut cnt val (VList l) =
      (Inr (fst (lrem_of cnt val l)), - int (fst (lrem_of cnt val l)) * (int (length val) + 8),
       VList (snd (lrem_of cnt val l)))"
    by (simp add: Let_def split_def)
  have "lrem_of cnt val [] = (0, [])" by (simp add: lrem_of_def)
  then show ?thesis
    using list_mutated [where g = "lrem_mut cnt val" and none = "Inr 0", OF assms eq]
    by (auto simp: lrem_def)
qed

lemma push_one_view:
  assumes "unlimited \<epsilon> e" and "live \<epsilon> e key = list_slot l x" and "l = [] \<Longrightarrow> x = None"
  shows "fst (push_one \<epsilon> key d val e) = Inr ()
    \<and> live \<epsilon> (snd (push_one \<epsilon> key d val e)) =
        (live \<epsilon> e)(key := list_slot (case d of ListLeft \<Rightarrow> val # l | ListRight \<Rightarrow> l @ [val]) x)"
proof (cases "l = []")
  case True
  with assms show ?thesis
    by (cases d) (auto simp: push_one_def Let_def split_def engine_results ks_mutate_None ks_set_def)
next
  case False
  with assms show ?thesis
    by (cases d) (simp_all add: push_one_def Let_def split_def engine_results ks_mutate_def)
qed

lemma lrange_view:
  fixes e :: "'f::linorder engine"
  shows "live \<epsilon> e key = list_slot l x \<Longrightarrow>
    fst (lrange \<epsilon> key start stop e) = Inr (lrange_of start stop l)"
  by (auto simp: lrange_def engine_results list_slot_def lrange_of_def split_def split: if_splits)

lemma lrange_of_empty [simp]: "lrange_of start stop [] = []"
  by (simp add: lrange_of_def split_def)

text \<open>The indices a Redis-style range names, counted from the end when negative.\<close>

definition range_indices :: "int \<Rightarrow> int \<Rightarrow> nat \<Rightarrow> nat list" where
  "range_indices start stop len =
     (let a = (if start < 0 then int len + start else start);
          b = (if stop < 0 then int len + stop else stop)
      in filter (\<lambda>i. a \<le> int i \<and> int i \<le> b) [0..<len])"

lemma filter_interval:
  "filter (\<lambda>i. a \<le> int i \<and> int i < b) [0..<n] = [nat a..<min n (nat b)]"
proof (induction n)
  case (Suc n)
  show ?case
  proof (cases "a \<le> int n \<and> int n < b")
    case True
    then have "min (Suc n) (nat b) = Suc n" "min n (nat b) = n" "nat a \<le> n" by auto
    with Suc True show ?thesis by simp
  next
    case False
    then consider "n < nat a" | "nat b \<le> n" by linarith
    then have "[nat a..<min n (nat b)] = [nat a..<min (Suc n) (nat b)]" by cases auto
    with Suc False show ?thesis by simp
  qed
qed simp

lemma take_drop_nth: "take (e - s) (drop s l) = map ((!) l) [s..<min (length l) e]"
proof (rule nth_equalityI)
  fix i assume "i < length (take (e - s) (drop s l))"
  then have "i < min (length l) e - s" "i < e - s" "s \<le> length l" by auto
  then show "take (e - s) (drop s l) ! i = map ((!) l) [s..<min (length l) e] ! i"
    by (simp add: nth_map_upt del: min_less_iff_conj)
qed auto

lemma slice_norm:
  "(let (s, e) = (if S \<ge> E then (0, 0) else (nat S, nat E)) in take (e - s) (drop s l)) =
     map ((!) l) [nat S..<min (length l) (nat E)]"
proof (cases "E \<le> S")
  case True
  then have "nat E \<le> nat S" by (rule nat_mono)
  with True show ?thesis by simp
next
  case False
  then show ?thesis by (simp add: take_drop_nth)
qed

lemma lrange_of_indices:
  assumes "- int (length l) \<le> stop"
  shows "lrange_of start stop l = map ((!) l) (range_indices start stop (length l))"
proof -
  let ?n = "int (length l)"
  let ?a = "if start < 0 then ?n + start else start"
    and ?b = "if stop < 0 then ?n + stop else stop"
  have "range_indices start stop (length l) = [nat ?a..<min (length l) (nat (?b + 1))]"
    unfolding range_indices_def Let_def
    using filter_interval [of ?a "?b + 1" "length l"] by (simp only: zless_add1_eq order_le_less)
  moreover have "lrange_of start stop l = map ((!) l) [nat ?a..<min (length l) (nat (?b + 1))]"
  proof -
    let ?S = "if start < 0 then max (?n + start) 0 else min start ?n"
      and ?E = "(if stop < 0 then max (?n + stop) 0 else min stop ?n) + 1"
    have "lrange_of start stop l = map ((!) l) [nat ?S..<min (length l) (nat ?E)]"
      unfolding lrange_of_def normalize_range_def Let_def by (rule slice_norm [unfolded Let_def])
    moreover have lo: "nat (max i 0) = nat i" for i by simp
    moreover have "min (length l) (nat ?E) = min (length l) (nat (?b + 1))"
      using assms by (cases "stop < 0") (simp add: max_absorb1, auto)
    moreover have "[nat ?S..<min (length l) k] = [nat ?a..<min (length l) k]" for k
      using lo by (cases "start < 0"; cases "start \<le> ?n") simp_all
    ultimately show ?thesis by (simp only:)
  qed
  ultimately show ?thesis by (simp only:)
qed

lemma lrange_of_below:
  assumes "stop < - int (length l)"
  shows "lrange_of start stop l =
    (if start \<le> - int (length l) \<or> start = 0 then take 1 l else [])"
  using assms
  by (cases "l = []") (auto simp: lrange_of_def normalize_range_def Let_def Suc_le_eq)

lemma retain_loop_0: "retain_loop val 0 l = (0, l)"
  by (induction l) (simp_all add: Let_def split_def)

lemma retain_loop_prefix:
  "\<exists>a b. l = a @ b \<and> retain_loop val n l = (count_list a val, filter (\<lambda>x. x \<noteq> val) a @ b)
     \<and> count_list a val = min n (count_list l val)"
proof (induction l arbitrary: n)
  case (Cons c l)
  show ?case
  proof (cases n)
    case 0
    then show ?thesis by (intro exI [of _ "[]"] exI [of _ "c # l"]) (simp add: retain_loop_0)
  next
    case (Suc m)
    obtain a b where ab: "l = a @ b"
      "retain_loop val (if c = val then m else n) l = (count_list a val, filter (\<lambda>x. x \<noteq> val) a @ b)"
      "count_list a val = min (if c = val then m else n) (count_list l val)"
      using Cons.IH by blast
    have "retain_loop val n (c # l) = (count_list (c # a) val, filter (\<lambda>x. x \<noteq> val) (c # a) @ b)"
      using ab(2) Suc by auto
    moreover have "count_list (c # a) val = min n (count_list (c # l) val)"
      using ab(3) Suc by simp
    ultimately show ?thesis using ab(1) by (metis append_Cons)
  qed
qed simp

lemma filter_no_count: "count_list l val = 0 \<Longrightarrow> filter (\<lambda>x. x \<noteq> val) l = l"
  by (induction l) (auto split: if_splits)

lemma count_list_le: "count_list l val \<le> length l"
  by (induction l) auto

lemma lrem_of_head:
  assumes "cnt > 0"
  shows "\<exists>a b. l = a @ b \<and> lrem_of cnt val l = (count_list a val, filter (\<lambda>y. y \<noteq> val) a @ b)
    \<and> count_list a val = min (nat cnt) (count_list l val)"
proof -
  have "lrem_of cnt val l = retain_loop val (nat cnt) l" using assms by (simp add: lrem_of_def)
  with retain_loop_prefix [of l val "nat cnt"] show ?thesis by simp
qed

lemma lrem_of_last:
  assumes "cnt < 0"
  shows "\<exists>a b. l = a @ b \<and> lrem_of cnt val l = (count_list b val, a @ filter (\<lambda>y. y \<noteq> val) b)
    \<and> count_list b val = min (nat (- cnt)) (count_list l val)"
proof -
  obtain a b where ab: "rev l = a @ b"
    "retain_loop val (nat (- cnt)) (rev l) = (count_list a val, filter (\<lambda>x. x \<noteq> val) a @ b)"
    "count_list a val = min (nat (- cnt)) (count_list (rev l) val)"
    using retain_loop_prefix by blast
  from ab(1) have "l = rev b @ rev a" by (metis rev_append rev_rev_ident)
  moreover have "lrem_of cnt val l = (count_list (rev a) val, rev b @ filter (\<lambda>x. x \<noteq> val) (rev a))"
    by (simp add: lrem_of_tail [OF assms] ab(2) rev_filter)
  moreover have "count_list (rev a) val = min (nat (- cnt)) (count_list l val)"
    using ab(3) by simp
  ultimately show ?thesis by blast
qed

lemma lrem_of_all:
  assumes "length l < 2 ^ 64"
  shows "lrem_of 0 val l = (count_list l val, filter (\<lambda>y. y \<noteq> val) l)"
proof -
  obtain a b where ab: "l = a @ b"
    "retain_loop val (2 ^ 64 - 1) l = (count_list a val, filter (\<lambda>x. x \<noteq> val) a @ b)"
    "count_list a val = min (2 ^ 64 - 1) (count_list l val)"
    using retain_loop_prefix by blast
  have "count_list l val \<le> 2 ^ 64 - 1"
    using assms count_list_le [of l val] by simp
  with ab(3) have "count_list a val = count_list l val" by (simp only: min_absorb2)
  moreover from this ab(1) have "filter (\<lambda>x. x \<noteq> val) a @ b = filter (\<lambda>x. x \<noteq> val) l"
    using filter_no_count [of b val] by simp
  ultimately show ?thesis using ab(2) by (simp add: lrem_of_def)
qed

lemma lmove_other:
  assumes "unlimited \<epsilon> e" and "source \<noteq> destination"
    and "live \<epsilon> e source = list_slot s x" and "s \<noteq> []"
    and "live \<epsilon> e destination = list_slot d y" and "d = [] \<Longrightarrow> y = None"
  shows "fst (lmove \<epsilon> source destination from to e) = Inr (fst (pop_end from s))
    \<and> live \<epsilon> (snd (lmove \<epsilon> source destination from to e)) = (live \<epsilon> e)
        (source := list_slot (snd (pop_end from s)) x,
         destination := list_slot (case to of ListLeft \<Rightarrow> the (fst (pop_end from s)) # d
                                   | ListRight \<Rightarrow> d @ [the (fst (pop_end from s))]) y)"
proof -
  let ?f = "\<lambda>v. case v of None \<Rightarrow> True | Some (VList _) \<Rightarrow> True | Some _ \<Rightarrow> False"
  let ?e1 = "snd (engine_with_ref \<epsilon> destination ?f e)"
  let ?e2 = "snd (engine_with_mut_delta \<epsilon> source (pop_mut from) (Inr None) ?e1)"
  obtain val s' where pop: "pop_end from s = (Some val, s')"
    using assms(4) by (cases "from") (auto simp: pop_end_eq)
  have dest: "fst (engine_with_ref \<epsilon> destination ?f e)"
    using assms(5) by (auto simp: engine_results list_slot_def split: if_splits)
  have 1: "unlimited \<epsilon> ?e1" "live \<epsilon> ?e1 = live \<epsilon> e" using assms(1) by simp_all
  then have pv: "fst (engine_with_mut_delta \<epsilon> source (pop_mut from) (Inr None) ?e1) = Inr (Some val)"
    "live \<epsilon> ?e2 = (live \<epsilon> e)(source := list_slot s' x)"
    using pop_view [of \<epsilon> ?e1 source s x "from"] assms(3) pop by simp_all
  have 2: "unlimited \<epsilon> ?e2" using 1(1) by simp
  have "live \<epsilon> ?e2 destination = list_slot d y" using pv(2) assms(2,5) by simp
  from push_one_view [OF 2 this assms(6), of to val] show ?thesis
    using dest pv pop by (cases to) (simp_all add: lmove_def Let_def split_def)
qed

lemma lmove_rotate:
  assumes "unlimited \<epsilon> e" and "live \<epsilon> e key = list_slot s x" and "s \<noteq> []"
  shows "fst (lmove \<epsilon> key key from to e) = Inr (fst (pop_end from s))
    \<and> live \<epsilon> (snd (lmove \<epsilon> key key from to e)) = (live \<epsilon> e)
        (key := list_slot (case to of ListLeft \<Rightarrow> the (fst (pop_end from s)) # snd (pop_end from s)
                           | ListRight \<Rightarrow> snd (pop_end from s) @ [the (fst (pop_end from s))])
                 (if length s = 1 then None else x))"
proof -
  let ?f = "\<lambda>v. case v of None \<Rightarrow> True | Some (VList _) \<Rightarrow> True | Some _ \<Rightarrow> False"
  let ?e1 = "snd (engine_with_ref \<epsilon> key ?f e)"
  let ?e2 = "snd (engine_with_mut_delta \<epsilon> key (pop_mut from) (Inr None) ?e1)"
  obtain val s' where pop: "pop_end from s = (Some val, s')" and len: "s' = [] \<longleftrightarrow> length s = 1"
    using assms(3) by (cases "from"; cases s) (auto simp: pop_end_eq)
  let ?y = "if length s = 1 then None else x"
  have dest: "fst (engine_with_ref \<epsilon> key ?f e)"
    using assms(2,3) by (auto simp: engine_results list_slot_def split: if_splits)
  have 1: "unlimited \<epsilon> ?e1" "live \<epsilon> ?e1 = live \<epsilon> e" using assms(1) by simp_all
  then have pv: "fst (engine_with_mut_delta \<epsilon> key (pop_mut from) (Inr None) ?e1) = Inr (Some val)"
    "live \<epsilon> ?e2 = (live \<epsilon> e)(key := list_slot s' x)"
    using pop_view [of \<epsilon> ?e1 key s x "from"] assms(2) pop by simp_all
  have 2: "unlimited \<epsilon> ?e2" using 1(1) by simp
  have "live \<epsilon> ?e2 key = list_slot s' ?y" using pv(2) len by (auto simp: list_slot_def)
  moreover have "s' = [] \<Longrightarrow> ?y = None" using len by simp
  ultimately show ?thesis
    using push_one_view [OF 2, of key s' ?y to val] dest pv pop
    by (cases to) (simp_all add: lmove_def Let_def split_def)
qed

section \<open>Properties\<close>

text \<open>
  C10: The four push and pop commands are those of a double-ended queue. On a key that is missing
  or holds the list \<open>l\<close>: \<open>RPUSH\<close> appends, \<open>LPUSH\<close> prepends in argument order (the last argument
  first), both answer the new length; \<open>RPOP\<close> and \<open>LPOP\<close> answer and remove the end element. The
  deadline is kept, a key whose list becomes empty is gone, and no other key changes.
\<close>

theorem list_commands_deque:
  assumes "unlimited \<epsilon> e" and "live \<epsilon> e key = list_slot l x" and "l = [] \<Longrightarrow> x = None"
  shows "fst (rpush \<epsilon> key vals e) = Inr (length l + length vals)
    \<and> live \<epsilon> (snd (rpush \<epsilon> key vals e)) = (live \<epsilon> e)(key := list_slot (l @ vals) x)
    \<and> fst (lpush \<epsilon> key vals e) = Inr (length l + length vals)
    \<and> live \<epsilon> (snd (lpush \<epsilon> key vals e)) = (live \<epsilon> e)(key := list_slot (rev vals @ l) x)
    \<and> fst (rpop \<epsilon> key e) = Inr (if l = [] then None else Some (last l))
    \<and> live \<epsilon> (snd (rpop \<epsilon> key e)) = (live \<epsilon> e)(key := list_slot (butlast l) x)
    \<and> fst (lpop \<epsilon> key e) = Inr (if l = [] then None else Some (hd l))
    \<and> live \<epsilon> (snd (lpop \<epsilon> key e)) = (live \<epsilon> e)(key := list_slot (tl l) x)"
  using rpush_view [OF assms] lpush_view [OF assms]
    pop_view [OF assms(1,2), of ListLeft] pop_view [OF assms(1,2), of ListRight]
  by (auto simp: rpop_def lpop_def pop_end_eq)

theorem list_commands_deque_witness:
  "fst (rpush sample_env ''a'' [''1'', ''2''] (engine_new sample_env :: nat engine)) = Inr 2
   \<and> live sample_env (snd (lpush sample_env ''a'' [''1'', ''2''] (engine_new sample_env :: nat engine))) =
       [''a'' \<mapsto> (VList [''2'', ''1''], None)]"
  using list_commands_deque [of sample_env "engine_new sample_env :: nat engine" "''a''" "[]" None
      "[''1'', ''2'']"]
  by (simp add: unlimited_new engine_view_new)

text \<open>
  C11: \<open>LTRIM\<close> keeps exactly what \<open>LRANGE\<close> returns. For a stop index at or after the first element
  the range is the elements at the indices between start and stop, negative indices counted from
  the end. For a stop index before the first element the code clamps it to the first element, so
  that a range starting there returns that one element.
\<close>

theorem ltrim_keeps_lrange:
  assumes "unlimited \<epsilon> e" and "live \<epsilon> e key = list_slot l x"
  shows "fst (lrange \<epsilon> key start stop e) = Inr (lrange_of start stop l)
    \<and> live \<epsilon> (snd (ltrim \<epsilon> key start stop e)) =
        (live \<epsilon> e)(key := list_slot (lrange_of start stop l) x)
    \<and> lrange_of start stop l =
        (if - int (length l) \<le> stop then map ((!) l) (range_indices start stop (length l))
         else if start \<le> - int (length l) \<or> start = 0 then take 1 l else [])"
  using lrange_view [OF assms(2)] ltrim_view [OF assms] lrange_of_indices [of l stop start]
    lrange_of_below [of stop l start]
  by (simp add: not_le)

theorem ltrim_keeps_lrange_witness:
  "live sample_env (snd (ltrim sample_env ''a'' 1 (- 1)
     (snd (rpush sample_env ''a'' [''1'', ''2'', ''3''] (engine_new sample_env :: nat engine))))) =
   [''a'' \<mapsto> (VList [''2'', ''3''], None)]"
proof -
  let ?e = "snd (rpush sample_env ''a'' [''1'', ''2'', ''3''] (engine_new sample_env :: nat engine))"
  have "unlimited sample_env ?e" by (simp add: rpush_def unlimited_new)
  moreover have v: "live sample_env ?e = [''a'' \<mapsto> (VList [''1'', ''2'', ''3''], None)]"
    using rpush_view [of sample_env "engine_new sample_env :: nat engine" "''a''" "[]" None
        "[''1'', ''2'', ''3'']"]
    by (simp add: unlimited_new engine_view_new)
  ultimately show ?thesis
    using ltrim_keeps_lrange [of sample_env ?e "''a''" "[''1'', ''2'', ''3'']" None 1 "- 1"]
    by (simp add: range_indices_def upt_rec)
qed

text \<open>
  C12: \<open>LREM\<close> removes the occurrences it is asked for. With a positive count they are the first
  ones, with a negative count the last ones, with zero all of them; the reply is how many were
  removed, which is the count or the number of occurrences if that is less. Everything else stays
  in order, and the two scans of the code remove from opposite ends.
\<close>

theorem lrem_removes:
  assumes "unlimited \<epsilon> e" and "live \<epsilon> e key = list_slot l x" and "length l < 2 ^ 64"
  shows "(cnt > 0 \<longrightarrow> (\<exists>a b. l = a @ b \<and> count_list a val = min (nat cnt) (count_list l val)
          \<and> fst (lrem \<epsilon> key cnt val e) = Inr (count_list a val)
          \<and> live \<epsilon> (snd (lrem \<epsilon> key cnt val e)) =
              (live \<epsilon> e)(key := list_slot (filter (\<lambda>y. y \<noteq> val) a @ b) x)))
    \<and> (cnt < 0 \<longrightarrow> (\<exists>a b. l = a @ b \<and> count_list b val = min (nat (- cnt)) (count_list l val)
          \<and> fst (lrem \<epsilon> key cnt val e) = Inr (count_list b val)
          \<and> live \<epsilon> (snd (lrem \<epsilon> key cnt val e)) =
              (live \<epsilon> e)(key := list_slot (a @ filter (\<lambda>y. y \<noteq> val) b) x)))
    \<and> (cnt = 0 \<longrightarrow> fst (lrem \<epsilon> key cnt val e) = Inr (count_list l val)
          \<and> live \<epsilon> (snd (lrem \<epsilon> key cnt val e)) =
              (live \<epsilon> e)(key := list_slot (filter (\<lambda>y. y \<noteq> val) l) x))"
proof (intro conjI impI)
  assume "cnt > 0"
  from lrem_of_head [OF this, of l val] lrem_view [OF assms(1,2), of cnt val]
  show "\<exists>a b. l = a @ b \<and> count_list a val = min (nat cnt) (count_list l val)
      \<and> fst (lrem \<epsilon> key cnt val e) = Inr (count_list a val)
      \<and> live \<epsilon> (snd (lrem \<epsilon> key cnt val e)) =
          (live \<epsilon> e)(key := list_slot (filter (\<lambda>y. y \<noteq> val) a @ b) x)"
    by (metis fst_conv snd_conv)
next
  assume "cnt < 0"
  from lrem_of_last [OF this, of l val] lrem_view [OF assms(1,2), of cnt val]
  show "\<exists>a b. l = a @ b \<and> count_list b val = min (nat (- cnt)) (count_list l val)
      \<and> fst (lrem \<epsilon> key cnt val e) = Inr (count_list b val)
      \<and> live \<epsilon> (snd (lrem \<epsilon> key cnt val e)) =
          (live \<epsilon> e)(key := list_slot (a @ filter (\<lambda>y. y \<noteq> val) b) x)"
    by (metis fst_conv snd_conv)
next
  assume "cnt = 0"
  with lrem_of_all [OF assms(3), of val] lrem_view [OF assms(1,2), of 0 val]
  show "fst (lrem \<epsilon> key cnt val e) = Inr (count_list l val)"
    and "live \<epsilon> (snd (lrem \<epsilon> key cnt val e)) =
        (live \<epsilon> e)(key := list_slot (filter (\<lambda>y. y \<noteq> val) l) x)"
    by simp_all
qed

theorem lrem_removes_witness:
  "fst (lrem sample_env ''a'' 0 ''1''
     (snd (rpush sample_env ''a'' [''1'', ''2'', ''1''] (engine_new sample_env :: nat engine)))) = Inr 2"
proof -
  let ?e = "snd (rpush sample_env ''a'' [''1'', ''2'', ''1''] (engine_new sample_env :: nat engine))"
  have "unlimited sample_env ?e" by (simp add: rpush_def unlimited_new)
  moreover have "live sample_env ?e ''a'' = list_slot [''1'', ''2'', ''1''] None"
    using rpush_view [of sample_env "engine_new sample_env :: nat engine" "''a''" "[]" None
        "[''1'', ''2'', ''1'']"]
    by (simp add: unlimited_new engine_view_new)
  ultimately show ?thesis
    using lrem_removes [of sample_env ?e "''a''" "[''1'', ''2'', ''1'']" None 0 "''1''"] by simp
qed



end
