(* ===== verification/Rm_Hash.thy ===== *)
theory Rm_Hash
  imports Rm_Command
begin

text \<open>
  The hash commands of \<open>crates/engine/src/commands/hash.rs\<close>. The lemmas show that the closures
  report their byte deltas exactly and that the commands are those of a finite map from fields to
  values: the abstraction \<open>hash_map\<close> of a key is the map its hash denotes.
\<close>

section \<open>Operations\<close>

fun hset_mut :: "bytes \<Rightarrow> bytes \<Rightarrow> ('f::linorder, engine_error + bool option) mutator" where
  "hset_mut field val (VHash m) =
     (let old = map_of m field;
          m' = AList.update field val m;
          size_delta = (case old of
             None \<Rightarrow> int (length field) + int (length val) + 16
           | Some old_val \<Rightarrow> int (length val) - int (length old_val))
      in (Inr (Some (old = None)), size_delta, VHash m'))"
| "hset_mut field val v = (Inl WrongType, 0, v)"

definition hset ::
  "env \<Rightarrow> bytes \<Rightarrow> bytes \<Rightarrow> bytes \<Rightarrow> 'f::linorder engine \<Rightarrow> (engine_error + bool) \<times> 'f engine" where
  "hset \<epsilon> key field val e =
     upsert \<epsilon> key (hset_mut field val) True (Some (VHash (AList.update field val []))) e"

definition hget ::
  "env \<Rightarrow> bytes \<Rightarrow> bytes \<Rightarrow> 'f engine \<Rightarrow> (engine_error + bytes option) \<times> 'f engine" where
  "hget \<epsilon> key field e = engine_with_ref \<epsilon> key
     (\<lambda>v. case v of None \<Rightarrow> Inr None | Some (VHash m) \<Rightarrow> Inr (map_of m field) | Some _ \<Rightarrow> Inl WrongType) e"

fun hdel_loop ::
  "bytes list \<Rightarrow> int \<times> int \<times> (bytes, bytes) hmap \<Rightarrow> int \<times> int \<times> (bytes, bytes) hmap" where
  "hdel_loop [] acc = acc"
| "hdel_loop (field # fs) (removed, size_delta, m) =
     (case map_of m field of
        Some old_val \<Rightarrow>
          hdel_loop fs
            (removed + 1, size_delta - (int (length field) + int (length old_val) + 16),
             AList.delete field m)
      | None \<Rightarrow> hdel_loop fs (removed, size_delta, m))"

fun hdel_mut :: "bytes list \<Rightarrow> ('f::linorder, engine_error + int) mutator" where
  "hdel_mut fs (VHash m) =
     (let (removed, size_delta, m') = hdel_loop fs (0, 0, m)
      in (Inr removed, size_delta, VHash m'))"
| "hdel_mut fs v = (Inl WrongType, 0, v)"

definition hdel ::
  "env \<Rightarrow> bytes \<Rightarrow> bytes list \<Rightarrow> 'f::linorder engine \<Rightarrow> (engine_error + int) \<times> 'f engine" where
  "hdel \<epsilon> key fs e = engine_with_mut_delta \<epsilon> key (hdel_mut fs) (Inr 0) e"

definition hgetall ::
  "env \<Rightarrow> bytes \<Rightarrow> 'f::linorder engine \<Rightarrow> (engine_error + (bytes, bytes) hmap) \<times> 'f engine" where
  "hgetall \<epsilon> key e =
     (let (v, e1) = engine_get \<epsilon> key e
      in (case v of None \<Rightarrow> Inr [] | Some (VHash m) \<Rightarrow> Inr m | Some _ \<Rightarrow> Inl WrongType, e1))"

definition hexists :: "env \<Rightarrow> bytes \<Rightarrow> bytes \<Rightarrow> 'f engine \<Rightarrow> (engine_error + bool) \<times> 'f engine" where
  "hexists \<epsilon> key field e = engine_with_ref \<epsilon> key
     (\<lambda>v. case v of None \<Rightarrow> Inr False | Some (VHash m) \<Rightarrow> Inr (map_of m field \<noteq> None)
          | Some _ \<Rightarrow> Inl WrongType) e"

definition hlen :: "env \<Rightarrow> bytes \<Rightarrow> 'f engine \<Rightarrow> (engine_error + nat) \<times> 'f engine" where
  "hlen \<epsilon> key e = engine_with_ref \<epsilon> key
     (\<lambda>v. case v of None \<Rightarrow> Inr 0 | Some (VHash m) \<Rightarrow> Inr (length m) | Some _ \<Rightarrow> Inl WrongType) e"

fun hincrby_mut :: "bytes \<Rightarrow> int \<Rightarrow> ('f::linorder, engine_error + int option) mutator" where
  "hincrby_mut field delta (VHash m) =
     (let old = map_of m field
      in case (case old of Some b \<Rightarrow> parse_i64_arg b | None \<Rightarrow> Some 0) of
           None \<Rightarrow> (Inl NotAnInteger, 0, VHash m)
         | Some current \<Rightarrow>
             (let old_len = map_option length old
              in case checked_add_i64 current delta of
                   None \<Rightarrow> (Inl IncrementOverflow, 0, VHash m)
                 | Some next \<Rightarrow>
                     (let next_bytes = show_int next;
                          size_delta = (case old_len of
                             None \<Rightarrow> int (length field) + int (length next_bytes) + 16
                           | Some len \<Rightarrow> int (length next_bytes) - int len)
                      in (Inr (Some next), size_delta, VHash (AList.update field next_bytes m)))))"
| "hincrby_mut field delta v = (Inl WrongType, 0, v)"

definition hincrby ::
  "env \<Rightarrow> bytes \<Rightarrow> bytes \<Rightarrow> int \<Rightarrow> 'f::linorder engine \<Rightarrow> (engine_error + int) \<times> 'f engine" where
  "hincrby \<epsilon> key field delta e =
     upsert \<epsilon> key (hincrby_mut field delta) delta
       (Some (VHash (AList.update field (show_int delta) []))) e"

definition hkeys ::
  "env \<Rightarrow> bytes \<Rightarrow> 'f::linorder engine \<Rightarrow> (engine_error + bytes list) \<times> 'f engine" where
  "hkeys \<epsilon> key e = (let (r, e1) = hgetall \<epsilon> key e in (map_sum id (map fst) r, e1))"

definition hvals ::
  "env \<Rightarrow> bytes \<Rightarrow> 'f::linorder engine \<Rightarrow> (engine_error + bytes list) \<times> 'f engine" where
  "hvals \<epsilon> key e = (let (r, e1) = hgetall \<epsilon> key e in (map_sum id (map snd) r, e1))"

definition hmget ::
  "env \<Rightarrow> bytes \<Rightarrow> bytes list \<Rightarrow> 'f engine \<Rightarrow> (engine_error + bytes option list) \<times> 'f engine" where
  "hmget \<epsilon> key fs e = engine_with_ref \<epsilon> key
     (\<lambda>v. case v of None \<Rightarrow> Inr (map (\<lambda>_. None) fs) | Some (VHash m) \<Rightarrow> Inr (map (map_of m) fs)
          | Some _ \<Rightarrow> Inl WrongType) e"

fun hsetnx_mut :: "bytes \<Rightarrow> bytes \<Rightarrow> ('f::linorder, engine_error + bool option) mutator" where
  "hsetnx_mut field val (VHash m) =
     (if map_of m field \<noteq> None then (Inr (Some False), 0, VHash m)
      else let size_delta = int (length field) + int (length val) + 16
           in (Inr (Some True), size_delta, VHash (AList.update field val m)))"
| "hsetnx_mut field val v = (Inl WrongType, 0, v)"

definition hsetnx ::
  "env \<Rightarrow> bytes \<Rightarrow> bytes \<Rightarrow> bytes \<Rightarrow> 'f::linorder engine \<Rightarrow> (engine_error + bool) \<times> 'f engine" where
  "hsetnx \<epsilon> key field val e =
     upsert \<epsilon> key (hsetnx_mut field val) True (Some (VHash (AList.update field val []))) e"

section \<open>Byte deltas\<close>

lemma hash_size_update_new:
  "map_of m f = None \<Longrightarrow>
   int (hash_size (AList.update f v m)) = int (hash_size m) + (int (length f) + int (length v) + 16)"
  by (simp add: hash_size_def hm_sum_update_new)

lemma hash_size_update:
  assumes "map_of m f = Some old"
  shows "int (hash_size (AList.update f v m)) = int (hash_size m) + (int (length v) - int (length old))"
  using hm_sum_update [OF assms, of "\<lambda>k v. length k + length v + 16" v] by (simp add: hash_size_def)

lemma hash_size_delete:
  assumes "hm_ok m" and "map_of m f = Some old"
  shows "int (hash_size (AList.delete f m)) = int (hash_size m) - (int (length f) + int (length old) + 16)"
  using hm_sum_delete [OF assms, of "\<lambda>k v. length k + length v + 16"] by (simp add: hash_size_def)

lemma hdel_loop_size:
  assumes "hm_ok m" and "hdel_loop fs (r, d, m) = (r', d', m')"
  shows "int (hash_size m') - d' = int (hash_size m) - d \<and> hm_ok m'"
  using assms
proof (induction fs arbitrary: r d m)
  case (Cons f fs)
  show ?case
  proof (cases "map_of m f")
    case None
    with Cons show ?thesis by simp
  next
    case (Some old)
    with Cons.IH [of "AList.delete f m"] Cons.prems hash_size_delete [OF _ Some] show ?thesis
      by fastforce
  qed
qed simp

lemma hset_mut_exact [simp]: "delta_exact (\<lambda>v. snd (hset_mut f w v))"
proof (rule delta_exactI)
  fix v :: "'a kvalue" assume "value_ok v"
  then show "int (approx_size (snd (snd (hset_mut f w v)))) = int (approx_size v) + fst (snd (hset_mut f w v))"
    and "value_wf (snd (snd (hset_mut f w v)))"
    by (cases v; simp add: value_ok_def Let_def hash_size_update hash_size_update_new split: option.split)+
qed

lemma hsetnx_mut_exact [simp]: "delta_exact (\<lambda>v. snd (hsetnx_mut f w v))"
proof (rule delta_exactI)
  fix v :: "'a kvalue" assume v: "value_ok v"
  have "int (approx_size (snd (snd (hsetnx_mut f w v)))) = int (approx_size v) + fst (snd (hsetnx_mut f w v))
      \<and> value_wf (snd (snd (hsetnx_mut f w v)))"
  proof (cases v)
    case (VHash m)
    with v show ?thesis
      by (cases "map_of m f") (simp_all add: value_ok_def Let_def hash_size_update_new)
  qed (use v in \<open>simp_all add: value_ok_def\<close>)
  then show "int (approx_size (snd (snd (hsetnx_mut f w v)))) = int (approx_size v) + fst (snd (hsetnx_mut f w v))"
    and "value_wf (snd (snd (hsetnx_mut f w v)))" by simp_all
qed

lemma hincrby_mut_exact [simp]: "delta_exact (\<lambda>v. snd (hincrby_mut f d v))"
proof (rule delta_exactI)
  fix v :: "'a kvalue" assume "value_ok v"
  then show "int (approx_size (snd (snd (hincrby_mut f d v)))) = int (approx_size v) + fst (snd (hincrby_mut f d v))"
    and "value_wf (snd (snd (hincrby_mut f d v)))"
    by (cases v; simp add: value_ok_def Let_def hash_size_update hash_size_update_new split: option.split)+
qed

lemma hdel_mut_exact [simp]: "delta_exact (\<lambda>v. snd (hdel_mut fs v))"
proof (rule delta_exactI)
  fix v :: "'a kvalue" assume v: "value_ok v"
  have "int (approx_size (snd (snd (hdel_mut fs v)))) = int (approx_size v) + fst (snd (hdel_mut fs v))
      \<and> value_wf (snd (snd (hdel_mut fs v)))"
  proof (cases v)
    case (VHash m)
    obtain r d m' where "hdel_loop fs (0, 0, m) = (r, d, m')" by (metis prod_cases3)
    with hdel_loop_size [OF _ this] VHash v show ?thesis by (simp add: value_ok_def)
  qed (use v in \<open>simp_all add: value_ok_def\<close>)
  then show "int (approx_size (snd (snd (hdel_mut fs v)))) = int (approx_size v) + fst (snd (hdel_mut fs v))"
    and "value_wf (snd (snd (hdel_mut fs v)))" by simp_all
qed

lemma hash_answers [simp]:
  "answers (hset_mut f w)" "answers (hsetnx_mut f w)" "answers (hincrby_mut f d)"
  unfolding answers_def
  by (intro allI, case_tac v; simp add: Let_def split: option.split)+

lemma value_ok_VHash [simp]: "value_ok (VHash m) \<longleftrightarrow> hm_ok m \<and> m \<noteq> []"
  by (simp add: value_ok_def)

section \<open>Effects on the live view\<close>

text \<open>The finite map a key denotes for the hash commands; \<open>is_hash\<close> excludes the other types.\<close>

definition hash_map :: "'f keyspace \<Rightarrow> bytes \<Rightarrow> bytes \<rightharpoonup> bytes" where
  "hash_map ks key = (case ks key of Some (VHash m, _) \<Rightarrow> map_of m | _ \<Rightarrow> Map.empty)"

definition is_hash :: "'f keyspace \<Rightarrow> bytes \<Rightarrow> bool" where
  "is_hash ks key = (case ks key of None \<Rightarrow> True | Some (VHash _, _) \<Rightarrow> True | _ \<Rightarrow> False)"

lemma is_hash_cases:
  assumes "is_hash ks key"
  obtains "ks key = None" | m x where "ks key = Some (VHash m, x)"
  using assms by (auto simp: is_hash_def split: option.splits kvalue.splits)

lemma live_hash_ok: "unlimited \<epsilon> e \<Longrightarrow> live \<epsilon> e key = Some (VHash m, x) \<Longrightarrow> hm_ok m \<and> m \<noteq> []"
  using live_value_ok by fastforce

text \<open>What a command leaves at its key: a hash denoting \<open>h\<close> with the deadline \<open>x\<close>, or nothing.\<close>

definition holds_hash :: "'f keyspace \<Rightarrow> bytes \<Rightarrow> (bytes \<rightharpoonup> bytes) \<Rightarrow> instant option \<Rightarrow> bool" where
  "holds_hash ks key h x \<longleftrightarrow>
     (if h = Map.empty then ks key = None
      else \<exists>m. ks key = Some (VHash m, x) \<and> map_of m = h \<and> hm_ok m)"

lemma map_of_eq_empty: "map_of m = Map.empty \<longleftrightarrow> m = []"
  by (cases m) (auto simp: fun_eq_iff)

interpretation hc: collection "VHash :: (bytes, bytes) hmap \<Rightarrow> 'f::linorder kvalue" hm_ok map_of Map.empty
  by unfold_locales (simp_all add: map_of_eq_empty)

lemma holds_hash_stores: "holds_hash ks key h x \<longleftrightarrow> hc.stores ks key h x"
  by (auto simp: holds_hash_def hc.stores_def)

lemma is_hash_stores:
  assumes "unlimited \<epsilon> e" and "is_hash (live \<epsilon> e) key"
  shows "hc.stores (live \<epsilon> e) key (hash_map (live \<epsilon> e) key) (deadline (live \<epsilon> e) key)"
    and "hash_map (live \<epsilon> e) key = Map.empty \<Longrightarrow> deadline (live \<epsilon> e) key = None"
  using assms(2)
  by (cases rule: is_hash_cases;
      use live_hash_ok [OF assms(1)] in \<open>simp add: hc.stores_def hash_map_def deadline_def map_of_eq_empty\<close>)+

lemma hash_upsert:
  fixes e :: "'f::linorder engine"
  assumes "unlimited \<epsilon> e" and "is_hash (live \<epsilon> e) key" and "delta_exact (\<lambda>v. snd (f v))"
    and "answers f" and "hm_ok fresh" and "fresh \<noteq> []" and "map_of fresh = h Map.empty"
    and "\<And>m. hm_ok m \<Longrightarrow> \<exists>m'. snd (snd (f (VHash m))) = VHash m' \<and> hm_ok m' \<and> map_of m' = h (map_of m)"
  shows "let ks = live \<epsilon> (snd (upsert \<epsilon> key f n (Some (VHash fresh)) e))
    in holds_hash ks key (h (hash_map (live \<epsilon> e) key)) (deadline (live \<epsilon> e) key)
       \<and> (\<forall>k. k \<noteq> key \<longrightarrow> ks k = live \<epsilon> e k)"
proof -
  have ne: "h Map.empty \<noteq> Map.empty" using assms(6,7) by (metis map_of_eq_empty)
  show ?thesis
    unfolding Let_def holds_hash_stores
  proof (rule hc.stores_upserted [OF assms(1) is_hash_stores [OF assms(1,2)] assms(3,4)])
    fix m assume "hm_ok m" and "map_of m = hash_map (live \<epsilon> e) key"
    with assms(8) show "\<exists>m'. snd (snd (f (VHash m))) = VHash m' \<and> hm_ok m'
        \<and> map_of m' = h (hash_map (live \<epsilon> e) key)"
      by metis
  qed (use assms(5,7) ne in auto)
qed

lemma hset_view:
  assumes "unlimited \<epsilon> e" and "is_hash (live \<epsilon> e) key"
  shows "fst (hset \<epsilon> key field val e) = Inr (hash_map (live \<epsilon> e) key field = None)"
    and "let ks = live \<epsilon> (snd (hset \<epsilon> key field val e))
      in holds_hash ks key ((hash_map (live \<epsilon> e) key)(field \<mapsto> val)) (deadline (live \<epsilon> e) key)
         \<and> (\<forall>k. k \<noteq> key \<longrightarrow> ks k = live \<epsilon> e k)"
proof -
  show "fst (hset \<epsilon> key field val e) = Inr (hash_map (live \<epsilon> e) key field = None)"
    using assms(2)
    by (cases rule: is_hash_cases)
      (simp_all add: hset_def hash_map_def Let_def upsert_missing(1) [OF assms(1) hset_mut_exact]
        upsert_present(1) [OF assms(1) hset_mut_exact hash_answers(1)])
  show "let ks = live \<epsilon> (snd (hset \<epsilon> key field val e))
      in holds_hash ks key ((hash_map (live \<epsilon> e) key)(field \<mapsto> val)) (deadline (live \<epsilon> e) key)
         \<and> (\<forall>k. k \<noteq> key \<longrightarrow> ks k = live \<epsilon> e k)"
    unfolding hset_def
    by (rule hash_upsert [OF assms, where h = "\<lambda>h. h(field \<mapsto> val)"]) (simp_all add: Let_def)
qed

lemma hsetnx_view:
  assumes "unlimited \<epsilon> e" and "is_hash (live \<epsilon> e) key"
  shows "fst (hsetnx \<epsilon> key field val e) = Inr (hash_map (live \<epsilon> e) key field = None)"
    and "let ks = live \<epsilon> (snd (hsetnx \<epsilon> key field val e))
      in holds_hash ks key
           (if hash_map (live \<epsilon> e) key field = None then (hash_map (live \<epsilon> e) key)(field \<mapsto> val)
            else hash_map (live \<epsilon> e) key)
           (deadline (live \<epsilon> e) key)
         \<and> (\<forall>k. k \<noteq> key \<longrightarrow> ks k = live \<epsilon> e k)"
proof -
  show "fst (hsetnx \<epsilon> key field val e) = Inr (hash_map (live \<epsilon> e) key field = None)"
    using assms(2)
    by (cases rule: is_hash_cases)
      (simp_all add: hsetnx_def hash_map_def Let_def upsert_missing(1) [OF assms(1) hsetnx_mut_exact]
        upsert_present(1) [OF assms(1) hsetnx_mut_exact hash_answers(2)])
  show "let ks = live \<epsilon> (snd (hsetnx \<epsilon> key field val e))
      in holds_hash ks key
           (if hash_map (live \<epsilon> e) key field = None then (hash_map (live \<epsilon> e) key)(field \<mapsto> val)
            else hash_map (live \<epsilon> e) key)
           (deadline (live \<epsilon> e) key)
         \<and> (\<forall>k. k \<noteq> key \<longrightarrow> ks k = live \<epsilon> e k)"
    unfolding hsetnx_def
    by (rule hash_upsert [OF assms, where h = "\<lambda>h. if h field = None then h(field \<mapsto> val) else h"])
      (auto simp: Let_def)
qed

lemma hdel_loop_map:
  assumes "hdel_loop fs (r, d, m) = (r', d', m')"
  shows "map_of m' = map_of m |` (- set fs) \<and> r' = r + int (card (set fs \<inter> dom (map_of m)))"
  using assms
proof (induction fs arbitrary: r d m)
  case (Cons f fs)
  show ?case
  proof (cases "map_of m f")
    case None
    with Cons.IH Cons.prems show ?thesis
      by (auto simp: restrict_map_def fun_eq_iff domIff)
  next
    case (Some old)
    then have rec: "hdel_loop fs (r + 1, d - (int (length f) + int (length old) + 16),
        AList.delete f m) = (r', d', m')"
      using Cons.prems by simp
    note IH = Cons.IH [OF rec, unfolded map_of_delete]
    have "insert f (set fs) \<inter> dom (map_of m) = insert f (set fs \<inter> dom ((map_of m)(f := None)))"
      using Some by auto
    moreover have "card (insert f (set fs \<inter> dom ((map_of m)(f := None)))) =
        Suc (card (set fs \<inter> dom ((map_of m)(f := None))))"
      by (rule card_insert_disjoint) simp_all
    ultimately have "card (set (f # fs) \<inter> dom (map_of m)) =
        Suc (card (set fs \<inter> dom ((map_of m)(f := None))))" by (simp only: list.set)
    moreover have "(map_of m)(f := None) |` (- set fs) = map_of m |` (- set (f # fs))"
      by (rule ext) (simp add: restrict_map_def)
    ultimately show ?thesis using IH by (simp only: of_nat_Suc add.assoc simp_thms)
  qed
qed (simp add: restrict_map_def)

lemma hdel_view:
  assumes "unlimited \<epsilon> e" and "is_hash (live \<epsilon> e) key"
  shows "fst (hdel \<epsilon> key fs e) = Inr (int (card (set fs \<inter> dom (hash_map (live \<epsilon> e) key))))"
    and "let ks = live \<epsilon> (snd (hdel \<epsilon> key fs e))
      in holds_hash ks key (hash_map (live \<epsilon> e) key |` (- set fs)) (deadline (live \<epsilon> e) key)
         \<and> (\<forall>k. k \<noteq> key \<longrightarrow> ks k = live \<epsilon> e k)"
proof -
  have "fst (hdel \<epsilon> key fs e) = Inr (int (card (set fs \<inter> dom (hash_map (live \<epsilon> e) key))))
    \<and> (let ks = live \<epsilon> (snd (hdel \<epsilon> key fs e))
      in holds_hash ks key (hash_map (live \<epsilon> e) key |` (- set fs)) (deadline (live \<epsilon> e) key)
         \<and> (\<forall>k. k \<noteq> key \<longrightarrow> ks k = live \<epsilon> e k))"
    using assms(2)
  proof (cases rule: is_hash_cases)
    case 1
    then have "hash_map (live \<epsilon> e) key = Map.empty" by (simp add: hash_map_def)
    with 1 assms(1) show ?thesis
      by (simp add: hdel_def engine_results holds_hash_def ks_mutate_None)
  next
    case (2 m x)
    obtain r d m' where loop: "hdel_loop fs (0, 0, m) = (r, d, m')" by (metis prod_cases3)
    from hdel_loop_map [OF loop] hdel_loop_size [OF _ loop] live_hash_ok [OF assms(1) 2] have
      m': "map_of m' = map_of m |` (- set fs)" "r = int (card (set fs \<inter> dom (map_of m)))" "hm_ok m'"
      by simp_all
    have "map_of m |` (- set fs) = Map.empty \<longleftrightarrow> m' = []" by (metis m'(1) map_of_eq_empty)
    with 2 m' loop assms(1) show ?thesis
      by (auto simp: hdel_def engine_results Let_def holds_hash_def hash_map_def deadline_def
          ks_mutate_def)
  qed
  then show "fst (hdel \<epsilon> key fs e) = Inr (int (card (set fs \<inter> dom (hash_map (live \<epsilon> e) key))))"
    and "let ks = live \<epsilon> (snd (hdel \<epsilon> key fs e))
      in holds_hash ks key (hash_map (live \<epsilon> e) key |` (- set fs)) (deadline (live \<epsilon> e) key)
         \<and> (\<forall>k. k \<noteq> key \<longrightarrow> ks k = live \<epsilon> e k)" by simp_all
qed

lemma hash_reads:
  fixes e :: "'f::linorder engine"
  assumes "unlimited \<epsilon> e" and "is_hash (live \<epsilon> e) key"
  shows "fst (hget \<epsilon> key field e) = Inr (hash_map (live \<epsilon> e) key field)"
    and "fst (hexists \<epsilon> key field e) = Inr (field \<in> dom (hash_map (live \<epsilon> e) key))"
    and "fst (hlen \<epsilon> key e) = Inr (card (dom (hash_map (live \<epsilon> e) key)))"
    and "fst (hmget \<epsilon> key fs e) = Inr (map (hash_map (live \<epsilon> e) key) fs)"
proof -
  have len: "length m = card (dom (map_of m))" if "hm_ok m" for m :: "(bytes, bytes) hmap"
    using that by (metis distinct_card dom_map_of_conv_image_fst length_map set_map)
  show "fst (hlen \<epsilon> key e) = Inr (card (dom (hash_map (live \<epsilon> e) key)))"
    using assms(2)
    by (cases rule: is_hash_cases)
      (use live_hash_ok [OF assms(1)] len in \<open>simp_all add: hlen_def engine_results hash_map_def\<close>)
  show "fst (hget \<epsilon> key field e) = Inr (hash_map (live \<epsilon> e) key field)"
    and "fst (hexists \<epsilon> key field e) = Inr (field \<in> dom (hash_map (live \<epsilon> e) key))"
    and "fst (hmget \<epsilon> key fs e) = Inr (map (hash_map (live \<epsilon> e) key) fs)"
    using assms(2)
    by (cases rule: is_hash_cases;
        simp add: hget_def hexists_def hmget_def engine_results hash_map_def domIff)+
qed

section \<open>Properties\<close>

text \<open>
  C14: The hash commands are those of a finite map. On a key that is missing or holds a hash
  denoting the map \<open>h\<close>: \<open>HSET\<close> updates one field and answers whether it was new, \<open>HSETNX\<close> does so
  only for an absent field, \<open>HDEL\<close> removes exactly the named fields and answers how many of them
  were present, \<open>HGET\<close>, \<open>HMGET\<close>, \<open>HEXISTS\<close> and \<open>HLEN\<close> read \<open>h\<close>. The deadline is kept, an
  emptied hash is deleted, and no other key changes.
\<close>

theorem hash_commands_finite_map:
  fixes e :: "'f::linorder engine"
  assumes "unlimited \<epsilon> e" and "is_hash (live \<epsilon> e) key"
  shows "let h = hash_map (live \<epsilon> e) key; x = deadline (live \<epsilon> e) key;
             leaves = (\<lambda>e' h'. holds_hash (live \<epsilon> e') key h' x \<and> (\<forall>k. k \<noteq> key \<longrightarrow> live \<epsilon> e' k = live \<epsilon> e k))
    in fst (hset \<epsilon> key f v e) = Inr (h f = None) \<and> leaves (snd (hset \<epsilon> key f v e)) (h(f \<mapsto> v))
     \<and> fst (hsetnx \<epsilon> key f v e) = Inr (h f = None)
     \<and> leaves (snd (hsetnx \<epsilon> key f v e)) (if h f = None then h(f \<mapsto> v) else h)
     \<and> fst (hdel \<epsilon> key fs e) = Inr (int (card (set fs \<inter> dom h)))
     \<and> leaves (snd (hdel \<epsilon> key fs e)) (h |` (- set fs))
     \<and> fst (hget \<epsilon> key f e) = Inr (h f) \<and> fst (hmget \<epsilon> key fs e) = Inr (map h fs)
     \<and> fst (hexists \<epsilon> key f e) = Inr (f \<in> dom h) \<and> fst (hlen \<epsilon> key e) = Inr (card (dom h))"
  using hset_view [OF assms, of f v] hsetnx_view [OF assms, of f v] hdel_view [OF assms, of fs]
  by (simp add: Let_def hash_reads [OF assms])

theorem hash_commands_finite_map_witness:
  "fst (hset sample_env ''a'' ''f'' ''1'' (engine_new sample_env :: nat engine)) = Inr True
   \<and> fst (hlen sample_env ''a'' (engine_new sample_env :: nat engine)) = Inr 0"
  using hash_commands_finite_map [of sample_env "engine_new sample_env :: nat engine" "''a''" "''f''" "''1''"]
  by (simp add: unlimited_new engine_view_new is_hash_def hash_map_def Let_def)

end
