(* ===== verification/Rm_Set.thy ===== *)
theory Rm_Set
  imports Rm_Command
begin

text \<open>
  The set commands of \<open>crates/engine/src/commands/set.rs\<close>. A \<open>HashSet\<close> is a list without
  duplicates; the commands are shown to be those of finite sets, the multi-key commands to compute
  intersection, union and difference, and the storing variants to replace or delete their
  destination.
\<close>

section \<open>Operations\<close>

text \<open>\<open>extend\<close> and \<open>collect\<close> of a \<open>HashSet\<close>: insertion of each element in turn.\<close>

definition hs_extend :: "'a list \<Rightarrow> 'a list \<Rightarrow> 'a list" where
  "hs_extend s xs = foldl (\<lambda>s x. hs_insert x s) s xs"

definition get_set ::
  "env \<Rightarrow> bytes \<Rightarrow> 'f::linorder engine \<Rightarrow> (engine_error + bytes list) \<times> 'f engine" where
  "get_set \<epsilon> key e =
     (let (v, e1) = engine_get \<epsilon> key e
      in (case v of None \<Rightarrow> Inr [] | Some (VSet s) \<Rightarrow> Inr s | Some _ \<Rightarrow> Inl WrongType, e1))"

fun sadd_loop :: "bytes list \<Rightarrow> int \<times> int \<times> bytes list \<Rightarrow> int \<times> int \<times> bytes list" where
  "sadd_loop [] acc = acc"
| "sadd_loop (member # members) (added, size_delta, s) =
     (if member \<notin> set s
      then sadd_loop members (added + 1, size_delta + (int (length member) + 8), hs_insert member s)
      else sadd_loop members (added, size_delta, s))"

fun sadd_mut :: "bytes list \<Rightarrow> ('f::linorder, engine_error + int option) mutator" where
  "sadd_mut members (VSet s) =
     (let (added, size_delta, s') = sadd_loop members (0, 0, s)
      in (Inr (Some added), size_delta, VSet s'))"
| "sadd_mut members v = (Inl WrongType, 0, v)"

definition sadd ::
  "env \<Rightarrow> bytes \<Rightarrow> bytes list \<Rightarrow> 'f::linorder engine \<Rightarrow> (engine_error + int) \<times> 'f engine" where
  "sadd \<epsilon> key members e =
     (if members = [] then upsert \<epsilon> key (sadd_mut members) 0 None e
      else let s = hs_extend [] members
           in upsert \<epsilon> key (sadd_mut members) (int (length s)) (Some (VSet s)) e)"

fun srem_loop :: "bytes list \<Rightarrow> int \<times> int \<times> bytes list \<Rightarrow> int \<times> int \<times> bytes list" where
  "srem_loop [] acc = acc"
| "srem_loop (member # members) (removed, size_delta, s) =
     (if member \<in> set s
      then srem_loop members (removed + 1, size_delta - (int (length member) + 8), hs_remove member s)
      else srem_loop members (removed, size_delta, s))"

fun srem_mut :: "bytes list \<Rightarrow> ('f::linorder, engine_error + int) mutator" where
  "srem_mut members (VSet s) =
     (let (removed, size_delta, s') = srem_loop members (0, 0, s)
      in (Inr removed, size_delta, VSet s'))"
| "srem_mut members v = (Inl WrongType, 0, v)"

definition srem ::
  "env \<Rightarrow> bytes \<Rightarrow> bytes list \<Rightarrow> 'f::linorder engine \<Rightarrow> (engine_error + int) \<times> 'f engine" where
  "srem \<epsilon> key members e = engine_with_mut_delta \<epsilon> key (srem_mut members) (Inr 0) e"

definition smembers ::
  "env \<Rightarrow> bytes \<Rightarrow> 'f::linorder engine \<Rightarrow> (engine_error + bytes list) \<times> 'f engine" where
  "smembers \<epsilon> key e = get_set \<epsilon> key e"

definition sismember ::
  "env \<Rightarrow> bytes \<Rightarrow> bytes \<Rightarrow> 'f engine \<Rightarrow> (engine_error + bool) \<times> 'f engine" where
  "sismember \<epsilon> key member e = engine_with_ref \<epsilon> key
     (\<lambda>v. case v of None \<Rightarrow> Inr False | Some (VSet s) \<Rightarrow> Inr (member \<in> set s) | Some _ \<Rightarrow> Inl WrongType) e"

definition scard :: "env \<Rightarrow> bytes \<Rightarrow> 'f engine \<Rightarrow> (engine_error + nat) \<times> 'f engine" where
  "scard \<epsilon> key e = engine_with_ref \<epsilon> key
     (\<lambda>v. case v of None \<Rightarrow> Inr 0 | Some (VSet s) \<Rightarrow> Inr (length s) | Some _ \<Rightarrow> Inl WrongType) e"

fun get_sets ::
  "env \<Rightarrow> bytes list \<Rightarrow> 'f::linorder engine \<Rightarrow> (engine_error + bytes list list) \<times> 'f engine" where
  "get_sets \<epsilon> [] e = (Inr [], e)"
| "get_sets \<epsilon> (k # keys) e =
     (let (r, e1) = get_set \<epsilon> k e
      in case r of
           Inl err \<Rightarrow> (Inl err, e1)
         | Inr s \<Rightarrow> (let (rs, e2) = get_sets \<epsilon> keys e1 in (map_sum id (\<lambda>ss. s # ss) rs, e2)))"

definition sinter ::
  "env \<Rightarrow> bytes list \<Rightarrow> 'f::linorder engine \<Rightarrow> (engine_error + bytes list) \<times> 'f engine" where
  "sinter \<epsilon> keys e =
     (let (r, e1) = get_sets \<epsilon> keys e
      in (case r of
            Inl err \<Rightarrow> Inl err
          | Inr [] \<Rightarrow> Inr []
          | Inr (first # rest) \<Rightarrow> Inr (foldl (\<lambda>acc s. filter (\<lambda>m. m \<in> set s) acc) first rest), e1))"

fun sunion_loop ::
  "env \<Rightarrow> bytes list \<Rightarrow> bytes list \<Rightarrow> 'f::linorder engine \<Rightarrow> (engine_error + bytes list) \<times> 'f engine" where
  "sunion_loop \<epsilon> [] result e = (Inr result, e)"
| "sunion_loop \<epsilon> (k # keys) result e =
     (let (r, e1) = get_set \<epsilon> k e
      in case r of
           Inl err \<Rightarrow> (Inl err, e1)
         | Inr s \<Rightarrow> sunion_loop \<epsilon> keys (hs_extend result s) e1)"

definition sunion ::
  "env \<Rightarrow> bytes list \<Rightarrow> 'f::linorder engine \<Rightarrow> (engine_error + bytes list) \<times> 'f engine" where
  "sunion \<epsilon> keys e = sunion_loop \<epsilon> keys [] e"

fun sdiff_loop ::
  "env \<Rightarrow> bytes list \<Rightarrow> bytes list \<Rightarrow> 'f::linorder engine \<Rightarrow> (engine_error + bytes list) \<times> 'f engine" where
  "sdiff_loop \<epsilon> [] result e = (Inr result, e)"
| "sdiff_loop \<epsilon> (k # keys) result e =
     (let (r, e1) = get_set \<epsilon> k e
      in case r of
           Inl err \<Rightarrow> (Inl err, e1)
         | Inr other \<Rightarrow> sdiff_loop \<epsilon> keys (filter (\<lambda>m. m \<notin> set other) result) e1)"

fun sdiff ::
  "env \<Rightarrow> bytes list \<Rightarrow> 'f::linorder engine \<Rightarrow> (engine_error + bytes list) \<times> 'f engine" where
  "sdiff \<epsilon> [] e = (Inr [], e)"
| "sdiff \<epsilon> (first_key # keys) e =
     (let (r, e1) = get_set \<epsilon> first_key e
      in case r of Inl err \<Rightarrow> (Inl err, e1) | Inr result \<Rightarrow> sdiff_loop \<epsilon> keys result e1)"

definition store_or_delete ::
  "env \<Rightarrow> bytes \<Rightarrow> bytes list \<Rightarrow> 'f::linorder engine \<Rightarrow> nat \<times> 'f engine" where
  "store_or_delete \<epsilon> dest result e =
     (length result,
      if result = [] then snd (engine_del \<epsilon> dest e) else engine_set \<epsilon> dest (VSet result) e)"

text \<open>The three storing commands differ in the command that computes what is stored.\<close>

definition store_result ::
  "env \<Rightarrow> bytes \<Rightarrow> (engine_error + bytes list) \<times> 'f::linorder engine \<Rightarrow> (engine_error + nat) \<times> 'f engine" where
  "store_result \<epsilon> dest computed =
     (let (r, e1) = computed
      in case r of
           Inl err \<Rightarrow> (Inl err, e1)
         | Inr result \<Rightarrow> (let (n, e2) = store_or_delete \<epsilon> dest result e1 in (Inr n, e2)))"

definition sinterstore ::
  "env \<Rightarrow> bytes \<Rightarrow> bytes list \<Rightarrow> 'f::linorder engine \<Rightarrow> (engine_error + nat) \<times> 'f engine" where
  "sinterstore \<epsilon> dest keys e = store_result \<epsilon> dest (sinter \<epsilon> keys e)"

definition sunionstore ::
  "env \<Rightarrow> bytes \<Rightarrow> bytes list \<Rightarrow> 'f::linorder engine \<Rightarrow> (engine_error + nat) \<times> 'f engine" where
  "sunionstore \<epsilon> dest keys e = store_result \<epsilon> dest (sunion \<epsilon> keys e)"

definition sdiffstore ::
  "env \<Rightarrow> bytes \<Rightarrow> bytes list \<Rightarrow> 'f::linorder engine \<Rightarrow> (engine_error + nat) \<times> 'f engine" where
  "sdiffstore \<epsilon> dest keys e = store_result \<epsilon> dest (sdiff \<epsilon> keys e)"

text \<open>\<open>IteratorRandom::choose\<close>: nothing of an empty set, else the element the generator picks.\<close>

definition iter_choose :: "env \<Rightarrow> 'a list \<Rightarrow> 'a option" where
  "iter_choose \<epsilon> s = (if s = [] then None else Some (s ! env_rand \<epsilon> (length s)))"

fun spop_mut :: "env \<Rightarrow> ('f::linorder, engine_error + bytes option) mutator" where
  "spop_mut \<epsilon> (VSet s) =
     (case iter_choose \<epsilon> s of
        None \<Rightarrow> (Inr None, 0, VSet s)
      | Some member \<Rightarrow> (Inr (Some member), - (int (length member) + 8), VSet (hs_remove member s)))"
| "spop_mut \<epsilon> v = (Inl WrongType, 0, v)"

definition spop ::
  "env \<Rightarrow> bytes \<Rightarrow> 'f::linorder engine \<Rightarrow> (engine_error + bytes option) \<times> 'f engine" where
  "spop \<epsilon> key e = engine_with_mut_delta \<epsilon> key (spop_mut \<epsilon>) (Inr None) e"

definition srandmember ::
  "env \<Rightarrow> bytes \<Rightarrow> 'f::linorder engine \<Rightarrow> (engine_error + bytes option) \<times> 'f engine" where
  "srandmember \<epsilon> key e = (let (r, e1) = get_set \<epsilon> key e in (map_sum id (iter_choose \<epsilon>) r, e1))"

section \<open>The loops on the set\<close>

lemma hs_extend_simps [simp]: "hs_extend s [] = s" "hs_extend s (x # xs) = hs_extend (hs_insert x s) xs"
  by (simp_all add: hs_extend_def)

lemma set_hs_extend [simp]: "set (hs_extend s xs) = set s \<union> set xs"
  by (induction xs arbitrary: s) auto

lemma distinct_hs_extend [simp]: "distinct s \<Longrightarrow> distinct (hs_extend s xs)"
  by (induction xs arbitrary: s) auto

lemma sadd_loop_spec:
  assumes "sadd_loop ms (n, d, s) = (n', d', s')" and "distinct s"
  shows "s' = hs_extend s ms \<and> int (list_size s') - d' = int (list_size s) - d
    \<and> int (length s') - n' = int (length s) - n"
  using assms
proof (induction ms arbitrary: n d s)
  case (Cons m ms)
  show ?case
  proof (cases "m \<in> set s")
    case True
    with Cons show ?thesis by (simp add: hs_insert_def)
  next
    case False
    with Cons.IH [of "n + 1" _ "hs_insert m s"] Cons.prems show ?thesis
      by (simp add: list_size_hs_insert) (simp add: hs_insert_def)
  qed
qed simp

lemma length_hs_remove: "distinct s \<Longrightarrow> x \<in> set s \<Longrightarrow> length s = Suc (length (hs_remove x s))"
  using sum_list_hs_remove [of s x "\<lambda>_. 1 :: nat"] by (simp add: sum_list_triv)

lemma srem_loop_spec:
  assumes "srem_loop ms (n, d, s) = (n', d', s')" and "distinct s"
  shows "set s' = set s - set ms \<and> distinct s' \<and> int (list_size s') - d' = int (list_size s) - d
    \<and> int (length s') + n' = int (length s) + n"
  using assms
proof (induction ms arbitrary: n d s)
  case (Cons m ms)
  show ?case
  proof (cases "m \<in> set s")
    case True
    with Cons.IH [of "n + 1" _ "hs_remove m s"] Cons.prems
      list_size_hs_remove [of s m] length_hs_remove [of s m] show ?thesis
      by simp blast
  next
    case False
    with Cons show ?thesis by simp
  qed
qed simp

lemma value_ok_VSet [simp]: "value_ok (VSet s) \<longleftrightarrow> distinct s \<and> s \<noteq> []"
  by (simp add: value_ok_def)

lemma sadd_mut_exact [simp]: "delta_exact (\<lambda>v. snd (sadd_mut ms v))"
proof (rule delta_exactI)
  fix v :: "'a kvalue" assume v: "value_ok v"
  have "int (approx_size (snd (snd (sadd_mut ms v)))) = int (approx_size v) + fst (snd (sadd_mut ms v))
      \<and> value_wf (snd (snd (sadd_mut ms v)))"
  proof (cases v)
    case (VSet s)
    obtain n d s' where "sadd_loop ms (0, 0, s) = (n, d, s')" by (metis prod_cases3)
    with sadd_loop_spec [OF this] VSet v show ?thesis by auto
  qed (use v in \<open>simp_all add: value_ok_def\<close>)
  then show "int (approx_size (snd (snd (sadd_mut ms v)))) = int (approx_size v) + fst (snd (sadd_mut ms v))"
    and "value_wf (snd (snd (sadd_mut ms v)))" by simp_all
qed

lemma srem_mut_exact [simp]: "delta_exact (\<lambda>v. snd (srem_mut ms v))"
proof (rule delta_exactI)
  fix v :: "'a kvalue" assume v: "value_ok v"
  have "int (approx_size (snd (snd (srem_mut ms v)))) = int (approx_size v) + fst (snd (srem_mut ms v))
      \<and> value_wf (snd (snd (srem_mut ms v)))"
  proof (cases v)
    case (VSet s)
    obtain n d s' where "srem_loop ms (0, 0, s) = (n, d, s')" by (metis prod_cases3)
    with srem_loop_spec [OF this] VSet v show ?thesis by auto
  qed (use v in \<open>simp_all add: value_ok_def\<close>)
  then show "int (approx_size (snd (snd (srem_mut ms v)))) = int (approx_size v) + fst (snd (srem_mut ms v))"
    and "value_wf (snd (snd (srem_mut ms v)))" by simp_all
qed

lemma iter_choose_mem: "rand_in_range \<epsilon> \<Longrightarrow> s \<noteq> [] \<Longrightarrow> \<exists>m \<in> set s. iter_choose \<epsilon> s = Some m"
  by (simp add: iter_choose_def rand_in_range_def)

lemma spop_mut_exact [simp]:
  assumes "rand_in_range \<epsilon>"
  shows "delta_exact (\<lambda>v. snd (spop_mut \<epsilon> v))"
proof (rule delta_exactI)
  fix v :: "'a kvalue" assume v: "value_ok v"
  have "int (approx_size (snd (snd (spop_mut \<epsilon> v)))) = int (approx_size v) + fst (snd (spop_mut \<epsilon> v))
      \<and> value_wf (snd (snd (spop_mut \<epsilon> v)))"
  proof (cases v)
    case (VSet s)
    with v iter_choose_mem [OF assms, of s] obtain m where "m \<in> set s" "iter_choose \<epsilon> s = Some m" by auto
    with v VSet list_size_hs_remove [of s m] show ?thesis by simp
  qed (use v in \<open>simp_all add: value_ok_def\<close>)
  then show "int (approx_size (snd (snd (spop_mut \<epsilon> v)))) = int (approx_size v) + fst (snd (spop_mut \<epsilon> v))"
    and "value_wf (snd (snd (spop_mut \<epsilon> v)))" by simp_all
qed

lemma sadd_answers [simp]: "answers (sadd_mut ms)"
  unfolding answers_def by (intro allI, case_tac v) (simp_all add: split_def Let_def)

section \<open>Effects on the live view\<close>

text \<open>The members a key denotes for the set commands, and what a command leaves at its key.\<close>

definition members_list :: "'f keyspace \<Rightarrow> bytes \<Rightarrow> bytes list" where
  "members_list ks key = (case ks key of Some (VSet s, _) \<Rightarrow> s | _ \<Rightarrow> [])"

abbreviation members_of :: "'f keyspace \<Rightarrow> bytes \<Rightarrow> bytes set" where
  "members_of ks key \<equiv> set (members_list ks key)"

definition is_set :: "'f keyspace \<Rightarrow> bytes \<Rightarrow> bool" where
  "is_set ks key = (case ks key of None \<Rightarrow> True | Some (VSet _, _) \<Rightarrow> True | _ \<Rightarrow> False)"

definition holds_set :: "'f keyspace \<Rightarrow> bytes \<Rightarrow> bytes set \<Rightarrow> instant option \<Rightarrow> bool" where
  "holds_set ks key S x \<longleftrightarrow>
     (if S = {} then ks key = None
      else \<exists>s. ks key = Some (VSet s, x) \<and> set s = S \<and> distinct s)"

interpretation sc: collection "VSet :: bytes list \<Rightarrow> 'f::linorder kvalue" distinct set "{}"
  by unfold_locales simp_all

lemma holds_set_stores: "holds_set ks key S x \<longleftrightarrow> sc.stores ks key S x"
  by (auto simp: holds_set_def sc.stores_def)

lemma is_set_cases:
  assumes "is_set ks key"
  obtains "ks key = None" | s x where "ks key = Some (VSet s, x)"
  using assms by (auto simp: is_set_def split: option.splits kvalue.splits)

lemma live_set_ok: "unlimited \<epsilon> e \<Longrightarrow> live \<epsilon> e key = Some (VSet s, x) \<Longrightarrow> distinct s \<and> s \<noteq> []"
  using live_value_ok by fastforce

lemma distinct_members_list: "unlimited \<epsilon> e \<Longrightarrow> distinct (members_list (live \<epsilon> e) k)"
  using live_set_ok by (fastforce simp: members_list_def split: option.split kvalue.split)

lemma is_set_stores:
  assumes "unlimited \<epsilon> e" and "is_set (live \<epsilon> e) key"
  shows "sc.stores (live \<epsilon> e) key (members_of (live \<epsilon> e) key) (deadline (live \<epsilon> e) key)"
    and "members_of (live \<epsilon> e) key = {} \<Longrightarrow> deadline (live \<epsilon> e) key = None"
  using assms(2)
  by (cases rule: is_set_cases;
      use live_set_ok [OF assms(1)] in \<open>simp add: sc.stores_def members_list_def deadline_def\<close>)+

subsection \<open>Commands on one key\<close>

lemma sadd_mut_VSet:
  assumes "distinct s"
  shows "fst (sadd_mut ms (VSet s)) = Inr (Some (int (card (set ms - set s))))"
    and "snd (snd (sadd_mut ms (VSet s))) = VSet (hs_extend s ms)"
proof -
  obtain n d s' where loop: "sadd_loop ms (0, 0, s) = (n, d, s')" by (metis prod_cases3)
  note spec = sadd_loop_spec [OF loop assms]
  have "int (card (set ms - set s)) = int (length s') - int (length s)"
    using spec assms card_Un_disjoint [of "set s" "set ms - set s"]
    by (simp add: distinct_card [symmetric])
  with spec loop show "fst (sadd_mut ms (VSet s)) = Inr (Some (int (card (set ms - set s))))"
    and "snd (snd (sadd_mut ms (VSet s))) = VSet (hs_extend s ms)" by auto
qed

lemma srem_mut_VSet:
  assumes "distinct s"
  shows "fst (srem_mut ms (VSet s)) = Inr (int (card (set ms \<inter> set s)))"
    and "\<exists>s'. snd (snd (srem_mut ms (VSet s))) = VSet s' \<and> distinct s' \<and> set s' = set s - set ms"
proof -
  obtain n d s' where loop: "srem_loop ms (0, 0, s) = (n, d, s')" by (metis prod_cases3)
  note spec = srem_loop_spec [OF loop assms]
  have "card (set s) = card (set s - set ms) + card (set ms \<inter> set s)"
    by (subst card_Un_disjoint [symmetric]) (auto intro: arg_cong [where f = card])
  then have "n = int (card (set ms \<inter> set s))"
    using spec assms distinct_card [of s'] distinct_card [of s] by simp
  with spec loop show "fst (srem_mut ms (VSet s)) = Inr (int (card (set ms \<inter> set s)))"
    and "\<exists>s'. snd (snd (srem_mut ms (VSet s))) = VSet s' \<and> distinct s' \<and> set s' = set s - set ms"
    by simp_all
qed

declare sadd_mut.simps(1) [simp del] srem_mut.simps(1) [simp del]

lemma sadd_view:
  assumes "unlimited \<epsilon> e" and "is_set (live \<epsilon> e) key"
  shows "fst (sadd \<epsilon> key ms e) = Inr (int (card (set ms - members_of (live \<epsilon> e) key)))"
    and "holds_set (live \<epsilon> (snd (sadd \<epsilon> key ms e))) key (members_of (live \<epsilon> e) key \<union> set ms)
      (deadline (live \<epsilon> e) key)
      \<and> (\<forall>k. k \<noteq> key \<longrightarrow> live \<epsilon> (snd (sadd \<epsilon> key ms e)) k = live \<epsilon> e k)"
proof -
  note store = is_set_stores [OF assms]
  have len: "length (hs_extend [] ms) = card (set ms)"
    by (metis card.empty distinct_card distinct.simps(1) distinct_hs_extend list.set(1) set_hs_extend sup_bot_left)
  show "fst (sadd \<epsilon> key ms e) = Inr (int (card (set ms - members_of (live \<epsilon> e) key)))"
    unfolding sadd_def Let_def
    by (auto intro!: sc.upserted_reply [OF assms(1) store(1)] simp: sadd_mut_VSet len)
  show "holds_set (live \<epsilon> (snd (sadd \<epsilon> key ms e))) key (members_of (live \<epsilon> e) key \<union> set ms)
      (deadline (live \<epsilon> e) key)
      \<and> (\<forall>k. k \<noteq> key \<longrightarrow> live \<epsilon> (snd (sadd \<epsilon> key ms e)) k = live \<epsilon> e k)"
    unfolding holds_set_stores sadd_def Let_def if_distrib [of snd] if_distrib [of "live \<epsilon>"]
    by (cases "ms = []"; simp only: if_True if_False simp_thms; rule sc.stores_upserted [OF assms(1) store])
      (auto simp: sadd_mut_VSet)
qed

lemma srem_view:
  fixes e :: "'f::linorder engine"
  assumes "unlimited \<epsilon> e" and "is_set (live \<epsilon> e) key"
  shows "fst (srem \<epsilon> key ms e) = Inr (int (card (set ms \<inter> members_of (live \<epsilon> e) key)))"
    and "holds_set (live \<epsilon> (snd (srem \<epsilon> key ms e))) key (members_of (live \<epsilon> e) key - set ms)
      (deadline (live \<epsilon> e) key)
      \<and> (\<forall>k. k \<noteq> key \<longrightarrow> live \<epsilon> (snd (srem \<epsilon> key ms e)) k = live \<epsilon> e k)"
proof -
  note store = is_set_stores [OF assms]
  show "fst (srem \<epsilon> key ms e) = Inr (int (card (set ms \<inter> members_of (live \<epsilon> e) key)))"
    unfolding srem_def by (rule sc.mutated_reply [OF store(1)]) (simp_all add: srem_mut_VSet(1))
  show "holds_set (live \<epsilon> (snd (srem \<epsilon> key ms e))) key (members_of (live \<epsilon> e) key - set ms)
      (deadline (live \<epsilon> e) key)
      \<and> (\<forall>k. k \<noteq> key \<longrightarrow> live \<epsilon> (snd (srem \<epsilon> key ms e)) k = live \<epsilon> e k)"
    unfolding srem_def holds_set_stores
    by (rule sc.stores_mutated [OF assms(1) store(1)]) (use srem_mut_VSet(2) in fastforce, simp)
qed

lemma set_reads:
  fixes e :: "'f::linorder engine"
  assumes "unlimited \<epsilon> e" and "is_set (live \<epsilon> e) key"
  shows "fst (sismember \<epsilon> key m e) = Inr (m \<in> members_of (live \<epsilon> e) key)"
    and "fst (scard \<epsilon> key e) = Inr (card (members_of (live \<epsilon> e) key))"
  unfolding sismember_def scard_def
  by (rule sc.read_reply [OF is_set_stores(1) [OF assms]]; simp add: distinct_card [symmetric])+

text \<open>\<open>SPOP\<close> removes a member and returns it.\<close>

lemma spop_view:
  fixes e :: "'f::linorder engine"
  assumes "unlimited \<epsilon> e" and "rand_in_range \<epsilon>" and "live \<epsilon> e key = Some (VSet s, x)"
  shows "\<exists>m \<in> set s. fst (spop \<epsilon> key e) = Inr (Some m)
    \<and> holds_set (live \<epsilon> (snd (spop \<epsilon> key e))) key (set s - {m}) x
    \<and> (\<forall>k. k \<noteq> key \<longrightarrow> live \<epsilon> (snd (spop \<epsilon> key e)) k = live \<epsilon> e k)"
proof -
  have s: "distinct s" "s \<noteq> []" using live_set_ok [OF assms(1,3)] by simp_all
  then obtain m where m: "m \<in> set s" "iter_choose \<epsilon> s = Some m"
    using iter_choose_mem [OF assms(2)] by blast
  have "hs_remove m s = [] \<longleftrightarrow> set s - {m} = {}" by (metis set_empty set_hs_remove)
  with m s assms(1,3) have "fst (spop \<epsilon> key e) = Inr (Some m)
    \<and> holds_set (live \<epsilon> (snd (spop \<epsilon> key e))) key (set s - {m}) x
    \<and> (\<forall>k. k \<noteq> key \<longrightarrow> live \<epsilon> (snd (spop \<epsilon> key e)) k = live \<epsilon> e k)"
    by (auto simp: spop_def engine_results holds_set_def ks_mutate_def)
  with m(1) show ?thesis by blast
qed

subsection \<open>Commands on several keys\<close>

lemma get_set_view:
  assumes "unlimited \<epsilon> e"
  shows "fst (get_set \<epsilon> k e) =
      (if is_set (live \<epsilon> e) k then Inr (members_list (live \<epsilon> e) k) else Inl WrongType)"
    and "live \<epsilon> (snd (get_set \<epsilon> k e)) = live \<epsilon> e" and "unlimited \<epsilon> (snd (get_set \<epsilon> k e))"
  using assms
  by (auto simp: get_set_def Let_def split_def engine_results is_set_def members_list_def
      split: option.splits kvalue.splits)

lemma get_sets_view:
  assumes "unlimited \<epsilon> e"
  shows "fst (get_sets \<epsilon> keys e) =
      (if \<forall>k \<in> set keys. is_set (live \<epsilon> e) k then Inr (map (members_list (live \<epsilon> e)) keys)
       else Inl WrongType)
    \<and> live \<epsilon> (snd (get_sets \<epsilon> keys e)) = live \<epsilon> e \<and> unlimited \<epsilon> (snd (get_sets \<epsilon> keys e))"
  using assms
proof (induction keys arbitrary: e)
  case (Cons k keys)
  note g = get_set_view [OF Cons.prems, of k]
  from Cons.IH [OF g(3)] show ?case
    by (simp add: Let_def split_def g split: sum.split)
qed simp

lemma sunion_loop_view:
  assumes "unlimited \<epsilon> e"
  shows "fst (sunion_loop \<epsilon> keys r e) =
      (if \<forall>k \<in> set keys. is_set (live \<epsilon> e) k
       then Inr (foldl hs_extend r (map (members_list (live \<epsilon> e)) keys)) else Inl WrongType)
    \<and> live \<epsilon> (snd (sunion_loop \<epsilon> keys r e)) = live \<epsilon> e
    \<and> unlimited \<epsilon> (snd (sunion_loop \<epsilon> keys r e))"
  using assms
proof (induction keys arbitrary: e r)
  case (Cons k keys)
  note g = get_set_view [OF Cons.prems, of k]
  from Cons.IH [OF g(3)] show ?case
    by (simp add: Let_def split_def g split: sum.split)
qed simp

lemma sdiff_loop_view:
  assumes "unlimited \<epsilon> e"
  shows "fst (sdiff_loop \<epsilon> keys r e) =
      (if \<forall>k \<in> set keys. is_set (live \<epsilon> e) k
       then Inr (filter (\<lambda>m. \<forall>k \<in> set keys. m \<notin> members_of (live \<epsilon> e) k) r) else Inl WrongType)
    \<and> live \<epsilon> (snd (sdiff_loop \<epsilon> keys r e)) = live \<epsilon> e
    \<and> unlimited \<epsilon> (snd (sdiff_loop \<epsilon> keys r e))"
  using assms
proof (induction keys arbitrary: e r)
  case (Cons k keys)
  note g = get_set_view [OF Cons.prems, of k]
  from Cons.IH [OF g(3)] show ?case
    by (simp add: Let_def split_def g conj_commute split: sum.split)
qed simp

text \<open>The mathematical set each multi-key command computes from the sets at its keys.\<close>

definition inter_of :: "'f keyspace \<Rightarrow> bytes list \<Rightarrow> bytes set" where
  "inter_of ks keys = (if keys = [] then {} else \<Inter>k \<in> set keys. members_of ks k)"

definition union_of :: "'f keyspace \<Rightarrow> bytes list \<Rightarrow> bytes set" where
  "union_of ks keys = (\<Union>k \<in> set keys. members_of ks k)"

fun diff_of :: "'f keyspace \<Rightarrow> bytes list \<Rightarrow> bytes set" where
  "diff_of ks [] = {}"
| "diff_of ks (k # keys) = members_of ks k - union_of ks keys"

text \<open>
  A multi-key command computes \<open>S\<close>: it answers the elements of \<open>S\<close> without duplicates when every
  key is missing or a set, and \<open>WRONGTYPE\<close> otherwise, and it leaves the live view as it is.
\<close>

definition computes ::
  "env \<Rightarrow> bytes list \<Rightarrow> 'f::linorder engine \<Rightarrow> bytes set
   \<Rightarrow> (engine_error + bytes list) \<times> 'f engine \<Rightarrow> bool" where
  "computes \<epsilon> keys e S res \<longleftrightarrow>
     (if \<forall>k \<in> set keys. is_set (live \<epsilon> e) k
      then \<exists>s. fst res = Inr s \<and> distinct s \<and> set s = S
      else fst res = Inl WrongType)
     \<and> live \<epsilon> (snd res) = live \<epsilon> e \<and> unlimited \<epsilon> (snd res)"

lemma foldl_filter_set:
  "set (foldl (\<lambda>acc s. filter (\<lambda>m. m \<in> set s) acc) a ss) = set a \<inter> (\<Inter>s \<in> set ss. set s)"
  "distinct a \<Longrightarrow> distinct (foldl (\<lambda>acc s. filter (\<lambda>m. m \<in> set s) acc) a ss)"
  by (induction ss arbitrary: a) auto

lemma foldl_extend_set:
  "set (foldl hs_extend a ss) = set a \<union> (\<Union>s \<in> set ss. set s)"
  "distinct a \<Longrightarrow> distinct (foldl hs_extend a ss)"
  by (induction ss arbitrary: a) auto

lemma sinter_computes:
  assumes "unlimited \<epsilon> e"
  shows "computes \<epsilon> keys e (inter_of (live \<epsilon> e) keys) (sinter \<epsilon> keys e)"
  using get_sets_view [OF assms, of keys] distinct_members_list [OF assms]
  by (cases keys)
    (auto simp: computes_def sinter_def Let_def split_def inter_of_def foldl_filter_set split: sum.splits)

lemma sunion_computes:
  assumes "unlimited \<epsilon> e"
  shows "computes \<epsilon> keys e (union_of (live \<epsilon> e) keys) (sunion \<epsilon> keys e)"
  using sunion_loop_view [OF assms, of keys "[]"]
  by (auto simp: computes_def sunion_def union_of_def foldl_extend_set)

lemma sdiff_computes:
  assumes "unlimited \<epsilon> e"
  shows "computes \<epsilon> keys e (diff_of (live \<epsilon> e) keys) (sdiff \<epsilon> keys e)"
proof (cases keys)
  case Nil
  with assms show ?thesis by (simp add: computes_def)
next
  case (Cons k ks)
  note g = get_set_view [OF assms, of k]
  show ?thesis
    using sdiff_loop_view [OF g(3), of ks "members_list (live \<epsilon> e) k"] distinct_members_list [OF assms, of k] g(2,3)
    by (auto simp: Cons computes_def Let_def split_def g(1) union_of_def split: sum.splits)
qed

lemma store_result_view:
  assumes "unlimited \<epsilon> e" and "computes \<epsilon> keys e S res"
  shows "if \<forall>k \<in> set keys. is_set (live \<epsilon> e) k
    then fst (store_result \<epsilon> dest res) = Inr (card S)
      \<and> holds_set (live \<epsilon> (snd (store_result \<epsilon> dest res))) dest S None
      \<and> (\<forall>k. k \<noteq> dest \<longrightarrow> live \<epsilon> (snd (store_result \<epsilon> dest res)) k = live \<epsilon> e k)
    else fst (store_result \<epsilon> dest res) = Inl WrongType
      \<and> live \<epsilon> (snd (store_result \<epsilon> dest res)) = live \<epsilon> e"
  using assms
  by (auto simp: computes_def store_result_def store_or_delete_def Let_def split_def holds_set_def
      distinct_card ks_set_def ks_del_def split: if_splits)

section \<open>Properties\<close>

text \<open>
  C15: The set commands are those of finite sets. On a key that is missing or holds a set \<open>S\<close>:
  \<open>SADD\<close> leaves \<open>S\<close> with the members added and answers how many of them were new, \<open>SREM\<close> leaves
  \<open>S\<close> without the members and answers how many of them were there, \<open>SISMEMBER\<close> and \<open>SCARD\<close> read
  \<open>S\<close>. The deadline is kept, an emptied set is deleted (and \<open>SADD\<close> of no members creates
  nothing), and no other key changes.
\<close>

theorem set_commands_finite_set:
  fixes e :: "'f::linorder engine"
  assumes "unlimited \<epsilon> e" and "is_set (live \<epsilon> e) key"
  shows "let S = members_of (live \<epsilon> e) key; x = deadline (live \<epsilon> e) key;
             leaves = (\<lambda>e' S'. holds_set (live \<epsilon> e') key S' x \<and> (\<forall>k. k \<noteq> key \<longrightarrow> live \<epsilon> e' k = live \<epsilon> e k))
    in fst (sadd \<epsilon> key ms e) = Inr (int (card (set ms - S)))
     \<and> leaves (snd (sadd \<epsilon> key ms e)) (S \<union> set ms)
     \<and> fst (srem \<epsilon> key ms e) = Inr (int (card (set ms \<inter> S)))
     \<and> leaves (snd (srem \<epsilon> key ms e)) (S - set ms)
     \<and> fst (sismember \<epsilon> key m e) = Inr (m \<in> S) \<and> fst (scard \<epsilon> key e) = Inr (card S)"
  by (simp add: Let_def sadd_view [OF assms] srem_view [OF assms] set_reads [OF assms])

theorem set_commands_finite_set_witness:
  "fst (sadd sample_env ''a'' [''x'', ''y'', ''x''] (engine_new sample_env :: nat engine)) = Inr 2
   \<and> fst (scard sample_env ''a'' (engine_new sample_env :: nat engine)) = Inr 0"
  using set_commands_finite_set [of sample_env "engine_new sample_env :: nat engine" "''a''"
      "[''x'', ''y'', ''x'']"]
  by (simp add: unlimited_new engine_view_new is_set_def members_list_def Let_def card_insert_if)

text \<open>
  C16: \<open>SINTERSTORE\<close>, \<open>SUNIONSTORE\<close> and \<open>SDIFFSTORE\<close> compute the intersection, the union and the
  difference of the sets at their keys (a missing key is the empty set) and leave it at the
  destination without a deadline, deleting the destination when the result is empty. The keys are
  read before the destination is written, so the destination may be one of them. The answer is the
  size of the result. If some key holds another type, the answer is \<open>WRONGTYPE\<close> and nothing
  changes.
\<close>

theorem set_algebra_store:
  fixes e :: "'f::linorder engine"
  assumes "unlimited \<epsilon> e"
  shows "let ks = live \<epsilon> e;
             stored = (\<lambda>S res. if \<forall>k \<in> set keys. is_set ks k
               then fst res = Inr (card S) \<and> holds_set (live \<epsilon> (snd res)) dest S None
                 \<and> (\<forall>k. k \<noteq> dest \<longrightarrow> live \<epsilon> (snd res) k = ks k)
               else fst res = Inl WrongType \<and> live \<epsilon> (snd res) = ks)
    in stored (inter_of ks keys) (sinterstore \<epsilon> dest keys e)
     \<and> stored (union_of ks keys) (sunionstore \<epsilon> dest keys e)
     \<and> stored (diff_of ks keys) (sdiffstore \<epsilon> dest keys e)"
  using store_result_view [OF assms sinter_computes [OF assms, of keys], of dest]
    store_result_view [OF assms sunion_computes [OF assms, of keys], of dest]
    store_result_view [OF assms sdiff_computes [OF assms, of keys], of dest]
  unfolding Let_def sinterstore_def sunionstore_def sdiffstore_def by blast

theorem set_algebra_store_witness:
  "fst (sdiffstore sample_env ''d'' [''a'', ''b'']
      (engine_set sample_env ''a'' (VSet [''x'', ''y'']) (engine_new sample_env :: nat engine))) = Inr 2"
proof -
  let ?v = "VSet [''x'', ''y''] :: nat kvalue"
  have ok: "value_ok ?v" by simp
  show ?thesis
    using set_algebra_store [OF first_set(1) [OF ok, of sample_env "''a''" sample_env],
        of "[''a'', ''b'']" "''d''"]
    unfolding Let_def first_set(2) [OF ok]
    by (simp add: is_set_def union_of_def members_list_def)
qed

end
