(* ===== verification/Rm_ZSet.thy ===== *)
theory Rm_ZSet
  imports Rm_Command Rm_List
begin

text \<open>
  The sorted-set commands of \<open>crates/engine/src/commands/sorted_set.rs\<close>. A key denotes a finite
  map from members to scores; the two indexes of \<open>SortedSet\<close> are hidden behind it. The lemmas show
  that the commands are those of that map, and that \<open>ZRANGE\<close> and \<open>ZRANK\<close> follow its pairs in
  ascending order of score and then of member. Adding scores is the \<open>+\<close> of the score type, of
  which nothing is assumed.
\<close>

section \<open>Operations\<close>

fun zadd_mut :: "'f \<Rightarrow> bytes \<Rightarrow> ('f::linorder, engine_error + bool option) mutator" where
  "zadd_mut score member (VSortedSet z) =
     (let is_new = (zs_score z member = None);
          z' = zs_insert member score z;
          size_delta = (if is_new then int (length member) + 24 else 0)
      in (Inr (Some is_new), size_delta, VSortedSet z'))"
| "zadd_mut score member v = (Inl WrongType, 0, v)"

definition zadd ::
  "env \<Rightarrow> bytes \<Rightarrow> 'f \<Rightarrow> bytes \<Rightarrow> 'f::linorder engine \<Rightarrow> (engine_error + bool) \<times> 'f engine" where
  "zadd \<epsilon> key score member e =
     upsert \<epsilon> key (zadd_mut score member) True (Some (VSortedSet (zs_insert member score zs_new))) e"

definition zscore ::
  "env \<Rightarrow> bytes \<Rightarrow> bytes \<Rightarrow> 'f::linorder engine \<Rightarrow> (engine_error + 'f option) \<times> 'f engine" where
  "zscore \<epsilon> key member e = engine_with_ref \<epsilon> key
     (\<lambda>v. case v of None \<Rightarrow> Inr None | Some (VSortedSet z) \<Rightarrow> Inr (zs_score z member)
          | Some _ \<Rightarrow> Inl WrongType) e"

fun zrem_loop :: "bytes list \<Rightarrow> int \<times> int \<times> 'f::linorder sorted_set \<Rightarrow> int \<times> int \<times> 'f sorted_set" where
  "zrem_loop [] acc = acc"
| "zrem_loop (member # members) (removed, size_delta, z) =
     (let (present, z') = zs_remove member z
      in if present
         then zrem_loop members (removed + 1, size_delta - (int (length member) + 24), z')
         else zrem_loop members (removed, size_delta, z'))"

fun zrem_mut :: "bytes list \<Rightarrow> ('f::linorder, engine_error + int) mutator" where
  "zrem_mut members (VSortedSet z) =
     (let (removed, size_delta, z') = zrem_loop members (0, 0, z)
      in (Inr removed, size_delta, VSortedSet z'))"
| "zrem_mut members v = (Inl WrongType, 0, v)"

definition zrem ::
  "env \<Rightarrow> bytes \<Rightarrow> bytes list \<Rightarrow> 'f::linorder engine \<Rightarrow> (engine_error + int) \<times> 'f engine" where
  "zrem \<epsilon> key members e = engine_with_mut_delta \<epsilon> key (zrem_mut members) (Inr 0) e"

definition zcard :: "env \<Rightarrow> bytes \<Rightarrow> 'f::linorder engine \<Rightarrow> (engine_error + nat) \<times> 'f engine" where
  "zcard \<epsilon> key e = engine_with_ref \<epsilon> key
     (\<lambda>v. case v of None \<Rightarrow> Inr 0 | Some (VSortedSet z) \<Rightarrow> Inr (zs_len z) | Some _ \<Rightarrow> Inl WrongType) e"

fun zincrby_mut :: "'f \<Rightarrow> bytes \<Rightarrow> ('f::{linorder,plus,zero}, engine_error + 'f option) mutator" where
  "zincrby_mut delta member (VSortedSet z) =
     (let is_new = (zs_score z member = None);
          new_score = (case zs_score z member of Some s \<Rightarrow> s | None \<Rightarrow> 0) + delta;
          z' = zs_insert member new_score z;
          size_delta = (if is_new then int (length member) + 24 else 0)
      in (Inr (Some new_score), size_delta, VSortedSet z'))"
| "zincrby_mut delta member v = (Inl WrongType, 0, v)"

definition zincrby ::
  "env \<Rightarrow> bytes \<Rightarrow> 'f \<Rightarrow> bytes \<Rightarrow> 'f::{linorder,plus,zero} engine \<Rightarrow> (engine_error + 'f) \<times> 'f engine" where
  "zincrby \<epsilon> key delta member e =
     upsert \<epsilon> key (zincrby_mut delta member) delta (Some (VSortedSet (zs_insert member delta zs_new))) e"

definition zrange_of :: "int \<Rightarrow> int \<Rightarrow> 'f::linorder sorted_set \<Rightarrow> bytes list" where
  "zrange_of start stop z =
     (let len = int (zs_len z);
          norm = (\<lambda>i. if i < 0 then max (len + i) 0 else min i len);
          s = norm start;
          e = norm stop + 1
      in if s \<ge> e then [] else take (nat (e - s)) (drop (nat s) (zs_members_ascending z)))"

definition zrange ::
  "env \<Rightarrow> bytes \<Rightarrow> int \<Rightarrow> int \<Rightarrow> 'f::linorder engine \<Rightarrow> (engine_error + bytes list) \<times> 'f engine" where
  "zrange \<epsilon> key start stop e = engine_with_ref \<epsilon> key
     (\<lambda>v. case v of None \<Rightarrow> Inr [] | Some (VSortedSet z) \<Rightarrow> Inr (zrange_of start stop z)
          | Some _ \<Rightarrow> Inl WrongType) e"

definition zrank ::
  "env \<Rightarrow> bytes \<Rightarrow> bytes \<Rightarrow> 'f::linorder engine \<Rightarrow> (engine_error + nat option) \<times> 'f engine" where
  "zrank \<epsilon> key member e = engine_with_ref \<epsilon> key
     (\<lambda>v. case v of None \<Rightarrow> Inr None
          | Some (VSortedSet z) \<Rightarrow> Inr (position (\<lambda>m. m = member) (zs_members_ascending z))
          | Some _ \<Rightarrow> Inl WrongType) e"

section \<open>Byte deltas\<close>

lemma zs_remove_present: "fst (zs_remove m z) \<longleftrightarrow> zs_score z m \<noteq> None"
  by (simp add: zs_remove_def zs_score_def split: option.split)

lemma zs_score_empty: "zs_ok z \<Longrightarrow> zs_is_empty z \<longleftrightarrow> zs_score z = Map.empty"
  by (simp add: zs_is_empty_def zs_score_def fun_eq_iff) (cases "scores z", auto)

lemma value_ok_VSortedSet [simp]:
  "value_ok (VSortedSet z) \<longleftrightarrow> zs_ok z \<and> zs_score z \<noteq> Map.empty"
  by (auto simp: value_ok_def zs_score_empty)

lemma zrem_loop_spec:
  assumes "zrem_loop ms (n, d, z) = (n', d', z')" and "zs_ok z"
  shows "zs_score z' = zs_score z |` (- set ms) \<and> zs_ok z'
    \<and> int (zset_size z') - d' = int (zset_size z) - d
    \<and> n' = n + int (card (set ms \<inter> dom (zs_score z)))"
  using assms
proof (induction ms arbitrary: n d z)
  case (Cons m ms)
  let ?z = "snd (zs_remove m z)"
  define h where "h = zs_score ?z"
  have h: "h k = (if k = m then None else zs_score z k)" for k by (simp add: h_def)
  have r: "zs_score z |` (- set (m # ms)) = h |` (- set ms)"
    by (rule ext) (simp add: restrict_map_def h)
  show ?case
  proof (cases "zs_score z m")
    case None
    then have "set (m # ms) \<inter> dom (zs_score z) = set ms \<inter> dom (zs_score z)" by auto
    moreover have "h = zs_score z" using None by (simp add: h fun_eq_iff)
    ultimately show ?thesis
      using None Cons.IH [of n d z] Cons.prems r by (simp add: zs_remove_absent)
  next
    case (Some s)
    then have "set (m # ms) \<inter> dom (zs_score z) = insert m (set ms \<inter> dom h)"
      by (auto simp: h split: if_splits)
    then have c: "card (set (m # ms) \<inter> dom (zs_score z)) = Suc (card (set ms \<inter> dom h))"
      by (simp add: domIff h)
    have "zrem_loop ms (n + 1, d - (int (length m) + 24), ?z) = (n', d', z')"
      using Cons.prems(1) Some zs_remove_present [of m z] by (simp add: Let_def split_def)
    from Cons.IH [OF this zs_ok_remove [OF Cons.prems(2)], folded h_def] Some
      zset_size_remove [OF Cons.prems(2), of m]
    show ?thesis unfolding c r by simp
  qed
qed (simp add: restrict_map_def)

lemma zadd_mut_exact [simp]: "delta_exact (\<lambda>v. snd (zadd_mut s m v))"
proof (rule delta_exactI)
  fix v :: "'a kvalue" assume "value_ok v"
  then show "int (approx_size (snd (snd (zadd_mut s m v)))) = int (approx_size v) + fst (snd (zadd_mut s m v))"
    and "value_wf (snd (snd (zadd_mut s m v)))"
    by (cases v; simp add: value_ok_def Let_def zset_size_insert)+
qed

lemma zincrby_mut_exact [simp]: "delta_exact (\<lambda>v. snd (zincrby_mut s m v))"
proof (rule delta_exactI)
  fix v :: "'a kvalue" assume "value_ok v"
  then show "int (approx_size (snd (snd (zincrby_mut s m v)))) = int (approx_size v) + fst (snd (zincrby_mut s m v))"
    and "value_wf (snd (snd (zincrby_mut s m v)))"
    by (cases v; simp add: value_ok_def Let_def zset_size_insert)+
qed

lemma zrem_mut_exact [simp]: "delta_exact (\<lambda>v. snd (zrem_mut ms v))"
proof (rule delta_exactI)
  fix v :: "'a kvalue" assume v: "value_ok v"
  have "int (approx_size (snd (snd (zrem_mut ms v)))) = int (approx_size v) + fst (snd (zrem_mut ms v))
      \<and> value_wf (snd (snd (zrem_mut ms v)))"
  proof (cases v)
    case (VSortedSet z)
    obtain n d z' where "zrem_loop ms (0, 0, z) = (n, d, z')" by (metis prod_cases3)
    with zrem_loop_spec [OF this] VSortedSet v show ?thesis by auto
  qed (use v in \<open>simp_all add: value_ok_def\<close>)
  then show "int (approx_size (snd (snd (zrem_mut ms v)))) = int (approx_size v) + fst (snd (zrem_mut ms v))"
    and "value_wf (snd (snd (zrem_mut ms v)))" by simp_all
qed

lemma zadd_answers [simp]: "answers (zadd_mut s m)"
  unfolding answers_def by (intro allI, case_tac v) (simp_all add: Let_def)

lemma zincrby_answers [simp]: "answers (zincrby_mut s m)"
  unfolding answers_def by (intro allI, case_tac v) (simp_all add: Let_def)

lemma zrem_mut_VSortedSet:
  assumes "zs_ok z"
  shows "fst (zrem_mut ms (VSortedSet z)) = Inr (int (card (set ms \<inter> dom (zs_score z))))"
    and "\<exists>z'. snd (snd (zrem_mut ms (VSortedSet z))) = VSortedSet z' \<and> zs_ok z'
      \<and> zs_score z' = zs_score z |` (- set ms)"
proof -
  obtain n d z' where loop: "zrem_loop ms (0, 0, z) = (n, d, z')" by (metis prod_cases3)
  from zrem_loop_spec [OF loop assms] loop
  show "fst (zrem_mut ms (VSortedSet z)) = Inr (int (card (set ms \<inter> dom (zs_score z))))"
    and "\<exists>z'. snd (snd (zrem_mut ms (VSortedSet z))) = VSortedSet z' \<and> zs_ok z'
      \<and> zs_score z' = zs_score z |` (- set ms)"
    by simp_all
qed

declare zrem_mut.simps(1) [simp del]

section \<open>Effects on the live view\<close>

definition score_map :: "'f::linorder keyspace \<Rightarrow> bytes \<Rightarrow> bytes \<rightharpoonup> 'f" where
  "score_map ks key = (case ks key of Some (VSortedSet z, _) \<Rightarrow> zs_score z | _ \<Rightarrow> Map.empty)"

definition is_zset :: "'f keyspace \<Rightarrow> bytes \<Rightarrow> bool" where
  "is_zset ks key = (case ks key of None \<Rightarrow> True | Some (VSortedSet _, _) \<Rightarrow> True | _ \<Rightarrow> False)"

definition holds_zset :: "'f::linorder keyspace \<Rightarrow> bytes \<Rightarrow> (bytes \<rightharpoonup> 'f) \<Rightarrow> instant option \<Rightarrow> bool" where
  "holds_zset ks key h x \<longleftrightarrow>
     (if h = Map.empty then ks key = None
      else \<exists>z. ks key = Some (VSortedSet z, x) \<and> zs_ok z \<and> zs_score z = h)"

interpretation zc: collection "VSortedSet :: 'f sorted_set \<Rightarrow> 'f::linorder kvalue" zs_ok zs_score Map.empty
  by unfold_locales (simp_all add: zs_score_empty)

lemma holds_zset_stores: "holds_zset ks key h x \<longleftrightarrow> zc.stores ks key h x"
  by (auto simp: holds_zset_def zc.stores_def)

lemma is_zset_cases:
  assumes "is_zset ks key"
  obtains "ks key = None" | z x where "ks key = Some (VSortedSet z, x)"
  using assms by (auto simp: is_zset_def split: option.splits kvalue.splits)

lemma live_zset_ok:
  "unlimited \<epsilon> e \<Longrightarrow> live \<epsilon> e key = Some (VSortedSet z, x) \<Longrightarrow> zs_ok z \<and> zs_score z \<noteq> Map.empty"
  using live_value_ok by fastforce

lemma is_zset_stores:
  assumes "unlimited \<epsilon> e" and "is_zset (live \<epsilon> e) key"
  shows "zc.stores (live \<epsilon> e) key (score_map (live \<epsilon> e) key) (deadline (live \<epsilon> e) key)"
    and "score_map (live \<epsilon> e) key = Map.empty \<Longrightarrow> deadline (live \<epsilon> e) key = None"
  using assms(2)
  by (cases rule: is_zset_cases;
      use live_zset_ok [OF assms(1)] in \<open>simp add: zc.stores_def score_map_def deadline_def\<close>)+

lemma zadd_view:
  fixes e :: "'f::linorder engine"
  assumes "unlimited \<epsilon> e" and "is_zset (live \<epsilon> e) key"
  shows "fst (zadd \<epsilon> key s m e) = Inr (score_map (live \<epsilon> e) key m = None)"
    and "holds_zset (live \<epsilon> (snd (zadd \<epsilon> key s m e))) key ((score_map (live \<epsilon> e) key)(m \<mapsto> s))
      (deadline (live \<epsilon> e) key)
      \<and> (\<forall>k. k \<noteq> key \<longrightarrow> live \<epsilon> (snd (zadd \<epsilon> key s m e)) k = live \<epsilon> e k)"
proof -
  note store = is_zset_stores [OF assms]
  show "fst (zadd \<epsilon> key s m e) = Inr (score_map (live \<epsilon> e) key m = None)"
    unfolding zadd_def by (rule zc.upserted_reply [OF assms(1) store(1)]) (simp_all add: Let_def)
  show "holds_zset (live \<epsilon> (snd (zadd \<epsilon> key s m e))) key ((score_map (live \<epsilon> e) key)(m \<mapsto> s))
      (deadline (live \<epsilon> e) key)
      \<and> (\<forall>k. k \<noteq> key \<longrightarrow> live \<epsilon> (snd (zadd \<epsilon> key s m e)) k = live \<epsilon> e k)"
    unfolding zadd_def holds_zset_stores
    by (rule zc.stores_upserted [OF assms(1) store])
      (auto simp: Let_def fun_eq_iff)
qed

lemma zincrby_view:
  fixes e :: "'f::{linorder,monoid_add} engine" and d :: 'f and m :: bytes
  assumes "unlimited \<epsilon> e" and "is_zset (live \<epsilon> e) key"
  defines "h \<equiv> score_map (live \<epsilon> e) key"
  defines "s' \<equiv> (case h m of Some s \<Rightarrow> s | None \<Rightarrow> 0) + d"
  shows "fst (zincrby \<epsilon> key d m e) = Inr s'"
    and "holds_zset (live \<epsilon> (snd (zincrby \<epsilon> key d m e))) key (h(m \<mapsto> s')) (deadline (live \<epsilon> e) key)
      \<and> (\<forall>k. k \<noteq> key \<longrightarrow> live \<epsilon> (snd (zincrby \<epsilon> key d m e)) k = live \<epsilon> e k)"
proof -
  note store = is_zset_stores [OF assms(1,2), folded h_def]
  show "fst (zincrby \<epsilon> key d m e) = Inr s'"
    unfolding zincrby_def
    by (rule zc.upserted_reply [OF assms(1) store(1)]) (simp_all add: Let_def s'_def)
  show "holds_zset (live \<epsilon> (snd (zincrby \<epsilon> key d m e))) key (h(m \<mapsto> s')) (deadline (live \<epsilon> e) key)
      \<and> (\<forall>k. k \<noteq> key \<longrightarrow> live \<epsilon> (snd (zincrby \<epsilon> key d m e)) k = live \<epsilon> e k)"
    unfolding zincrby_def holds_zset_stores
    by (rule zc.stores_upserted [OF assms(1) store])
      (auto simp: Let_def fun_eq_iff s'_def)
qed

lemma zrem_view:
  fixes e :: "'f::linorder engine"
  assumes "unlimited \<epsilon> e" and "is_zset (live \<epsilon> e) key"
  shows "fst (zrem \<epsilon> key ms e) = Inr (int (card (set ms \<inter> dom (score_map (live \<epsilon> e) key))))"
    and "holds_zset (live \<epsilon> (snd (zrem \<epsilon> key ms e))) key (score_map (live \<epsilon> e) key |` (- set ms))
      (deadline (live \<epsilon> e) key)
      \<and> (\<forall>k. k \<noteq> key \<longrightarrow> live \<epsilon> (snd (zrem \<epsilon> key ms e)) k = live \<epsilon> e k)"
proof -
  note store = is_zset_stores [OF assms]
  show "fst (zrem \<epsilon> key ms e) = Inr (int (card (set ms \<inter> dom (score_map (live \<epsilon> e) key))))"
    unfolding zrem_def by (rule zc.mutated_reply [OF store(1)]) (simp_all add: zrem_mut_VSortedSet(1))
  show "holds_zset (live \<epsilon> (snd (zrem \<epsilon> key ms e))) key (score_map (live \<epsilon> e) key |` (- set ms))
      (deadline (live \<epsilon> e) key)
      \<and> (\<forall>k. k \<noteq> key \<longrightarrow> live \<epsilon> (snd (zrem \<epsilon> key ms e)) k = live \<epsilon> e k)"
    unfolding zrem_def holds_zset_stores
    by (rule zc.stores_mutated [OF assms(1) store(1)])
      (use zrem_mut_VSortedSet(2) in fastforce, simp add: restrict_map_def)
qed

section \<open>Ranks\<close>

text \<open>The members of a score map in ascending order of score, and of member among equal scores.\<close>

definition ranked :: "(bytes \<rightharpoonup> 'f::linorder) \<Rightarrow> bytes list" where
  "ranked h = map snd (sorted_list_of_set {(s, m). h m = Some s})"

text \<open>How many members come before a member in that order.\<close>

definition rank_of :: "(bytes \<rightharpoonup> 'f::linorder) \<Rightarrow> bytes \<Rightarrow> nat option" where
  "rank_of h m = map_option (\<lambda>s. card {(s', m'). h m' = Some s' \<and> (s' < s \<or> s' = s \<and> m' < m)}) (h m)"

lemma ranked_members: "zs_ok z \<Longrightarrow> zs_members_ascending z = ranked (zs_score z)"
  by (simp add: zs_members_ascending_def ranked_def by_score_canonical)

lemma card_below_nth:
  fixes l :: "'a::linorder list"
  assumes "sorted l" and "distinct l" and "i < length l"
  shows "card {y \<in> set l. y < l ! i} = i"
proof -
  have "{y \<in> set l. y < l ! i} = set (take i l)"
  proof (intro equalityI subsetI)
    fix y assume "y \<in> {y \<in> set l. y < l ! i}"
    then obtain j where "j < length l" "y = l ! j" "l ! j < l ! i" by (auto simp: in_set_conv_nth)
    moreover from this have "j < i" using assms by (meson leD not_le_imp_less sorted_nth_mono)
    ultimately show "y \<in> set (take i l)" using assms(3) by (auto simp: in_set_conv_nth)
  next
    fix y assume "y \<in> set (take i l)"
    then obtain j where j: "j < i" "y = l ! j" by (auto simp: in_set_conv_nth)
    then have "l ! j \<le> l ! i" "l ! j \<noteq> l ! i"
      using assms by (simp_all add: sorted_nth_mono nth_eq_iff_index_eq)
    with j assms(3) show "y \<in> {y \<in> set l. y < l ! i}" by simp
  qed
  then show ?thesis using assms by (simp add: distinct_card distinct_take)
qed

lemma position_nth: "distinct l \<Longrightarrow> i < length l \<Longrightarrow> position (\<lambda>x. x = l ! i) l = Some i"
  by (induction l arbitrary: i) (auto simp: less_Suc_eq_0_disj nth_Cons')

lemma position_rank_of:
  assumes "zs_ok z"
  shows "position (\<lambda>x. x = m) (zs_members_ascending z) = rank_of (zs_score z) m"
proof (cases "zs_score z m")
  case None
  then have "m \<notin> set (zs_members_ascending z)" using zs_members_set [OF assms] by simp
  then show ?thesis using None by (auto simp: rank_of_def position_None)
next
  case (Some s)
  then have "(s, m) \<in> set (by_score z)" using assms by (simp add: zs_ok_def zs_score_def)
  then obtain i where i: "i < length (by_score z)" "by_score z ! i = (s, m)" by (auto simp: in_set_conv_nth)
  then have "position (\<lambda>x. x = m) (zs_members_ascending z) = Some i"
    using position_nth [OF zs_members_distinct [OF assms], of i] by (simp add: zs_members_ascending_def)
  moreover have "{(s', m'). zs_score z m' = Some s' \<and> (s' < s \<or> s' = s \<and> m' < m)} =
      {p \<in> set (by_score z). p < by_score z ! i}"
    using assms i(2) by (auto simp: zs_ok_def zs_score_def less_prod_def less_le)
  ultimately show ?thesis
    using card_below_nth [OF _ _ i(1)] assms by (simp add: rank_of_def Some zs_ok_def)
qed

lemma zrange_of_lrange_of:
  assumes "zs_ok z"
  shows "zrange_of start stop z = lrange_of start stop (zs_members_ascending z)"
  by (simp add: zrange_of_def lrange_of_def normalize_range_def Let_def nat_diff_distrib
      flip: zs_len_members [OF assms])

lemma zset_reads:
  fixes e :: "'f::linorder engine"
  assumes "unlimited \<epsilon> e" and "is_zset (live \<epsilon> e) key"
  defines "h \<equiv> score_map (live \<epsilon> e) key"
  shows "fst (zscore \<epsilon> key m e) = Inr (h m)"
    and "fst (zcard \<epsilon> key e) = Inr (card (dom h))"
    and "fst (zrank \<epsilon> key m e) = Inr (rank_of h m)"
    and "fst (zrange \<epsilon> key start stop e) = Inr (lrange_of start stop (ranked h))"
proof -
  note store = is_zset_stores(1) [OF assms(1,2), folded h_def]
  have len: "zs_len z = card (dom (zs_score z))" if "zs_ok z" for z :: "'f sorted_set"
    using that by (metis distinct_card dom_def zs_len_members zs_members_distinct zs_members_set)
  show "fst (zscore \<epsilon> key m e) = Inr (h m)" and "fst (zcard \<epsilon> key e) = Inr (card (dom h))"
    unfolding zscore_def zcard_def by (rule zc.read_reply [OF store]; auto simp: len)+
  show "fst (zrank \<epsilon> key m e) = Inr (rank_of h m)"
    unfolding zrank_def
    by (rule zc.read_reply [OF store]) (simp_all add: position_rank_of, simp add: rank_of_def)
  show "fst (zrange \<epsilon> key start stop e) = Inr (lrange_of start stop (ranked h))"
    unfolding zrange_def
    by (rule zc.read_reply [OF store])
      (simp_all add: zrange_of_lrange_of ranked_members, simp add: ranked_def)
qed

section \<open>Properties\<close>





end
