(* ===== verification/Rm_Glob.thy ===== *)
theory Rm_Glob
  imports Rm_Prelude
begin

text \<open>
  The glob matcher of \<open>crates/engine/src/glob.rs\<close>, used by \<open>KEYS\<close>, \<open>SCAN\<close>, the pattern
  subscriptions and the key rules of the access-control list. The matcher walks a token index and a
  text index and remembers only the most recent \<open>*\<close> as a backtrack point. It is shown to terminate
  and to decide the same language as the naive matcher, which tries every length for every \<open>*\<close>.
\<close>

section \<open>Operations\<close>

datatype token = TLiteral char | TAny | TStar | TClass string bool

text \<open>The recursion is on what is left of the pattern, \<open>pattern[i..]\<close>.\<close>

fun tokenize :: "string \<Rightarrow> token list" where
  "tokenize [] = []"
| "tokenize (c # rest) =
     (if c = CHR 0x5C \<and> rest \<noteq> [] then TLiteral (hd rest) # tokenize (tl rest)
      else if c = CHR ''*'' then TStar # tokenize rest
      else if c = CHR ''?'' then TAny # tokenize rest
      else if c = CHR ''['' then
        (case position (\<lambda>b. b = CHR '']'') (c # rest) of
           Some close \<Rightarrow>
             (let body = take (close - 1) rest;
                  negate = (body \<noteq> [] \<and> (hd body = CHR ''^'' \<or> hd body = CHR ''!''))
              in TClass (if negate then tl body else body) negate # tokenize (drop close rest))
         | None \<Rightarrow> TLiteral (CHR ''['') # tokenize rest)
      else TLiteral c # tokenize rest)"

text \<open>The recursion is on \<open>class[i..]\<close>; two more bytes are needed after \<open>i\<close> to complete a range.\<close>

fun class_matches :: "string \<Rightarrow> char \<Rightarrow> bool" where
  "class_matches (lo # dash # hi # rest) c =
     (if dash = CHR ''-'' then (if lo \<le> c \<and> c \<le> hi then True else class_matches rest c)
      else if lo = c then True else class_matches (dash # hi # rest) c)"
| "class_matches (a # rest) c = (if a = c then True else class_matches rest c)"
| "class_matches [] c = False"

fun token_matches :: "token \<Rightarrow> char \<Rightarrow> bool" where
  "token_matches (TLiteral l) c = (l = c)"
| "token_matches TAny c = True"
| "token_matches (TClass body negate) c = (class_matches body c \<noteq> negate)"
| "token_matches TStar c = False"

text \<open>The second loop of \<open>glob_match\<close>: skip the stars from index \<open>ti\<close> on.\<close>

fun skip_stars :: "token list \<Rightarrow> bool" where
  "skip_stars (TStar # ts) = skip_stars ts"
| "skip_stars ts = (ts = [])"

definition star_bounded :: "nat \<Rightarrow> nat \<Rightarrow> nat option \<Rightarrow> nat \<Rightarrow> bool" where
  "star_bounded ti si star_ti star_si \<longleftrightarrow>
     star_si \<le> si \<and> (case star_ti of None \<Rightarrow> True | Some st \<Rightarrow> st < ti)"

function (sequential) glob_loop ::
  "token list \<Rightarrow> string \<Rightarrow> nat \<Rightarrow> nat \<Rightarrow> nat option \<Rightarrow> nat \<Rightarrow> bool" where
  "glob_loop ts text ti si star_ti star_si =
     (if si < length text then
        if ti < length ts \<and> token_matches (ts ! ti) (text ! si)
        then glob_loop ts text (ti + 1) (si + 1) star_ti star_si
        else if ti < length ts \<and> ts ! ti = TStar
        then glob_loop ts text (ti + 1) si (Some ti) si
        else case star_ti of
            Some st \<Rightarrow> glob_loop ts text (st + 1) (star_si + 1) star_ti (star_si + 1)
          | None \<Rightarrow> False
      else skip_stars (drop ti ts))"
  by pat_completeness auto
termination
  by (relation "measures
      [\<lambda>(ts, text, ti, si, star_ti, star_si). if star_bounded ti si star_ti star_si then 0 else 1,
       \<lambda>(ts, text, ti, si, star_ti, star_si). length text - star_si,
       \<lambda>(ts, text, ti, si, star_ti, star_si).
         case star_ti of None \<Rightarrow> Suc (length ts) | Some st \<Rightarrow> length ts - st,
       \<lambda>(ts, text, ti, si, star_ti, star_si). length text - si]")
    (auto simp: star_bounded_def split: option.splits)

definition glob_match :: "string \<Rightarrow> string \<Rightarrow> bool" where
  "glob_match pattern text = glob_loop (tokenize pattern) text 0 0 None 0"

declare glob_loop.simps [simp del]

section \<open>The naive matcher\<close>

fun matches :: "token list \<Rightarrow> string \<Rightarrow> bool" where
  "matches [] text = (text = [])"
| "matches (TStar # ts) [] = matches ts []"
| "matches (TStar # ts) (c # text) = (matches ts (c # text) \<or> matches (TStar # ts) text)"
| "matches (t # ts) [] = False"
| "matches (t # ts) (c # text) = (token_matches t c \<and> matches ts text)"

lemma matches_Nil: "matches ts [] = skip_stars ts"
  by (induction ts rule: skip_stars.induct) auto

lemma matches_cons: "t \<noteq> TStar \<Longrightarrow> matches (t # ts) (c # text) = (token_matches t c \<and> matches ts text)"
  by (cases t) auto

lemma matches_cons_Nil: "t \<noteq> TStar \<Longrightarrow> \<not> matches (t # ts) []"
  by (cases t) auto

lemma matches_star: "matches (TStar # ts) text \<longleftrightarrow> (\<exists>k. matches ts (drop k text))"
proof (induction "text")
  case (Cons c "text")
  show ?case
  proof
    assume "matches (TStar # ts) (c # text)"
    then consider "matches ts (drop 0 (c # text))" | k where "matches ts (drop (Suc k) (c # text))"
      using Cons.IH by auto
    then show "\<exists>k. matches ts (drop k (c # text))" by cases blast+
  next
    assume "\<exists>k. matches ts (drop k (c # text))"
    then obtain k where "matches ts (drop k (c # text))" by blast
    then show "matches (TStar # ts) (c # text)" using Cons.IH by (cases k) auto
  qed
qed simp

lemma matches_star_drop: "matches (TStar # ts) (drop k text) \<Longrightarrow> j \<le> k \<Longrightarrow> matches (TStar # ts) (drop j text)"
  unfolding matches_star drop_drop by (metis le_add_diff_inverse2 add.commute add.assoc)

lemma matches_star_step:
  "matches (TStar # ts) (drop k text) \<longleftrightarrow>
     matches ts (drop k text) \<or> matches (TStar # ts) (drop (Suc k) text)"
proof (cases "k < length text")
  case True
  then have "drop k text = text ! k # drop (Suc k) text" by (rule Cons_nth_drop_Suc [symmetric])
  then show ?thesis by simp
qed simp

text \<open>A stretch of tokens without a star consumes one byte each.\<close>

lemma matches_append_starless:
  "TStar \<notin> set p \<Longrightarrow> matches (p @ ts) text \<Longrightarrow> matches ts (drop (length p) text)"
proof (induction p arbitrary: "text")
  case (Cons t p)
  then show ?case by (cases "text") (auto simp: matches_cons matches_cons_Nil)
qed simp

section \<open>The backtrack point\<close>

text \<open>
  Between the last star and the token index there is no other star, and one byte of the text has
  been taken for each token there.
\<close>

definition backtrack_ok :: "token list \<Rightarrow> nat \<Rightarrow> nat \<Rightarrow> nat option \<Rightarrow> nat \<Rightarrow> bool" where
  "backtrack_ok ts ti si star_ti star_si \<longleftrightarrow>
     (case star_ti of None \<Rightarrow> True
      | Some st \<Rightarrow> st < ti \<and> (\<exists>p. drop (Suc st) ts = p @ drop ti ts \<and> TStar \<notin> set p
          \<and> length p = ti - Suc st \<and> si = star_si + length p))"

definition retry :: "token list \<Rightarrow> string \<Rightarrow> nat option \<Rightarrow> nat \<Rightarrow> bool" where
  "retry ts text star_ti star_si \<longleftrightarrow>
     (case star_ti of None \<Rightarrow> False
      | Some st \<Rightarrow> matches (TStar # drop (Suc st) ts) (drop (Suc star_si) text))"

text \<open>
  Why one backtrack point is enough: if letting an earlier star absorb more would lead to a match,
  then what is left of the tokens matches some later part of the text.
\<close>

lemma retry_later:
  assumes "backtrack_ok ts ti si star_ti star_si" and "retry ts text star_ti star_si"
  shows "\<exists>b > si. matches (drop ti ts) (drop b text)"
proof -
  obtain st p where st: "star_ti = Some st" "drop (Suc st) ts = p @ drop ti ts" "TStar \<notin> set p"
      "si = star_si + length p"
    using assms by (auto simp: backtrack_ok_def retry_def split: option.splits)
  then obtain k where "matches (p @ drop ti ts) (drop (k + Suc star_si) text)"
    using assms(2) by (auto simp: retry_def matches_star)
  from matches_append_starless [OF st(3) this]
  have "matches (drop ti ts) (drop (length p + (k + Suc star_si)) text)" by simp
  with st(4) show ?thesis by (intro exI [of _ "length p + (k + Suc star_si)"]) simp
qed

lemma backtrack_ok_advance:
  assumes "backtrack_ok ts ti si star_ti star_si" and "ti < length ts" and "ts ! ti \<noteq> TStar"
  shows "backtrack_ok ts (ti + 1) (si + 1) star_ti star_si"
proof (cases star_ti)
  case (Some st)
  then obtain p where p: "st < ti" "drop (Suc st) ts = p @ drop ti ts" "TStar \<notin> set p"
      "length p = ti - Suc st" "si = star_si + length p"
    using assms(1) by (auto simp: backtrack_ok_def)
  from p(2) assms(2) have "drop (Suc st) ts = (p @ [ts ! ti]) @ drop (Suc ti) ts"
    by (simp add: Cons_nth_drop_Suc)
  with p assms(3) show ?thesis
    by (auto simp: backtrack_ok_def Some intro!: exI [of _ "p @ [ts ! ti]"])
qed (simp add: backtrack_ok_def)

lemma glob_loop_matches:
  assumes "backtrack_ok ts ti si star_ti star_si"
  shows "glob_loop ts text ti si star_ti star_si \<longleftrightarrow>
    matches (drop ti ts) (drop si text) \<or> retry ts text star_ti star_si"
  using assms
proof (induction ts "text" ti si star_ti star_si rule: glob_loop.induct)
  case (1 ts "text" ti si star_ti star_si)
  note unf = glob_loop.simps [of ts "text" ti si star_ti star_si]
  consider (finished) "\<not> si < length text"
    | (one) "si < length text" "ti < length ts" "token_matches (ts ! ti) (text ! si)"
    | (star) "si < length text" "ti < length ts" "ts ! ti = TStar"
    | (stuck) "si < length text" "\<not> (ti < length ts \<and> token_matches (ts ! ti) (text ! si))"
        "\<not> (ti < length ts \<and> ts ! ti = TStar)"
    by blast
  then show ?case
  proof cases
    case finished
    then have "retry ts text star_ti star_si \<Longrightarrow> matches (drop ti ts) []"
      using retry_later [OF "1.prems", of "text"] by auto
    with finished show ?thesis by (auto simp: unf matches_Nil)
  next
    case one
    then have t: "ts ! ti \<noteq> TStar" by auto
    with one show ?thesis
      using "1.IH"(1) [OF one(1) conjI [OF one(2,3)] backtrack_ok_advance [OF "1.prems" one(2) t]]
      by (simp add: unf matches_cons flip: Cons_nth_drop_Suc)
  next
    case star
    then have d: "drop ti ts = TStar # drop (Suc ti) ts" by (metis Cons_nth_drop_Suc)
    have "retry ts text star_ti star_si \<Longrightarrow> matches (drop ti ts) (drop si text)"
      using retry_later [OF "1.prems", of "text"] matches_star_drop [of "drop (Suc ti) ts" _ "text" si]
      unfolding d by fastforce
    moreover have "backtrack_ok ts (ti + 1) si (Some ti) si" by (simp add: backtrack_ok_def)
    moreover have "\<not> token_matches (ts ! ti) (text ! si)" using star(3) by simp
    ultimately show ?thesis
      using star "1.IH"(2) [OF star(1)] d matches_star_step [of "drop (Suc ti) ts" si "text"]
      by (auto simp: unf retry_def)
  next
    case stuck
    then have no: "\<not> matches (drop ti ts) (drop si text)"
      by (cases "ti < length ts") (auto simp: matches_cons simp flip: Cons_nth_drop_Suc)
    show ?thesis
    proof (cases star_ti)
      case None
      with stuck no show ?thesis by (subst unf) (auto simp: retry_def)
    next
      case (Some st)
      have "backtrack_ok ts (st + 1) (star_si + 1) star_ti (star_si + 1)"
        by (simp add: backtrack_ok_def Some)
      with stuck no Some "1.IH"(3) [OF stuck Some] show ?thesis
        using matches_star_step [of "drop (Suc st) ts" "Suc star_si" "text"]
        by (subst unf) (auto simp: retry_def)
    qed
  qed
qed

lemma glob_match_matches: "glob_match pattern text = matches (tokenize pattern) text"
  unfolding glob_match_def
  using glob_loop_matches [of "tokenize pattern" 0 0 None 0 "text"]
  by (simp add: backtrack_ok_def retry_def)

section \<open>Plain patterns\<close>

definition plain :: "string \<Rightarrow> bool" where
  "plain pattern \<longleftrightarrow> set pattern \<inter> {CHR 0x5C, CHR ''*'', CHR ''?'', CHR ''[''} = {}"

lemma tokenize_plain: "plain pattern \<Longrightarrow> tokenize pattern = map TLiteral pattern"
  by (induction pattern) (auto simp: plain_def)

lemma matches_literals: "matches (map TLiteral p) text \<longleftrightarrow> text = p"
proof (induction p arbitrary: "text")
  case (Cons c p)
  then show ?case by (cases "text") auto
qed simp

lemma matches_all: "matches [TStar] text"
  by (induction "text") simp_all

section \<open>Properties\<close>

text \<open>
  C19: The two-pointer matcher with one backtrack point decides the same language as the naive
  matcher that tries every length for every \<open>*\<close>, on every pattern and every text, and it always
  returns.
\<close>

theorem glob_match_naive: "glob_match pattern text = matches (tokenize pattern) text"
  by (rule glob_match_matches)

text \<open>
  A pattern without metacharacters matches exactly itself, and the pattern \<open>*\<close> matches every
  text.
\<close>

lemma glob_match_plain:
  "(plain pattern \<longrightarrow> glob_match pattern text = (text = pattern)) \<and> glob_match ''*'' text"
  by (simp add: glob_match_matches tokenize_plain matches_literals matches_all)

end
