(* ===== verification/Rm_Bytes.thy ===== *)
theory Rm_Bytes
  imports Rm_Text
begin

text \<open>
  Fixed-width integers as bytes (\<open>to_le_bytes\<close>, \<open>from_le_bytes\<close>, and the big-endian
  \<open>put_u32\<close>, \<open>get_u32\<close> and so on of the \<open>bytes\<close> crate's cursors), the wrapping cast to \<open>i64\<close>,
  and the two clock conversions of \<open>crates/common/src/lib.rs\<close>. The lemmas are the round trips.
\<close>

section \<open>Little-endian and big-endian bytes\<close>

fun le_bytes :: "nat \<Rightarrow> nat \<Rightarrow> bytes" where
  "le_bytes 0 x = []"
| "le_bytes (Suc n) x = char_of (x mod 256) # le_bytes n (x div 256)"

fun le_value :: "bytes \<Rightarrow> nat" where
  "le_value [] = 0"
| "le_value (b # bs) = byte b + 256 * le_value bs"

definition be_bytes :: "nat \<Rightarrow> nat \<Rightarrow> bytes" where
  "be_bytes n x = rev (le_bytes n x)"

definition be_value :: "bytes \<Rightarrow> nat" where
  "be_value bs = le_value (rev bs)"

lemma length_le_bytes [simp]: "length (le_bytes n x) = n"
  by (induction n arbitrary: x) simp_all

lemma length_be_bytes [simp]: "length (be_bytes n x) = n"
  by (simp add: be_bytes_def)

lemma byte_less: "byte c < 256"
  by (rule nat_of_char_less_256)

lemma le_value_le_bytes: "x < 256 ^ n \<Longrightarrow> le_value (le_bytes n x) = x"
  by (induction n arbitrary: x) (simp_all add: less_mult_imp_div_less mult.commute)

lemma le_value_less: "le_value bs < 256 ^ length bs"
proof (induction bs)
  case (Cons b bs)
  have "a + 256 * x < 256 * p" if "a < 256" "x < p" for a x p :: nat using that by linarith
  from this [OF byte_less Cons.IH] show ?case by simp
qed simp

lemma le_bytes_le_value: "le_bytes (length bs) (le_value bs) = bs"
proof (induction bs)
  case (Cons b bs)
  then show ?case using byte_less [of b] by simp
qed simp

lemma be_value_be_bytes: "x < 256 ^ n \<Longrightarrow> be_value (be_bytes n x) = x"
  by (simp add: be_value_def be_bytes_def le_value_le_bytes)

lemma be_value_less: "be_value bs < 256 ^ length bs"
  using le_value_less [of "rev bs"] by (simp add: be_value_def)

lemma be_bytes_be_value: "be_bytes (length bs) (be_value bs) = bs"
  using le_bytes_le_value [of "rev bs"] by (simp add: be_value_def be_bytes_def)

section \<open>Casts\<close>

text \<open>\<open>x as i64\<close>, and \<open>+\<close> and \<open>-\<close> on \<open>i64\<close> in a release build: the value modulo \<open>2 ^ 64\<close>.\<close>

definition wrap_i64 :: "int \<Rightarrow> int" where
  "wrap_i64 x = sint (word_of_int x :: u64)"

lemma wrap_i64_id: "in_i64 x \<Longrightarrow> wrap_i64 x = x"
  by (simp add: wrap_i64_def in_i64_def sint_sbintrunc' signed_take_bit_int_eq_self)

section \<open>The two clocks\<close>

definition now_unix_ms :: "env \<Rightarrow> int" where
  "now_unix_ms \<epsilon> = wrap_i64 (int (env_unix \<epsilon> div nanos_per_milli))"

definition instant_from_unix_ms :: "env \<Rightarrow> int \<Rightarrow> instant" where
  "instant_from_unix_ms \<epsilon> target_unix_ms =
     (let target = nat (max target_unix_ms 0) * nanos_per_milli;
          delta = (if env_unix \<epsilon> \<le> target then target - env_unix \<epsilon> else 0)
      in env_now \<epsilon> + delta)"

definition unix_ms_from_instant :: "env \<Rightarrow> instant \<Rightarrow> int" where
  "unix_ms_from_instant \<epsilon> at =
     (if at \<ge> env_now \<epsilon>
      then wrap_i64 (now_unix_ms \<epsilon> + wrap_i64 (int ((at - env_now \<epsilon>) div nanos_per_milli)))
      else wrap_i64 (now_unix_ms \<epsilon> - wrap_i64 (int ((env_now \<epsilon> - at) div nanos_per_milli))))"

text \<open>The wall-clock reading, in nanoseconds, at which an instant in the future comes.\<close>

definition wall :: "env \<Rightarrow> instant \<Rightarrow> nat" where
  "wall \<epsilon> at = env_unix \<epsilon> + (at - env_now \<epsilon>)"

lemma in_i64_of_nat: "in_i64 (int n) \<longleftrightarrow> n < 2 ^ 63"
  by (auto simp: in_i64_def)

lemma div_sum_bounds:
  fixes a b m :: nat
  assumes "0 < m"
  shows "(a div m + b div m) * m \<le> a + b" and "a + b < (a div m + b div m) * m + 2 * m"
  using div_mult_mod_eq [of a m] div_mult_mod_eq [of b m] mod_less_divisor [OF assms, of a]
    mod_less_divisor [OF assms, of b]
  by (simp_all only: add_mult_distrib)

lemma unix_ms_bounds:
  assumes "env_now \<epsilon> \<le> at" and "wall \<epsilon> at div nanos_per_milli < 2 ^ 63"
  obtains ms where "unix_ms_from_instant \<epsilon> at = int ms"
    and "ms * nanos_per_milli \<le> wall \<epsilon> at" and "wall \<epsilon> at < ms * nanos_per_milli + 2 * nanos_per_milli"
    and "ms < 2 ^ 63"
proof -
  define a b where "a = env_unix \<epsilon> div nanos_per_milli" and "b = (at - env_now \<epsilon>) div nanos_per_milli"
  have bounds: "(a + b) * nanos_per_milli \<le> wall \<epsilon> at"
      "wall \<epsilon> at < (a + b) * nanos_per_milli + 2 * nanos_per_milli"
    unfolding a_def b_def wall_def by (rule div_sum_bounds; simp)+
  then have lt: "a + b < 2 ^ 63"
    using assms(2) by (meson div_le_mono le_trans less_eq_div_iff_mult_less_eq not_le zero_less_numeral)
  then have "a < 2 ^ 63" "b < 2 ^ 63" by linarith+
  with lt assms(1) have ms: "unix_ms_from_instant \<epsilon> at = int (a + b)"
    unfolding unix_ms_from_instant_def now_unix_ms_def a_def [symmetric] b_def [symmetric]
    by (simp only: wrap_i64_id in_i64_of_nat of_nat_add [symmetric] if_True)
  show thesis by (rule that [OF ms bounds lt])
qed

end
