(* ===== verification/Rm_Snapshot.thy ===== *)
theory Rm_Snapshot
  imports Rm_Engine Rm_Bytes "HOL-Library.Countable"
begin

text \<open>
  Snapshots (\<open>crates/engine/src/snapshot.rs\<close>): the serializable form of an entry, the blob with
  its 8-byte header, and loading. The payload codec is the \<open>bincode\<close> crate: its two functions are
  parameters, and \<open>bincode_ok\<close> says what the code relies on, that decoding an encoded list of
  entries gives the entries back, up to the iteration order of hash maps and hash sets.
\<close>

section \<open>Serializable values\<close>

datatype 'f serializable_value =
    SString bytes
  | SList "bytes list"
  | SHash "(bytes, bytes) hmap"
  | SSet "bytes list"
  | SSortedSet "(bytes \<times> 'f) list"

record 'f serializable_entry =
  ser_key :: bytes
  ser_value :: "'f serializable_value"
  ser_expires_at_unix_ms :: "int option"

datatype snapshot_error = TooShort | Decode string

fun serializable_of :: "'f::linorder kvalue \<Rightarrow> 'f serializable_value" where
  "serializable_of (VString b) = SString b"
| "serializable_of (VList l) = SList l"
| "serializable_of (VHash m) = SHash m"
| "serializable_of (VSet s) = SSet s"
| "serializable_of (VSortedSet z) =
     SSortedSet (map (\<lambda>m. (m, the (zs_score z m))) (zs_members_ascending z))"

fun value_of :: "'f::linorder serializable_value \<Rightarrow> 'f kvalue" where
  "value_of (SString b) = VString b"
| "value_of (SList l) = VList l"
| "value_of (SHash m) = VHash m"
| "value_of (SSet s) = VSet s"
| "value_of (SSortedSet pairs) =
     VSortedSet (foldl (\<lambda>z (member, score). zs_insert member score z) zs_new pairs)"

section \<open>Writing and loading\<close>

definition serialize ::
  "('f serializable_entry list \<Rightarrow> bytes) \<Rightarrow> env \<Rightarrow> 'f::linorder store \<Rightarrow> u64 \<Rightarrow> bytes" where
  "serialize enc \<epsilon> st aof_offset =
     (let entries = map (\<lambda>(key, v, x).
            \<lparr>ser_key = key, ser_value = serializable_of v,
             ser_expires_at_unix_ms = map_option (unix_ms_from_instant \<epsilon>) x\<rparr>)
            (store_snapshot_entries (env_now \<epsilon>) st)
      in le_bytes 8 (unat aof_offset) @ enc entries)"

definition load_entry ::
  "env \<Rightarrow> 'f::linorder serializable_entry \<Rightarrow> (bytes \<times> 'f kvalue \<times> instant option) option" where
  "load_entry \<epsilon> s =
     (case ser_expires_at_unix_ms s of
        None \<Rightarrow> Some (ser_key s, value_of (ser_value s), None)
      | Some ms \<Rightarrow>
          if ms \<le> now_unix_ms \<epsilon> then None
          else Some (ser_key s, value_of (ser_value s), Some (instant_from_unix_ms \<epsilon> ms)))"

definition deserialize ::
  "(bytes \<Rightarrow> string + 'f serializable_entry list) \<Rightarrow> env \<Rightarrow> bytes \<Rightarrow> 'f::linorder store
   \<Rightarrow> (snapshot_error + u64) \<times> 'f store" where
  "deserialize dec \<epsilon> blob st =
     (if length blob < 8 then (Inl TooShort, st)
      else let aof_offset = of_nat (le_value (take 8 blob))
           in case dec (drop 8 blob) of
                Inl err \<Rightarrow> (Inl (Decode err), st)
              | Inr entries \<Rightarrow>
                  (Inr aof_offset,
                   store_load_snapshot_entries (env_hash \<epsilon>) (env_now \<epsilon>)
                     (List.map_filter (load_entry \<epsilon>) entries) st))"

definition engine_snapshot ::
  "('f serializable_entry list \<Rightarrow> bytes) \<Rightarrow> env \<Rightarrow> u64 \<Rightarrow> 'f::linorder engine \<Rightarrow> bytes" where
  "engine_snapshot enc \<epsilon> aof_offset e = serialize enc \<epsilon> (store e) aof_offset"

definition engine_load_snapshot ::
  "(bytes \<Rightarrow> string + 'f serializable_entry list) \<Rightarrow> env \<Rightarrow> bytes \<Rightarrow> 'f::linorder engine
   \<Rightarrow> (snapshot_error + u64) \<times> 'f engine" where
  "engine_load_snapshot dec \<epsilon> blob e =
     (let (r, st) = deserialize dec \<epsilon> blob (store e) in (r, e\<lparr>store := st\<rparr>))"

section \<open>What the payload codec promises\<close>

text \<open>Equal values of the source: the iteration order of a hash map or hash set is not compared.\<close>

fun same_serializable :: "'f serializable_value \<Rightarrow> 'f serializable_value \<Rightarrow> bool" where
  "same_serializable (SHash m) (SHash m') \<longleftrightarrow> (hm_ok m \<longrightarrow> hm_ok m') \<and> map_of m' = map_of m"
| "same_serializable (SSet s) (SSet s') \<longleftrightarrow> (distinct s \<longrightarrow> distinct s') \<and> set s' = set s"
| "same_serializable v w \<longleftrightarrow> v = w"

definition same_entry :: "'f serializable_entry \<Rightarrow> 'f serializable_entry \<Rightarrow> bool" where
  "same_entry s s' \<longleftrightarrow> ser_key s' = ser_key s \<and> same_serializable (ser_value s) (ser_value s')
     \<and> ser_expires_at_unix_ms s' = ser_expires_at_unix_ms s"

definition bincode_ok ::
  "('f serializable_entry list \<Rightarrow> bytes) \<Rightarrow> (bytes \<Rightarrow> string + 'f serializable_entry list) \<Rightarrow> bool" where
  "bincode_ok enc dec \<longleftrightarrow> (\<forall>es. \<exists>es'. dec (enc es) = Inr es' \<and> list_all2 same_entry es es')"

fun same_value :: "'f::linorder kvalue \<Rightarrow> 'f kvalue \<Rightarrow> bool" where
  "same_value (VHash m) (VHash m') \<longleftrightarrow> map_of m' = map_of m"
| "same_value (VSet s) (VSet s') \<longleftrightarrow> set s' = set s"
| "same_value (VSortedSet z) (VSortedSet z') \<longleftrightarrow>
     zs_score z' = zs_score z \<and> zs_members_ascending z' = zs_members_ascending z"
| "same_value v w \<longleftrightarrow> v = w"

section \<open>One value there and back\<close>

lemma rebuild_scores:
  assumes "zs_ok z0"
  shows "zs_ok (foldl (\<lambda>z (m, s). zs_insert m s z) z0 ps)
    \<and> zs_score (foldl (\<lambda>z (m, s). zs_insert m s z) z0 ps) = zs_score z0 ++ map_of (rev ps)"
  using assms
proof (induction ps arbitrary: z0)
  case (Cons p ps)
  obtain m s where p: "p = (m, s)" by (cases p)
  have upd: "zs_score (zs_insert m s z0) = zs_score z0 ++ map_of [p]" by (rule ext) (simp add: p)
  have "map_of (rev (p # ps)) = map_of [p] ++ map_of (rev ps)" by simp
  with Cons.IH [OF zs_ok_insert [OF Cons.prems, of m s], unfolded upd] show ?case
    by (simp only: p foldl_Cons prod.case map_add_assoc)
qed simp

lemma map_of_pairs: "map_of (rev (map (\<lambda>m. (m, f m)) ms)) m = (if m \<in> set ms then Some (f m) else None)"
  by (induction ms) (auto simp: map_add_def)

lemma zs_rebuild:
  assumes "zs_ok z"
  defines "ps \<equiv> map (\<lambda>m. (m, the (zs_score z m))) (zs_members_ascending z)"
  defines "z' \<equiv> foldl (\<lambda>z (m, s). zs_insert m s z) zs_new ps"
  shows "zs_ok z'" and "zs_score z' = zs_score z"
    and "zs_members_ascending z' = zs_members_ascending z"
proof -
  note r = rebuild_scores [OF zs_ok_new, of ps, folded z'_def]
  show ok: "zs_ok z'" using r by simp
  have "zs_score z' m = zs_score z m" for m
    using conjunct2 [OF r] zs_members_set [OF assms(1)]
    by (auto simp: map_add_def ps_def map_of_pairs split: option.split)
  then show sc: "zs_score z' = zs_score z" by blast
  show "zs_members_ascending z' = zs_members_ascending z"
    unfolding zs_members_ascending_def by_score_canonical [OF ok] by_score_canonical [OF assms(1)] sc ..
qed

lemma value_roundtrip:
  fixes v :: "'f::linorder kvalue"
  assumes "value_ok v" and "same_serializable (serializable_of v) w"
  shows "same_value v (value_of w) \<and> value_ok (value_of w)"
proof (cases v)
  case (VHash m)
  with assms obtain m' where "w = SHash m'" by (cases w) auto
  moreover have "m' \<noteq> []" if "map_of m' = map_of m" "m \<noteq> []" for m'
    using that by (cases m) (auto simp: fun_eq_iff split: if_splits)
  ultimately show ?thesis using VHash assms by (auto simp: value_ok_def)
next
  case (VSet s)
  with assms obtain s' where "w = SSet s'" by (cases w) auto
  with VSet assms show ?thesis by (auto simp: value_ok_def)
next
  case (VSortedSet z)
  with assms have z: "zs_ok z" "scores z \<noteq> []" by (simp_all add: value_ok_def zs_is_empty_def)
  note rb = zs_rebuild [OF z(1)]
  from z(2) have "zs_score z \<noteq> Map.empty" by (cases "scores z") (auto simp: zs_score_def fun_eq_iff)
  then have "\<not> zs_is_empty z'" if "zs_score z' = zs_score z" for z'
    using that by (auto simp: zs_is_empty_def zs_score_def fun_eq_iff)
  with VSortedSet assms(2) rb show ?thesis by (cases w) (auto simp: value_ok_def)
qed (use assms in \<open>cases w; auto simp: value_ok_def\<close>)+

section \<open>All entries there and back\<close>

lemma map_of_map_filter:
  assumes "list_all2 R L es" and "distinct (map fst L)"
    and "\<And>k p s. R (k, p) s \<Longrightarrow> key s = k" and "\<And>s q. f s = Some q \<Longrightarrow> fst q = key s"
  shows "(map_of L k = None \<longrightarrow> map_of (List.map_filter f es) k = None)
    \<and> (\<forall>p. map_of L k = Some p \<longrightarrow>
        (\<exists>s. R (k, p) s \<and> map_of (List.map_filter f es) k = map_option snd (f s)))"
  using assms(1,2)
proof (induction L es rule: list_all2_induct)
  case (Cons l L s es)
  obtain k' p' where l: "l = (k', p')" by (cases l)
  have key: "key s = k'" using Cons.hyps(1) assms(3) l by blast
  have rest: "map_of (List.map_filter f (s # es)) k = map_of (List.map_filter f es) k" if "k \<noteq> k'"
    using that key assms(4) by (cases "f s") (auto simp: map_filter_simps)
  show ?case
  proof (cases "k = k'")
    case True
    with Cons.prems l have "map_of L k = None" by (auto simp: map_of_eq_None_iff)
    then have "map_of (List.map_filter f es) k = None" using Cons.IH Cons.prems by simp
    then have "map_of (List.map_filter f (s # es)) k = map_option snd (f s)"
      using True key assms(4) by (cases "f s") (auto simp: map_filter_simps)
    with True l Cons.hyps(1) show ?thesis by auto
  next
    case False
    with Cons.IH Cons.prems l rest show ?thesis by simp
  qed
qed simp

lemma distinct_map_filter:
  assumes "list_all2 R L es" and "distinct (map fst L)"
    and "\<And>k p s. R (k, p) s \<Longrightarrow> key s = k" and "\<And>s q. f s = Some q \<Longrightarrow> fst q = key s"
  shows "distinct (map fst (List.map_filter f es))"
proof -
  have "map key es = map fst L" using assms(1,3) by (induction L es rule: list_all2_induct) auto
  with assms(2) have "distinct (map key es)" by simp
  moreover have "fst ` set (List.map_filter f es) \<subseteq> key ` set es" for es
    using assms(4) by (force simp: List.map_filter_def)
  ultimately show ?thesis
  proof (induction es)
    case (Cons s es)
    have "key s \<notin> fst ` set (List.map_filter f es)"
      using Cons.prems(1) Cons.prems(2) [of es] by auto
    with Cons assms(4) show ?case by (cases "f s") (auto simp: map_filter_simps)
  qed (simp add: map_filter_simps)
qed

text \<open>
  What a reload makes of one entry. A key stays missing; a value without a deadline comes back
  without one; a deadline comes back at most two milliseconds earlier on the wall clock and never
  later, and the entry is dropped only when its deadline has passed, to that precision.
\<close>

definition restored ::
  "env \<Rightarrow> env \<Rightarrow> ('f::linorder kvalue \<times> instant option) option \<Rightarrow> ('f kvalue \<times> instant option) option \<Rightarrow> bool" where
  "restored \<epsilon> \<epsilon>' old new \<longleftrightarrow>
     (case old of
        None \<Rightarrow> new = None
      | Some (v, None) \<Rightarrow> (\<exists>w. new = Some (w, None) \<and> same_value v w)
      | Some (v, Some at) \<Rightarrow>
          (new = None \<and> wall \<epsilon> at < env_unix \<epsilon>' + 2 * nanos_per_milli)
          \<or> (\<exists>w at'. new = Some (w, Some at') \<and> same_value v w
              \<and> wall \<epsilon>' at' \<le> wall \<epsilon> at \<and> wall \<epsilon> at < wall \<epsilon>' at' + 2 * nanos_per_milli))"

lemma reload_deadline:
  assumes "env_now \<epsilon> \<le> at" and "wall \<epsilon> at div nanos_per_milli < 2 ^ 63"
    and "env_unix \<epsilon>' div nanos_per_milli < 2 ^ 63"
  defines "ms \<equiv> unix_ms_from_instant \<epsilon> at"
  shows "if ms \<le> now_unix_ms \<epsilon>' then wall \<epsilon> at < env_unix \<epsilon>' + 2 * nanos_per_milli
    else env_now \<epsilon>' < instant_from_unix_ms \<epsilon>' ms \<and> wall \<epsilon>' (instant_from_unix_ms \<epsilon>' ms) \<le> wall \<epsilon> at
      \<and> wall \<epsilon> at < wall \<epsilon>' (instant_from_unix_ms \<epsilon>' ms) + 2 * nanos_per_milli"
proof -
  obtain n where n: "ms = int n" "n * nanos_per_milli \<le> wall \<epsilon> at"
      "wall \<epsilon> at < n * nanos_per_milli + 2 * nanos_per_milli"
    using unix_ms_bounds [OF assms(1,2)] unfolding ms_def by metis
  have now: "now_unix_ms \<epsilon>' = int (env_unix \<epsilon>' div nanos_per_milli)"
    unfolding now_unix_ms_def using assms(3) by (intro wrap_i64_id) (simp only: in_i64_of_nat)
  show ?thesis
  proof (cases "n \<le> env_unix \<epsilon>' div nanos_per_milli")
    case True
    then have "n * nanos_per_milli \<le> env_unix \<epsilon>'" by (simp only: less_eq_div_iff_mult_less_eq)
    with True n show ?thesis by (simp add: now)
  next
    case False
    then have late: "env_unix \<epsilon>' < n * nanos_per_milli"
      by (simp only: not_le div_less_iff_less_mult zero_less_numeral)
    then have "instant_from_unix_ms \<epsilon>' ms = env_now \<epsilon>' + (n * nanos_per_milli - env_unix \<epsilon>')"
      by (simp add: instant_from_unix_ms_def n(1) Let_def)
    with False late n show ?thesis by (simp add: now wall_def)
  qed
qed

lemma load_entry_restored:
  fixes v :: "'f::linorder kvalue"
  assumes "value_ok v" and "case x of Some at \<Rightarrow> env_now \<epsilon> \<le> at \<and> wall \<epsilon> at div nanos_per_milli < 2 ^ 63 | None \<Rightarrow> True"
    and "env_unix \<epsilon>' div nanos_per_milli < 2 ^ 63"
    and "same_entry \<lparr>ser_key = k, ser_value = serializable_of v,
           ser_expires_at_unix_ms = map_option (unix_ms_from_instant \<epsilon>) x\<rparr> s"
  shows "restored \<epsilon> \<epsilon>' (Some (v, x)) (map_option snd (load_entry \<epsilon>' s))
    \<and> (\<forall>q. load_entry \<epsilon>' s = Some q \<longrightarrow> value_ok (fst (snd q))
         \<and> (\<forall>at. snd (snd q) = Some at \<longrightarrow> env_now \<epsilon>' < at))"
proof -
  have s: "ser_key s = k" "ser_expires_at_unix_ms s = map_option (unix_ms_from_instant \<epsilon>) x"
      "same_value v (value_of (ser_value s))" "value_ok (value_of (ser_value s))"
    using assms(4) value_roundtrip [OF assms(1), of "ser_value s"] by (simp_all add: same_entry_def)
  show ?thesis
  proof (cases x)
    case None
    with s show ?thesis by (simp add: load_entry_def restored_def)
  next
    case (Some at)
    with assms(2) have "env_now \<epsilon> \<le> at" "wall \<epsilon> at div nanos_per_milli < 2 ^ 63" by simp_all
    from reload_deadline [OF this assms(3)] s Some show ?thesis
      by (auto simp: load_entry_def restored_def split: if_splits)
  qed
qed

lemma load_entry_key: "load_entry \<epsilon> s = Some q \<Longrightarrow> fst q = ser_key s"
  by (auto simp: load_entry_def split: option.splits if_splits)

lemma store_view_live: "store_view h t st k = Some (v, Some at) \<Longrightarrow> t < at"
  using fun_cong [OF store_view_later [of t t h st], of k] by (auto simp: prune_def split: if_splits)

lemma load_serialized:
  fixes st st' :: "'f::linorder store"
  assumes codec: "bincode_ok enc dec" and ok: "store_ok h st" and ok': "store_ok (env_hash \<epsilon>') st'"
    and now: "env_unix \<epsilon>' div nanos_per_milli < 2 ^ 63"
    and fits: "\<And>k v at. store_view h (env_now \<epsilon>) st k = Some (v, Some at) \<Longrightarrow>
      wall \<epsilon> at div nanos_per_milli < 2 ^ 63"
  shows "let (r, st'') = deserialize dec \<epsilon>' (serialize enc \<epsilon> st off) st'
    in r = Inr off \<and> store_ok (env_hash \<epsilon>') st''
      \<and> (\<forall>k. restored \<epsilon> \<epsilon>' (store_view h (env_now \<epsilon>) st k) (store_view (env_hash \<epsilon>') (env_now \<epsilon>') st'' k))"
proof -
  let ?L = "store_snapshot_entries (env_now \<epsilon>) st" and ?V = "store_view h (env_now \<epsilon>) st"
  let ?ser = "\<lambda>(key, v, x). \<lparr>ser_key = key, ser_value = serializable_of v,
             ser_expires_at_unix_ms = map_option (unix_ms_from_instant \<epsilon>) x\<rparr>"
  let ?R = "\<lambda>l. same_entry (?ser l)"
  obtain es where dec: "dec (enc (map ?ser ?L)) = Inr es" and R: "list_all2 ?R ?L es"
    using codec unfolding bincode_ok_def list_all2_map1 [symmetric] by blast
  let ?es = "List.map_filter (load_entry \<epsilon>') es"
  have dist: "distinct (map fst ?L)" using ok by (simp add: store_snapshot_keys store_keys_distinct)
  have view: "map_of ?L = ?V" by (rule store_snapshot_entries_map_of [OF ok])
  have Rk: "ser_key s = k" if "?R (k, p) s" for k p s using that by (cases p) (simp add: same_entry_def)
  have filt: "(?V k = None \<longrightarrow> map_of ?es k = None)
      \<and> (\<forall>p. ?V k = Some p \<longrightarrow> (\<exists>s. ?R (k, p) s \<and> map_of ?es k = map_option snd (load_entry \<epsilon>' s)))" for k
    unfolding view [symmetric]
    by (rule map_of_map_filter [where R = ?R and key = ser_key, OF R dist]) (blast intro: Rk load_entry_key)+
  have entry: "restored \<epsilon> \<epsilon>' (?V k) (map_of ?es k)
      \<and> (\<forall>w y. map_of ?es k = Some (w, y) \<longrightarrow> value_ok w \<and> (\<forall>at. y = Some at \<longrightarrow> env_now \<epsilon>' < at))" for k
  proof (cases "?V k")
    case None
    with filt [of k] show ?thesis by (simp add: restored_def)
  next
    case (Some p)
    obtain v x where p: "p = (v, x)" by (cases p)
    from Some p have v: "value_ok v" using store_view_value_ok [OF ok] by blast
    have x: "case x of Some at \<Rightarrow> env_now \<epsilon> \<le> at \<and> wall \<epsilon> at div nanos_per_milli < 2 ^ 63 | None \<Rightarrow> True"
      using fits Some p store_view_live [of h "env_now \<epsilon>" st k v]
      by (fastforce split: option.split)
    obtain s where s: "?R (k, p) s" "map_of ?es k = map_option snd (load_entry \<epsilon>' s)"
      using filt [of k] Some by blast
    from s(1) p have "same_entry (?ser (k, v, x)) s" by simp
    from load_entry_restored [OF v x now this [unfolded prod.case]] s(2) Some p show ?thesis by auto
  qed
  have "distinct (map fst ?es)"
    by (rule distinct_map_filter [where R = ?R and key = ser_key, OF R dist]) (blast intro: Rk load_entry_key)+
  moreover from this have "\<forall>(k, v, x) \<in> set ?es. value_ok v"
    using entry by (fastforce dest: map_of_is_SomeI)
  moreover have "prune (env_now \<epsilon>') (map_of ?es) = map_of ?es"
  proof
    fix k
    show "prune (env_now \<epsilon>') (map_of ?es) k = map_of ?es k"
      using conjunct2 [OF entry [of k]] by (auto simp: prune_def expired_at_def split: option.split)
  qed
  moreover have "le_value (le_bytes 8 (unat off)) = unat off"
    by (rule le_value_le_bytes) (use unsigned_less [of off] in simp)
  ultimately show ?thesis
    using store_load_snapshot_view [OF ok', of ?es "env_now \<epsilon>'"] entry
    by (simp add: deserialize_def serialize_def Let_def dec)
qed

section \<open>Properties\<close>

text \<open>
  C20: Loading a snapshot restores what was live when it was taken, whatever the loading engine
  held before: the header gives back the stream offset, the engine is well formed, a missing key
  is missing, a value without a deadline comes back equal and without a deadline, and a value with
  a deadline comes back equal with its deadline at most two milliseconds earlier on the wall clock
  (never later), or is dropped because that deadline has passed. The two processes may use
  different hash seeds, monotonic clocks and times of day.
\<close>

theorem snapshot_roundtrip:
  fixes e e' :: "'f::linorder engine"
  assumes "bincode_ok enc dec" and "engine_ok (env_hash \<epsilon>) e" and "engine_ok (env_hash \<epsilon>') e'"
    and "env_unix \<epsilon>' div nanos_per_milli < 2 ^ 63"
    and "\<And>k v at. engine_view (env_hash \<epsilon>) (env_now \<epsilon>) e k = Some (v, Some at) \<Longrightarrow>
      wall \<epsilon> at div nanos_per_milli < 2 ^ 63"
  shows "let (r, e'') = engine_load_snapshot dec \<epsilon>' (engine_snapshot enc \<epsilon> off e) e'
    in r = Inr off \<and> engine_ok (env_hash \<epsilon>') e''
      \<and> (\<forall>k. restored \<epsilon> \<epsilon>' (engine_view (env_hash \<epsilon>) (env_now \<epsilon>) e k)
             (engine_view (env_hash \<epsilon>') (env_now \<epsilon>') e'' k))"
  using load_serialized [OF assms(1), of "env_hash \<epsilon>" "store e" \<epsilon>' "store e'" \<epsilon> off] assms(2-)
  by (simp add: engine_load_snapshot_def engine_snapshot_def engine_ok_def engine_view_def split_def Let_def)

text \<open>A codec of that kind: entries are counted, and a number is written in unary.\<close>

instance serializable_value :: (countable) countable
  by countable_datatype

definition unary_enc :: "'f::countable serializable_entry list \<Rightarrow> bytes" where
  "unary_enc es = replicate
     (to_nat (map (\<lambda>s. (ser_key s, ser_value s, ser_expires_at_unix_ms s)) es)) (CHR 0x00)"

definition unary_dec :: "bytes \<Rightarrow> string + 'f::countable serializable_entry list" where
  "unary_dec b = Inr (map (\<lambda>(k, v, x). \<lparr>ser_key = k, ser_value = v, ser_expires_at_unix_ms = x\<rparr>)
     (from_nat (length b)))"

lemma unary_codec_ok: "bincode_ok unary_enc unary_dec"
proof -
  have "same_serializable v v" for v :: "'a serializable_value" by (cases v) simp_all
  then show ?thesis
    by (simp add: bincode_ok_def unary_enc_def unary_dec_def comp_def list_all2_map2 list_all2_same
        same_entry_def)
qed

theorem snapshot_roundtrip_witness:
  "let (r, e'') = engine_load_snapshot unary_dec sample_env
       (engine_snapshot unary_enc sample_env 42
         (engine_set sample_env ''k'' (VString ''v'') (engine_new sample_env :: nat engine)))
       (engine_new sample_env :: nat engine)
   in r = Inr 42 \<and> engine_view (env_hash sample_env) 5 e'' ''k'' = Some (VString ''v'', None)"
proof -
  let ?e = "engine_set sample_env ''k'' (VString ''v'') (engine_new sample_env :: nat engine)"
  have ok: "engine_ok (env_hash sample_env) ?e"
    by (rule engine_ok_writes(1)) (simp_all add: engine_ok_new value_ok_def)
  have view: "engine_view (env_hash sample_env) 5 ?e = [''k'' \<mapsto> (VString ''v'', None)]"
    by (simp add: engine_view_set engine_ok_new engine_new_unlimited engine_view_new ks_set_def)
  obtain r e'' where load: "engine_load_snapshot unary_dec sample_env
      (engine_snapshot unary_enc sample_env 42 ?e) (engine_new sample_env :: nat engine) = (r, e'')"
    by (metis surj_pair)
  have now: "env_unix sample_env div nanos_per_milli < 2 ^ 63" by (simp add: sample_env_def)
  have fits: "engine_view (env_hash sample_env) (env_now sample_env) ?e k = Some (v, Some at) \<Longrightarrow>
      wall sample_env at div nanos_per_milli < 2 ^ 63" for k v at
    by (simp add: view split: if_splits)
  have "r = Inr 42 \<and> restored sample_env sample_env (engine_view (env_hash sample_env) 5 ?e ''k'')
      (engine_view (env_hash sample_env) 5 e'' ''k'')"
    using snapshot_roundtrip [where off = 42, OF unary_codec_ok ok
        engine_ok_new [of "env_hash sample_env" sample_env] now fits]
    by (simp add: load)
  then show ?thesis unfolding load view by (auto simp: restored_def)
qed


end
