(* ===== verification/Rm_Resp.thy ===== *)
theory Rm_Resp
  imports Rm_Bytes
begin

text \<open>
  Frames (\<open>crates/protocol/src/frame.rs\<close>) and the RESP codec (\<open>crates/protocol/src/codec.rs\<close>).
  A decoder runs on the bytes received so far: it answers a frame and the number of bytes it took,
  or that more bytes are needed, or an error. Machine arithmetic on lengths is that of a release
  build, modulo \<open>2 ^ 64\<close>; slicing out of range is a panic. The lemmas show that decoding undoes
  RESP2 encoding, that a frame cut anywhere is waited for, and that an answer once given does not
  change when more bytes arrive.
\<close>

section \<open>Frames\<close>

datatype frame =
    FSimple string
  | FError string
  | FInteger int
  | FBulk bytes
  | FNull
  | FArray "frame list"
  | FMap "(frame \<times> frame) list"
  | FPush "frame list"

fun kind :: "frame \<Rightarrow> string" where
  "kind (FSimple _) = ''simple''"
| "kind (FError _) = ''error''"
| "kind (FInteger _) = ''integer''"
| "kind (FBulk _) = ''bulk''"
| "kind FNull = ''null''"
| "kind (FArray _) = ''array''"
| "kind (FMap _) = ''map''"
| "kind (FPush _) = ''push''"

fun log_len :: "frame \<Rightarrow> nat" where
  "log_len (FSimple s) = length s"
| "log_len (FError s) = length s"
| "log_len (FInteger _) = 0"
| "log_len (FBulk b) = length b"
| "log_len FNull = 0"
| "log_len (FArray items) = length items"
| "log_len (FMap pairs) = length pairs"
| "log_len (FPush items) = length items"

section \<open>Encoding\<close>

datatype protocol = Resp2 | Resp3

abbreviation CR :: char where "CR \<equiv> CHR 0x0D"
abbreviation LF :: char where "LF \<equiv> CHR 0x0A"
abbreviation crlf_bytes :: bytes where "crlf_bytes \<equiv> [CR, LF]"

text \<open>The bytes \<open>RespCodec::encode\<close> appends to its buffer.\<close>

fun resp_encode :: "protocol \<Rightarrow> frame \<Rightarrow> bytes" where
  "resp_encode p (FSimple s) = ''+'' @ s @ crlf_bytes"
| "resp_encode p (FError s) = ''-'' @ s @ crlf_bytes"
| "resp_encode p (FInteger n) = '':'' @ show_int n @ crlf_bytes"
| "resp_encode p (FBulk b) = ''$'' @ show_nat (length b) @ crlf_bytes @ b @ crlf_bytes"
| "resp_encode p FNull =
     (case p of Resp2 \<Rightarrow> ''$-1'' @ crlf_bytes | Resp3 \<Rightarrow> ''_'' @ crlf_bytes)"
| "resp_encode p (FArray items) =
     ''*'' @ show_nat (length items) @ crlf_bytes @ concat (map (resp_encode p) items)"
| "resp_encode p (FMap pairs) =
     (case p of
        Resp2 \<Rightarrow> ''*'' @ show_nat (length pairs * 2) @ crlf_bytes
      | Resp3 \<Rightarrow> ''%'' @ show_nat (length pairs) @ crlf_bytes)
     @ concat (map (\<lambda>(k, v). resp_encode p k @ resp_encode p v) pairs)"
| "resp_encode p (FPush items) =
     (case p of Resp2 \<Rightarrow> ''*'' | Resp3 \<Rightarrow> ''>'')
     @ show_nat (length items) @ crlf_bytes @ concat (map (resp_encode p) items)"

section \<open>Decoding\<close>

fun find_crlf :: "bytes \<Rightarrow> nat option" where
  "find_crlf (a # b # r) = (if a = CR \<and> b = LF then Some 0 else map_option Suc (find_crlf (b # r)))"
| "find_crlf _ = None"

definition hex_digit :: "nat \<Rightarrow> char" where
  "hex_digit d = (if d < 10 then char_of (48 + d) else char_of (87 + d))"

text \<open>The format \<open>{:#x}\<close> of a byte.\<close>

definition show_hex_byte :: "char \<Rightarrow> string" where
  "show_hex_byte c =
     ''0x'' @ (if byte c < 16 then [hex_digit (byte c)]
               else [hex_digit (byte c div 16), hex_digit (byte c mod 16)])"

text \<open>
  The header line of every arm of \<open>parse_frame\<close>: up to the first line end after the type byte,
  checked to be UTF-8. The message of a \<open>Utf8Error\<close> also names an offset, which is left out.
\<close>

definition header_line :: "bytes \<Rightarrow> (string \<times> nat) option outcome" where
  "header_line buf =
     (case find_crlf (tl buf) of
        None \<Rightarrow> Done None
      | Some crlf \<Rightarrow>
          (let line = take crlf (tl buf)
           in if utf8_valid line then Done (Some (line, 1 + crlf + 2))
              else Failed ''invalid utf-8 sequence''))"

lemma header_line_consumed: "header_line buf = Done (Some (line, n)) \<Longrightarrow> 2 < n \<and> line = take (n - 3) (tl buf)"
  by (auto simp: header_line_def Let_def split: option.splits if_splits)

definition parse_line_frame :: "char \<Rightarrow> string \<Rightarrow> nat \<Rightarrow> (frame \<times> nat) option outcome" where
  "parse_line_frame c line consumed =
     (if c = CHR ''+'' then Done (Some (FSimple line, consumed))
      else if c = CHR ''-'' then Done (Some (FError line, consumed))
      else case parse_i64 line of
             Some n \<Rightarrow> Done (Some (FInteger n, consumed))
           | None \<Rightarrow> Failed ''bad integer'')"

text \<open>
  The bulk arm. \<open>len as usize\<close> is \<open>len mod 2 ^ 64\<close> and so is the sum, so that a length below
  \<open>-1\<close> can pass the test on the buffered bytes and make the slice bounds invalid.
\<close>

definition parse_bulk :: "bytes \<Rightarrow> int \<Rightarrow> nat \<Rightarrow> (frame \<times> nat) option outcome" where
  "parse_bulk buf len header_len =
     (if len = - 1 then Done (Some (FNull, header_len))
      else let ulen = nat (len mod 2 ^ 64);
               total_len = (header_len + ulen + 2) mod 2 ^ 64;
               data_end = (header_len + ulen) mod 2 ^ 64
           in if length buf < total_len then Done None
              else if header_len \<le> data_end \<and> data_end \<le> length buf
              then Done (Some (FBulk (take (data_end - header_len) (drop header_len buf)), total_len))
              else Panicked)"

function (sequential) parse_frame :: "bytes \<Rightarrow> (frame \<times> nat) option outcome"
  and parse_items :: "nat \<Rightarrow> bytes \<Rightarrow> (frame list \<times> nat) option outcome" where
  "parse_frame buf =
     (if buf = [] then Done None
      else if hd buf \<in> {CHR ''+'', CHR ''-'', CHR '':''} then
        (case header_line buf of
           Done (Some (line, consumed)) \<Rightarrow> parse_line_frame (hd buf) line consumed
         | Done None \<Rightarrow> Done None | Failed e \<Rightarrow> Failed e | Panicked \<Rightarrow> Panicked)
      else if hd buf = CHR ''$'' then
        (case header_line buf of
           Done (Some (line, header_len)) \<Rightarrow>
             (case parse_i64 line of
                Some len \<Rightarrow> parse_bulk buf len header_len
              | None \<Rightarrow> Failed ''bad bulk length'')
         | Done None \<Rightarrow> Done None | Failed e \<Rightarrow> Failed e | Panicked \<Rightarrow> Panicked)
      else if hd buf = CHR ''*'' then
        (case header_line buf of
           Done (Some (line, consumed)) \<Rightarrow>
             (case parse_i64 line of
                Some cnt \<Rightarrow>
                  (case parse_items (nat (max cnt 0)) (drop consumed buf) of
                     Done (Some (items, c)) \<Rightarrow> Done (Some (FArray items, consumed + c))
                   | Done None \<Rightarrow> Done None | Failed e \<Rightarrow> Failed e | Panicked \<Rightarrow> Panicked)
              | None \<Rightarrow> Failed ''bad array length'')
         | Done None \<Rightarrow> Done None | Failed e \<Rightarrow> Failed e | Panicked \<Rightarrow> Panicked)
      else Failed (''unknown RESP type byte: '' @ show_hex_byte (hd buf)))"
| "parse_items n buf =
     (if n = 0 then Done (Some ([], 0))
      else case parse_frame buf of
             Done (Some (item, item_consumed)) \<Rightarrow>
               (case parse_items (n - 1) (drop item_consumed buf) of
                  Done (Some (items, c)) \<Rightarrow> Done (Some (item # items, item_consumed + c))
                | Done None \<Rightarrow> Done None | Failed e \<Rightarrow> Failed e | Panicked \<Rightarrow> Panicked)
           | Done None \<Rightarrow> Done None | Failed e \<Rightarrow> Failed e | Panicked \<Rightarrow> Panicked)"
  by pat_completeness auto
termination
  by (relation "measures
      [\<lambda>x. case x of Inl buf \<Rightarrow> length buf | Inr (n, buf) \<Rightarrow> length buf,
       \<lambda>x. case x of Inl buf \<Rightarrow> 0 | Inr (n, buf) \<Rightarrow> Suc n]")
    (auto dest: header_line_consumed)

declare parse_frame.simps [simp del] parse_items.simps [simp del]

text \<open>\<open>RespCodec::decode\<close>: the answer, and what it leaves in the buffer.\<close>

definition resp_decode :: "bytes \<Rightarrow> frame option outcome \<times> bytes" where
  "resp_decode src =
     (case parse_frame src of
        Done (Some (frame, consumed)) \<Rightarrow> (Done (Some frame), drop consumed src)
      | Done None \<Rightarrow> (Done None, src)
      | Failed e \<Rightarrow> (Failed e, src)
      | Panicked \<Rightarrow> (Panicked, src))"

section \<open>Lines\<close>

lemma find_crlf_bound: "find_crlf b = Some i \<Longrightarrow> i + 2 \<le> length b"
  by (induction b arbitrary: i rule: find_crlf.induct) (auto split: if_splits)

lemma find_crlf_stable: "find_crlf b = Some i \<Longrightarrow> find_crlf (b @ m) = Some i"
  by (induction b arbitrary: i rule: find_crlf.induct) (auto split: if_splits)

lemma find_crlf_line: "find_crlf s = None \<Longrightarrow> find_crlf (s @ CR # LF # r) = Some (length s)"
proof (induction s rule: find_crlf.induct)
  case (1 a b s)
  then show ?case by (auto split: if_splits)
qed simp_all

lemma find_crlf_take: "find_crlf s = None \<Longrightarrow> find_crlf (take n s) = None"
  by (metis append_take_drop_id find_crlf_stable not_Some_eq)

lemma find_crlf_CR: "find_crlf s = None \<Longrightarrow> find_crlf (s @ [CR]) = None"
proof (induction s rule: find_crlf.induct)
  case (1 a b s)
  then show ?case by (auto split: if_splits)
qed simp_all

lemma find_crlf_cut:
  assumes "find_crlf s = None" and "n < length s + 2"
  shows "find_crlf (take n (s @ crlf_bytes)) = None"
proof -
  have "take n (s @ crlf_bytes) = take n (s @ [CR])"
    using assms(2) by (cases "n \<le> length s") (auto simp: less_Suc_eq)
  then show ?thesis using assms(1) by (simp only: find_crlf_take find_crlf_CR)
qed

lemma find_crlf_no_CR: "CR \<notin> set s \<Longrightarrow> find_crlf s = None"
  by (induction s rule: find_crlf.induct) auto

lemma header_line_full:
  assumes "find_crlf s = None" and "utf8_valid s"
  shows "header_line (c # s @ CR # LF # r) = Done (Some (s, length s + 3))"
  using assms by (simp add: header_line_def find_crlf_line)

lemma drop_header: "drop (length s + 3) (c # s @ CR # LF # r) = r"
  by (simp add: numeral_3_eq_3)

lemma take_header:
  "n < length s + 3 \<Longrightarrow> take n (c # s @ CR # LF # r) = take n (c # s @ crlf_bytes)"
  "length s + 3 \<le> n \<Longrightarrow> take n (c # s @ CR # LF # r) = c # s @ CR # LF # take (n - (length s + 3)) r"
  using take_append [of n "c # s @ crlf_bytes" r] by (simp_all add: numeral_3_eq_3)

lemma header_line_cut:
  assumes "find_crlf s = None" and "n < length s + 3"
  shows "header_line (take n (c # s @ CR # LF # r)) = Done None"
proof -
  have "tl (take n (c # s @ crlf_bytes)) = take (n - 1) (s @ crlf_bytes)" by (cases n) simp_all
  moreover have "find_crlf (take (n - 1) (s @ crlf_bytes)) = None"
    using assms by (intro find_crlf_cut) auto
  ultimately show ?thesis by (subst take_header(1) [OF assms(2)]) (simp only: header_line_def option.case)
qed

lemma header_line_stable:
  assumes "buf \<noteq> []" and "header_line buf \<noteq> Done None"
  shows "header_line (buf @ m) = header_line buf"
proof -
  obtain c b where buf: "buf = c # b" using assms(1) by (cases buf) auto
  obtain i where i: "find_crlf b = Some i" using assms(2) by (cases "find_crlf b") (auto simp: header_line_def buf)
  then show ?thesis using find_crlf_bound [OF i] find_crlf_stable [OF i, of m] by (simp add: header_line_def buf)
qed

lemma header_line_bound: "header_line buf = Done (Some (line, n)) \<Longrightarrow> n \<le> length buf"
  using find_crlf_bound [of "tl buf"]
  by (cases buf) (auto simp: header_line_def Let_def split: option.splits if_splits)

lemma show_nat_line: "find_crlf (show_nat n) = None" "utf8_valid (show_nat n)"
proof -
  have "CR \<notin> set (show_nat n)" using show_nat_digits [of CR n] by auto
  then show "find_crlf (show_nat n) = None" by (rule find_crlf_no_CR)
  have "is_ascii (show_nat n)" using show_nat_digits by (fastforce simp: is_ascii_def list_all_iff)
  then show "utf8_valid (show_nat n)" by (rule utf8_valid_ascii)
qed

lemma parse_i64_show_nat: "n < 2 ^ 63 \<Longrightarrow> parse_i64 (show_nat n) = Some (int n)"
  using parse_i64_show_int [of "int n"] by (simp add: in_i64_def show_int_def)

lemma show_int_line: "find_crlf (show_int i) = None" "utf8_valid (show_int i)"
proof -
  have "CR \<notin> set (show_int i)" using show_nat_digits [of CR] by (auto simp: show_int_def)
  then show "find_crlf (show_int i) = None" by (rule find_crlf_no_CR)
  show "utf8_valid (show_int i)" by (rule utf8_valid_ascii [OF is_ascii_show_int])
qed

section \<open>Bulk strings\<close>

lemma parse_bulk_cases:
  assumes "h \<le> length buf" and "length buf < 2 ^ 62" and "in_i64 len"
  shows "parse_bulk buf len h =
    (if len = - 1 then Done (Some (FNull, h))
     else if 0 \<le> len then
       (if length buf < h + nat len + 2 then Done None
        else Done (Some (FBulk (take (nat len) (drop h buf)), h + nat len + 2)))
     else if len < - int h - 2 then Done None else Panicked)"
proof (cases "0 \<le> len")
  case True
  define n where "n = nat len"
  have n: "len = int n" "n < 2 ^ 63" using True assms(3) by (auto simp: n_def in_i64_def)
  have "nat (len mod 2 ^ 64) = n" "(h + n + 2) mod 2 ^ 64 = h + n + 2" "(h + n) mod 2 ^ 64 = h + n"
    using n assms(1,2) by (simp_all add: zmod_int [symmetric] nat_int)
  then show ?thesis using True unfolding parse_bulk_def Let_def by (auto simp: n(1))
next
  case False
  define n where "n = nat (- len)"
  have n: "len = - int n" "0 < n" "n \<le> 2 ^ 63" using False assms(3) by (auto simp: n_def in_i64_def)
  have "len mod 2 ^ 64 = 2 ^ 64 - int n"
    by (rule int_mod_pos_eq [of _ _ "- 1"]) (use n in simp_all)
  then have u: "nat (len mod 2 ^ 64) = 2 ^ 64 - n" using n by simp
  have wrap: "(a + (2 ^ 64 - n)) mod 2 ^ 64 = (if n \<le> a then a - n else 2 ^ 64 - (n - a))"
    if "a < 2 ^ 63" for a :: nat
  proof (cases "n \<le> a")
    case True
    then have "a + (2 ^ 64 - n) = (a - n) + 2 ^ 64" using n(3) by simp
    then show ?thesis using True that by (simp only: mod_add_self2) simp
  next
    case False
    then have "a + (2 ^ 64 - n) = 2 ^ 64 - (n - a)" using n(3) by simp
    then show ?thesis using False by simp
  qed
  have T: "(h + (2 ^ 64 - n) + 2) mod 2 ^ 64 = (if n \<le> h + 2 then h + 2 - n else 2 ^ 64 - (n - (h + 2)))"
    using wrap [of "h + 2"] assms(1,2) by (simp add: ac_simps)
  have E: "(h + (2 ^ 64 - n)) mod 2 ^ 64 = (if n \<le> h then h - n else 2 ^ 64 - (n - h))"
    using wrap [of h] assms(1,2) by simp
  consider "n = 1" | (small) "2 \<le> n" "n \<le> h + 2" | (large) "h + 2 < n" using n(2) by linarith
  then show ?thesis
  proof cases
    case small
    have "\<not> (h \<le> (if n \<le> h then h - n else 2 ^ 64 - (n - h)) \<and>
        (if n \<le> h then h - n else 2 ^ 64 - (n - h)) \<le> length buf)"
      using small assms(1,2) by (cases "n \<le> h") (simp_all, linarith)
    moreover have "\<not> length buf < h + 2 - n" using small assms(1) by linarith
    moreover have "len \<noteq> - 1" "\<not> 0 \<le> len" "\<not> len < - int h - 2" using n small by linarith+
    ultimately show ?thesis unfolding parse_bulk_def Let_def u T E using small by (simp only: if_True if_False)
  next
    case large
    then have "length buf < 2 ^ 64 - (n - (h + 2))" using n(3) assms(2) by simp
    moreover have "len \<noteq> - 1" "\<not> 0 \<le> len" "len < - int h - 2" using n large by linarith+
    moreover have "\<not> n \<le> h + 2" using large by simp
    ultimately show ?thesis unfolding parse_bulk_def Let_def u T E by (simp only: if_True if_False)
  qed (simp add: parse_bulk_def n(1))
qed

section \<open>How much a frame takes, and what follows it\<close>

text \<open>
  The four ways a frame is read, with the length of the buffer below \<open>2 ^ 62\<close> (an allocation
  cannot exceed \<open>isize::MAX\<close> bytes).
\<close>

abbreviation buffered :: "bytes \<Rightarrow> bool" where
  "buffered buf \<equiv> length buf < 2 ^ 62"

lemma parse_frame_line:
  "buf \<noteq> [] \<Longrightarrow> hd buf \<in> {CHR ''+'', CHR ''-'', CHR '':''} \<Longrightarrow>
   parse_frame buf =
     (case header_line buf of
        Done (Some (line, consumed)) \<Rightarrow> parse_line_frame (hd buf) line consumed
      | Done None \<Rightarrow> Done None | Failed e \<Rightarrow> Failed e | Panicked \<Rightarrow> Panicked)"
  by (subst parse_frame.simps) simp

lemma parse_frame_bulk:
  "buf \<noteq> [] \<Longrightarrow> hd buf = CHR ''$'' \<Longrightarrow>
   parse_frame buf =
     (case header_line buf of
        Done (Some (line, header_len)) \<Rightarrow>
          (case parse_i64 line of
             Some len \<Rightarrow> parse_bulk buf len header_len
           | None \<Rightarrow> Failed ''bad bulk length'')
      | Done None \<Rightarrow> Done None | Failed e \<Rightarrow> Failed e | Panicked \<Rightarrow> Panicked)"
  by (subst parse_frame.simps) simp

lemma parse_frame_array:
  "buf \<noteq> [] \<Longrightarrow> hd buf = CHR ''*'' \<Longrightarrow>
   parse_frame buf =
     (case header_line buf of
        Done (Some (line, consumed)) \<Rightarrow>
          (case parse_i64 line of
             Some cnt \<Rightarrow>
               (case parse_items (nat (max cnt 0)) (drop consumed buf) of
                  Done (Some (items, c)) \<Rightarrow> Done (Some (FArray items, consumed + c))
                | Done None \<Rightarrow> Done None | Failed e \<Rightarrow> Failed e | Panicked \<Rightarrow> Panicked)
           | None \<Rightarrow> Failed ''bad array length'')
      | Done None \<Rightarrow> Done None | Failed e \<Rightarrow> Failed e | Panicked \<Rightarrow> Panicked)"
  by (subst parse_frame.simps) simp

lemma parse_frame_other:
  "buf \<noteq> [] \<Longrightarrow> hd buf \<notin> {CHR ''+'', CHR ''-'', CHR '':'', CHR ''$'', CHR ''*''} \<Longrightarrow>
   parse_frame buf = Failed (''unknown RESP type byte: '' @ show_hex_byte (hd buf))"
  by (subst parse_frame.simps) simp

lemma parse_frame_Nil [simp]: "parse_frame [] = Done None"
  by (simp add: parse_frame.simps)

lemma parse_bulk_consumed:
  assumes "2 < h" and "h \<le> length buf" and "buffered buf" and "in_i64 len"
    and "parse_bulk buf len h = Done (Some (f, n))"
  shows "2 < n \<and> n \<le> length buf"
  using assms(5) assms(1,2) unfolding parse_bulk_cases [OF assms(2-4)] by (auto split: if_splits)

lemma parse_consumed:
  "buffered buf \<Longrightarrow> parse_frame buf = Done (Some (f, n)) \<Longrightarrow> 2 < n \<and> n \<le> length buf"
  "buffered buf' \<Longrightarrow> parse_items k buf' = Done (Some (fs, m)) \<Longrightarrow> m \<le> length buf'"
proof (induction buf and k buf' arbitrary: f n and fs m rule: parse_frame_parse_items.induct)
  case (1 buf)
  consider (nil) "buf = []" | (line) "buf \<noteq> []" "hd buf \<in> {CHR ''+'', CHR ''-'', CHR '':''}"
    | (bulk) "buf \<noteq> []" "hd buf = CHR ''$''" | (array) "buf \<noteq> []" "hd buf = CHR ''*''"
    | (other) "buf \<noteq> []" "hd buf \<notin> {CHR ''+'', CHR ''-'', CHR '':'', CHR ''$'', CHR ''*''}"
    by blast
  then show ?case
  proof cases
    case line
    with "1.prems"(2) show ?thesis
      by (auto simp: parse_frame_line parse_line_frame_def dest: header_line_consumed header_line_bound
          split: outcome.splits option.splits if_splits)
  next
    case bulk
    then obtain line h len where b: "header_line buf = Done (Some (line, h))"
        "parse_i64 line = Some len" "parse_bulk buf len h = Done (Some (f, n))"
      using "1.prems"(2) by (auto simp: parse_frame_bulk split: outcome.splits option.splits)
    show ?thesis
      using parse_bulk_consumed [OF _ header_line_bound [OF b(1)] "1.prems"(1) parse_i64_range [OF b(2)] b(3)]
        header_line_consumed [OF b(1)] by simp
  next
    case array
    then obtain line h cnt items c where a: "header_line buf = Done (Some (line, h))"
        "parse_i64 line = Some cnt" "parse_items (nat (max cnt 0)) (drop h buf) = Done (Some (items, c))"
        "n = h + c"
      using "1.prems"(2) by (auto simp: parse_frame_array split: outcome.splits option.splits)
    have "c \<le> length (drop h buf)"
      using "1.IH" [OF array(1) _ _ array(2) a(1) _ _ a(2) _ a(3)] array(2) "1.prems"(1) by simp
    then show ?thesis
      using a(4) header_line_consumed [OF a(1)] header_line_bound [OF a(1)] by simp
  qed (use "1.prems" in \<open>simp_all add: parse_frame_other\<close>)
next
  case (2 k buf)
  show ?case
  proof (cases "k = 0")
    case True
    with "2.prems" show ?thesis by (simp add: parse_items.simps)
  next
    case False
    then obtain item c items c' where a: "parse_frame buf = Done (Some (item, c))"
        "parse_items (k - 1) (drop c buf) = Done (Some (items, c'))" "m = c + c'"
      using "2.prems"(2) by (auto simp: parse_items.simps [of k] split: outcome.splits option.splits)
    have "c \<le> length buf" using "2.IH"(1) [OF False "2.prems"(1) a(1)] by simp
    moreover have "c' \<le> length (drop c buf)"
      using "2.IH"(2) [OF False a(1) _ _ _ a(2)] "2.prems"(1) by simp
    ultimately show ?thesis using a(3) by simp
  qed
qed

lemma parse_bulk_stable:
  assumes "h \<le> length buf" and "buffered (buf @ m)" and "in_i64 len" and "parse_bulk buf len h \<noteq> Done None"
  shows "parse_bulk (buf @ m) len h = parse_bulk buf len h"
proof -
  have buf: "buffered buf" and h: "h \<le> length (buf @ m)" using assms(1,2) by simp_all
  show ?thesis
    using assms(4) unfolding parse_bulk_cases [OF assms(1) buf assms(3)] parse_bulk_cases [OF h assms(2,3)]
    using assms(1) by (auto split: if_splits)
qed

lemma parse_stable:
  "buffered (buf @ m) \<Longrightarrow> parse_frame buf \<noteq> Done None \<Longrightarrow> parse_frame (buf @ m) = parse_frame buf"
  "buffered (buf' @ m) \<Longrightarrow> parse_items k buf' \<noteq> Done None \<Longrightarrow>
    parse_items k (buf' @ m) = parse_items k buf'"
proof (induction buf and k buf' rule: parse_frame_parse_items.induct)
  case (1 buf)
  then have ne: "buf \<noteq> []" by auto
  then have hd: "hd (buf @ m) = hd buf" by simp
  consider (line) "hd buf \<in> {CHR ''+'', CHR ''-'', CHR '':''}"
    | (bulk) "hd buf = CHR ''$''" | (array) "hd buf = CHR ''*''"
    | (other) "hd buf \<notin> {CHR ''+'', CHR ''-'', CHR '':'', CHR ''$'', CHR ''*''}"
    by blast
  then show ?case
  proof cases
    case line
    with "1.prems"(2) ne have "header_line buf \<noteq> Done None" by (auto simp: parse_frame_line)
    from header_line_stable [OF ne this] line ne show ?thesis
      by (auto simp: parse_frame_line hd split: outcome.split option.split)
  next
    case bulk
    with "1.prems"(2) ne have "header_line buf \<noteq> Done None" by (auto simp: parse_frame_bulk)
    note hl = header_line_stable [OF ne this, of m]
    have "parse_bulk (buf @ m) len h = parse_bulk buf len h"
      if "header_line buf = Done (Some (line, h))" "parse_i64 line = Some len" for line h len
      using that "1.prems" bulk ne
      by (intro parse_bulk_stable header_line_bound [OF that(1)] parse_i64_range [OF that(2)])
        (auto simp: parse_frame_bulk)
    with bulk ne hl show ?thesis
      by (auto simp: parse_frame_bulk split: outcome.split option.split)
  next
    case array
    with "1.prems"(2) ne have "header_line buf \<noteq> Done None" by (auto simp: parse_frame_array)
    note hl = header_line_stable [OF ne this, of m]
    have "parse_items (nat (max cnt 0)) (drop h (buf @ m)) = parse_items (nat (max cnt 0)) (drop h buf)"
      if h: "header_line buf = Done (Some (line, h))" "parse_i64 line = Some cnt" for line h cnt
    proof -
      have "parse_items (nat (max cnt 0)) (drop h buf) \<noteq> Done None"
        using "1.prems"(2) h array ne by (auto simp: parse_frame_array)
      then show ?thesis
        using "1.IH" [OF ne _ _ array h(1) _ _ h(2)] "1.prems"(1) array header_line_bound [OF h(1)]
        by simp
    qed
    with array ne hl show ?thesis
      by (auto simp: parse_frame_array split: outcome.split option.split)
  next
    case other
    with ne show ?thesis by (simp add: parse_frame_other)
  qed
next
  case (2 k buf)
  show ?case
  proof (cases "k = 0")
    case True
    then show ?thesis by (simp add: parse_items.simps)
  next
    case False
    with "2.prems"(2) have "parse_frame buf \<noteq> Done None" by (auto simp: parse_items.simps [of k])
    note fr = "2.IH"(1) [OF False "2.prems"(1) this]
    have "parse_items (k - 1) (drop c (buf @ m)) = parse_items (k - 1) (drop c buf)"
      if c: "parse_frame buf = Done (Some (item, c))" for item c
    proof -
      have "c \<le> length buf" using parse_consumed(1) [OF _ c] "2.prems"(1) by simp
      moreover have "parse_items (k - 1) (drop c buf) \<noteq> Done None"
        using "2.prems"(2) False c by (auto simp: parse_items.simps [of k])
      ultimately show ?thesis using "2.IH"(2) [OF False c] "2.prems"(1) by simp
    qed
    with False fr show ?thesis
      by (auto simp: parse_items.simps [of k] split: outcome.split option.split)
  qed
qed

section \<open>Decoding what was encoded\<close>

text \<open>
  RESP2 has no maps and no pushes: a map is sent as the array of its keys and values, a push as an
  array. \<open>sendable\<close> are the frames whose lines and integers can be read back.
\<close>

fun flatten_pairs :: "('a \<times> 'a) list \<Rightarrow> 'a list" where
  "flatten_pairs [] = []"
| "flatten_pairs ((k, v) # ps) = k # v # flatten_pairs ps"

fun resp2_view :: "frame \<Rightarrow> frame" where
  "resp2_view (FArray items) = FArray (map resp2_view items)"
| "resp2_view (FMap pairs) = FArray (flatten_pairs (map (\<lambda>(k, v). (resp2_view k, resp2_view v)) pairs))"
| "resp2_view (FPush items) = FArray (map resp2_view items)"
| "resp2_view f = f"

fun sendable :: "frame \<Rightarrow> bool" where
  "sendable (FSimple s) \<longleftrightarrow> utf8_valid s \<and> find_crlf s = None"
| "sendable (FError s) \<longleftrightarrow> utf8_valid s \<and> find_crlf s = None"
| "sendable (FInteger n) \<longleftrightarrow> in_i64 n"
| "sendable (FArray items) \<longleftrightarrow> (\<forall>f \<in> set items. sendable f)"
| "sendable (FMap pairs) \<longleftrightarrow> (\<forall>(k, v) \<in> set pairs. sendable k \<and> sendable v)"
| "sendable (FPush items) \<longleftrightarrow> (\<forall>f \<in> set items. sendable f)"
| "sendable _ \<longleftrightarrow> True"

abbreviation enc :: "frame \<Rightarrow> bytes" where
  "enc \<equiv> resp_encode Resp2"

lemma enc_nonempty: "0 < length (resp_encode p f)"
  by (cases f) (auto split: protocol.split)

lemma length_le_concat: "(\<And>x. x \<in> set xs \<Longrightarrow> 0 < length (g x)) \<Longrightarrow> length xs \<le> length (concat (map g xs))"
proof (induction xs)
  case (Cons x xs)
  then have "length xs \<le> length (concat (map g xs))" "0 < length (g x)" by simp_all
  then show ?case by (simp only: list.size list.map concat.simps length_append)
qed simp

lemma flatten_pairs_simps [simp]:
  "length (flatten_pairs ps) = length ps * 2"
  "concat (flatten_pairs qs) = concat (map (\<lambda>(a, b). a @ b) qs)"
  "map h (flatten_pairs ps) = flatten_pairs (map (\<lambda>(k, v). (h k, h v)) ps)"
  "(\<forall>f \<in> set (flatten_pairs ps). P f) \<longleftrightarrow> (\<forall>(k, v) \<in> set ps. P k \<and> P v)"
  by (induction ps rule: flatten_pairs.induct, auto) (induction qs rule: flatten_pairs.induct, auto)

text \<open>What the decoder does with the encoding of \<open>f\<close>: read it in full, and wait for a cut one.\<close>

definition reads_back :: "frame \<Rightarrow> bool" where
  "reads_back f \<longleftrightarrow>
     (\<forall>r. buffered (enc f @ r) \<longrightarrow> parse_frame (enc f @ r) = Done (Some (resp2_view f, length (enc f))))
     \<and> (buffered (enc f) \<longrightarrow> (\<forall>n < length (enc f). parse_frame (take n (enc f)) = Done None))"

lemma items_read_back:
  assumes "\<forall>f \<in> set fs. reads_back f" and "buffered (concat (map enc fs) @ r)"
  shows "parse_items (length fs) (concat (map enc fs) @ r) =
    Done (Some (map resp2_view fs, length (concat (map enc fs))))"
  using assms
proof (induction fs)
  case (Cons f fs)
  then have "parse_frame (enc f @ concat (map enc fs) @ r) = Done (Some (resp2_view f, length (enc f)))"
    by (simp add: reads_back_def)
  with Cons show ?case by (simp add: parse_items.simps [of "Suc _"])
qed (simp add: parse_items.simps)

lemma items_cut:
  assumes "\<forall>f \<in> set fs. reads_back f" and "buffered (concat (map enc fs))" and "n < length (concat (map enc fs))"
  shows "parse_items (length fs) (take n (concat (map enc fs))) = Done None"
  using assms
proof (induction fs arbitrary: n)
  case (Cons f fs)
  show ?case
  proof (cases "n < length (enc f)")
    case True
    with Cons.prems have "parse_frame (take n (enc f)) = Done None" by (simp add: reads_back_def)
    with True show ?thesis by (simp add: parse_items.simps [of "Suc _"])
  next
    case False
    let ?r = "take (n - length (enc f)) (concat (map enc fs))"
    have "parse_frame (enc f @ ?r) = Done (Some (resp2_view f, length (enc f)))"
      using Cons.prems by (auto simp: reads_back_def)
    moreover have "parse_items (length fs) ?r = Done None" using Cons False by simp
    ultimately show ?thesis using False by (simp add: parse_items.simps [of "Suc _"])
  qed
qed simp

lemma array_reads_back:
  assumes "\<forall>f \<in> set fs. reads_back f"
  defines "e \<equiv> ''*'' @ show_nat (length fs) @ crlf_bytes @ concat (map enc fs)"
  shows "buffered (e @ r) \<Longrightarrow> parse_frame (e @ r) = Done (Some (FArray (map resp2_view fs), length e))"
    and "buffered e \<Longrightarrow> n < length e \<Longrightarrow> parse_frame (take n e) = Done None"
proof -
  let ?h = "length (show_nat (length fs)) + 3"
  have len: "length fs \<le> length (concat (map enc fs))" by (rule length_le_concat) (rule enc_nonempty)
  have cnt: "parse_i64 (show_nat (length fs)) = Some (int (length fs))" if "buffered e"
    by (rule parse_i64_show_nat) (use that len in \<open>simp add: e_def\<close>)
  show "parse_frame (e @ r) = Done (Some (FArray (map resp2_view fs), length e))" if b: "buffered (e @ r)"
  proof -
    have "parse_items (length fs) (concat (map enc fs) @ r) =
        Done (Some (map resp2_view fs, length (concat (map enc fs))))"
      by (rule items_read_back [OF assms(1)]) (use b in \<open>simp add: e_def\<close>)
    then show ?thesis
      using header_line_full [OF show_nat_line, of "CHR ''*''" "length fs" "concat (map enc fs) @ r"] cnt b
      by (simp add: e_def parse_frame_array drop_header)
  qed
  show "parse_frame (take n e) = Done None" if b: "buffered e" and n: "n < length e"
  proof (cases "n < ?h")
    case True
    then have "header_line (take n e) = Done None"
      using header_line_cut [OF show_nat_line(1), of n "length fs" "CHR ''*''"] by (simp add: e_def)
    moreover have "hd (take n e) = CHR ''*''" if "n \<noteq> 0" using that by (cases n) (simp_all add: e_def)
    ultimately show ?thesis by (cases "n = 0") (simp_all add: parse_frame_array e_def)
  next
    case False
    let ?r = "take (n - ?h) (concat (map enc fs))"
    have e: "take n e = CHR ''*'' # show_nat (length fs) @ CR # LF # ?r"
      using False take_header(2) [of "show_nat (length fs)" n "CHR ''*''"] by (simp add: e_def)
    have "parse_items (length fs) ?r = Done None"
      by (rule items_cut [OF assms(1)]) (use b n False in \<open>simp_all add: e_def\<close>)
    then show ?thesis
      unfolding e using header_line_full [OF show_nat_line, of "CHR ''*''" "length fs" ?r] cnt [OF b]
      by (simp add: parse_frame_array drop_header)
  qed
qed

lemma line_reads_back:
  assumes "enc f = c # s @ crlf_bytes" and "c \<in> {CHR ''+'', CHR ''-'', CHR '':''}"
    and "find_crlf s = None" and "utf8_valid s"
    and "parse_line_frame c s (length s + 3) = Done (Some (resp2_view f, length s + 3))"
  shows "reads_back f"
proof -
  have "parse_frame (enc f @ r) = Done (Some (resp2_view f, length (enc f)))" for r
    using header_line_full [OF assms(3,4), of c r] assms(1,2,5) by (simp add: parse_frame_line)
  moreover have "parse_frame (take n (enc f)) = Done None" if "n < length (enc f)" for n
  proof (cases n)
    case (Suc m)
    then have "header_line (take n (enc f)) = Done None" "hd (take n (enc f)) = c" "take n (enc f) \<noteq> []"
      using header_line_cut [OF assms(3), of n c "[]"] that by (simp_all add: assms(1))
    with assms(2) show ?thesis by (simp add: parse_frame_line)
  qed simp
  ultimately show ?thesis by (simp add: reads_back_def)
qed

lemma null_reads_back: "reads_back FNull"
proof -
  have s: "find_crlf ''-1'' = None" "utf8_valid ''-1''" by simp_all
  have m1: "parse_i64 ''-1'' = Some (- 1)" by code_simp
  have "parse_frame (enc FNull @ r) = Done (Some (FNull, length (enc FNull)))" for r
    using header_line_full [OF s, of "CHR ''$''" r] m1 by (simp add: parse_frame_bulk parse_bulk_def)
  moreover have "parse_frame (take n (enc FNull)) = Done None" if "n < length (enc FNull)" for n
  proof (cases n)
    case (Suc m)
    then show ?thesis
      using header_line_cut [OF s(1), of n "CHR ''$''" "[]"] that by (simp add: parse_frame_bulk)
  qed simp
  ultimately show ?thesis by (simp add: reads_back_def)
qed

lemma bulk_reads_back: "reads_back (FBulk b)"
proof -
  let ?s = "show_nat (length b)" and ?h = "length (show_nat (length b)) + 3"
  have full: "parse_frame (enc (FBulk b) @ r) = Done (Some (FBulk b, length (enc (FBulk b))))"
    if "buffered (enc (FBulk b) @ r)" for r
  proof -
    let ?buf = "enc (FBulk b) @ r"
    have "parse_i64 ?s = Some (int (length b))" by (rule parse_i64_show_nat) (use that in simp)
    moreover have "parse_bulk ?buf (int (length b)) ?h = Done (Some (FBulk b, length (enc (FBulk b))))"
      by (subst parse_bulk_cases) (use that drop_header [of ?s "CHR ''$''"] in \<open>simp_all add: in_i64_def\<close>)
    ultimately show ?thesis
      using header_line_full [OF show_nat_line, of "CHR ''$''" "length b" "b @ crlf_bytes @ r"]
      by (simp add: parse_frame_bulk)
  qed
  have cut: "parse_frame (take n (enc (FBulk b))) = Done None"
    if b: "buffered (enc (FBulk b))" and n: "n < length (enc (FBulk b))" for n
  proof (cases "n < ?h")
    case True
    then have "header_line (take n (enc (FBulk b))) = Done None"
      using header_line_cut [OF show_nat_line(1), of n "length b" "CHR ''$''"] by simp
    moreover have "hd (take n (enc (FBulk b))) = CHR ''$''" if "n \<noteq> 0" using that by (cases n) simp_all
    ultimately show ?thesis by (cases "n = 0") (simp_all add: parse_frame_bulk)
  next
    case False
    define r where "r = take (n - ?h) (b @ crlf_bytes)"
    have e: "take n (enc (FBulk b)) = CHR ''$'' # ?s @ CR # LF # r"
      using False take_header(2) [of ?s n "CHR ''$''"] by (simp add: r_def)
    have r: "length r < length b + 2" using n False by (simp add: r_def)
    have "parse_i64 ?s = Some (int (length b))" by (rule parse_i64_show_nat) (use b in simp)
    moreover have "parse_bulk (CHR ''$'' # ?s @ CR # LF # r) (int (length b)) ?h = Done None"
      by (subst parse_bulk_cases) (use b r in \<open>simp_all add: in_i64_def\<close>)
    ultimately show ?thesis
      unfolding e using header_line_full [OF show_nat_line, of "CHR ''$''" "length b" r]
      by (simp add: parse_frame_bulk)
  qed
  from full cut show ?thesis by (simp add: reads_back_def)
qed

lemma array_like_reads_back:
  assumes "enc f = ''*'' @ show_nat (length fs) @ crlf_bytes @ concat (map enc fs)"
    and "resp2_view f = FArray (map resp2_view fs)" and "\<forall>f \<in> set fs. reads_back f"
  shows "reads_back f"
  using array_reads_back [OF assms(3)] unfolding reads_back_def assms(1,2) by blast

lemma scalar_reads_back:
  assumes "sendable f" and "\<forall>fs. f \<noteq> FArray fs" and "\<forall>ps. f \<noteq> FMap ps" and "\<forall>fs. f \<noteq> FPush fs"
  shows "reads_back f"
proof (cases f)
  case (FSimple s)
  with assms(1) show ?thesis
    by (intro line_reads_back [of _ "CHR ''+''" s]) (simp_all add: parse_line_frame_def)
next
  case (FError s)
  with assms(1) show ?thesis
    by (intro line_reads_back [of _ "CHR ''-''" s]) (simp_all add: parse_line_frame_def)
next
  case (FInteger n)
  with assms(1) show ?thesis
    by (intro line_reads_back [of _ "CHR '':''" "show_int n"])
      (simp_all add: parse_line_frame_def show_int_line parse_i64_show_int)
qed (use assms in \<open>simp_all add: null_reads_back bulk_reads_back\<close>)

lemma sendable_reads_back: "sendable f \<Longrightarrow> reads_back f"
proof (induction f rule: resp2_view.induct)
  case (1 items)
  then show ?case by (intro array_like_reads_back [of _ items]) simp_all
next
  case (2 pairs)
  have "\<forall>f \<in> set (flatten_pairs pairs). reads_back f"
    unfolding flatten_pairs_simps using "2.prems" by (auto intro: "2.IH")
  then show ?case by (intro array_like_reads_back [of _ "flatten_pairs pairs"]) (simp_all add: split_def comp_def)
next
  case (3 items)
  then show ?case by (intro array_like_reads_back [of _ items]) simp_all
qed (rule scalar_reads_back; simp)+

section \<open>Properties\<close>

text \<open>
  C22: Decoding undoes RESP2 encoding, in a stream. If a frame's lines contain no line end and its
  integers fit, then the decoder, given its encoding followed by any bytes, answers the frame (with
  maps and pushes flattened to arrays, as RESP2 has it) and leaves exactly the bytes that follow;
  and given the encoding cut short anywhere, it asks for more and takes nothing.
\<close>

theorem resp_roundtrip:
  assumes "sendable f" and "buffered (resp_encode Resp2 f @ r)"
  shows "resp_decode (resp_encode Resp2 f @ r) = (Done (Some (resp2_view f)), r)
    \<and> (\<forall>n < length (resp_encode Resp2 f).
         resp_decode (take n (resp_encode Resp2 f)) = (Done None, take n (resp_encode Resp2 f)))"
  using sendable_reads_back [OF assms(1)] assms(2) by (simp add: reads_back_def resp_decode_def)

theorem resp_roundtrip_witness:
  "resp_decode (resp_encode Resp2 (FArray [FBulk ''GET'', FInteger (- 7)]) @ ''$'') =
     (Done (Some (FArray [FBulk ''GET'', FInteger (- 7)])), ''$'')"
proof -
  have "resp_encode Resp2 (FArray [FBulk ''GET'', FInteger (- 7)]) =
      ''*2'' @ crlf_bytes @ ''$3'' @ crlf_bytes @ ''GET'' @ crlf_bytes @ '':-7'' @ crlf_bytes"
    by code_simp
  then have b: "buffered (resp_encode Resp2 (FArray [FBulk ''GET'', FInteger (- 7)]) @ ''$'')"
    by (simp del: resp_encode.simps)
  have "sendable (FArray [FBulk ''GET'', FInteger (- 7)])" by (simp add: in_i64_def)
  from conjunct1 [OF resp_roundtrip [OF this b]] show ?thesis by (simp del: resp_encode.simps)
qed

text \<open>
  C23: An answer of the decoder is final. Whatever arrives later, a frame that was decoded is
  decoded the same, having taken at least three bytes and no more than were there, so that the
  bytes left over are the old ones followed by the new; an error stays the same error. Asking for
  more takes nothing.
\<close>

theorem resp_decode_final:
  assumes "buffered (buf @ later)"
  shows "case resp_decode buf of
      (Done (Some f), rest) \<Rightarrow>
        resp_decode (buf @ later) = (Done (Some f), rest @ later)
        \<and> (\<exists>taken. 3 \<le> length taken \<and> buf = taken @ rest)
    | (Done None, rest) \<Rightarrow> rest = buf
    | (Failed e, rest) \<Rightarrow> fst (resp_decode (buf @ later)) = Failed e
    | (Panicked, rest) \<Rightarrow> fst (resp_decode (buf @ later)) = Panicked"
proof (cases "parse_frame buf")
  case (Done x)
  show ?thesis
  proof (cases x)
    case None
    with Done show ?thesis by (simp add: resp_decode_def)
  next
    case (Some p)
    obtain f n where p: "parse_frame buf = Done (Some (f, n))" using Done Some by (cases p) simp
    then have "parse_frame (buf @ later) = Done (Some (f, n))" using parse_stable(1) [OF assms] by simp
    moreover have n: "2 < n" "n \<le> length buf" using parse_consumed(1) [OF _ p] assms by simp_all
    ultimately show ?thesis
      using p append_take_drop_id [of n buf, symmetric] by (auto simp: resp_decode_def intro!: exI [of _ "take n buf"])
  qed
qed (use parse_stable(1) [OF assms] in \<open>simp_all add: resp_decode_def\<close>)

theorem resp_decode_final_witness:
  "fst (resp_decode (''?'' @ ''abc'')) = Failed (''unknown RESP type byte: '' @ show_hex_byte (CHR ''?''))"
  using resp_decode_final [of "''?''" "''abc''"] by (simp add: resp_decode_def parse_frame_other)

text \<open>
  C24: A bulk length below \<open>-1\<close> is not refused. If it is at least minus the length of the header
  plus two, its conversion to an unsigned length wraps the end of the frame to before the end of the
  header, the test on the buffered bytes passes, and slicing the data panics, whatever follows. A
  length further below makes the decoder wait for more bytes.
\<close>

theorem resp_bulk_negative_length:
  assumes "1 < n" and "n < 2 ^ 63" and "buffered (''$-'' @ show_nat n @ crlf_bytes @ r)"
  shows "resp_decode (''$-'' @ show_nat n @ crlf_bytes @ r) =
    (if n \<le> length (show_nat n) + 6 then Panicked else Done None, ''$-'' @ show_nat n @ crlf_bytes @ r)"
proof -
  let ?s = "show_int (- int n)" and ?buf = "CHR ''$'' # show_int (- int n) @ CR # LF # r"
  have s: "?s = CHR ''-'' # show_nat n" using assms(1) by (simp add: show_int_def)
  have "parse_i64 ?s = Some (- int n)" by (rule parse_i64_show_int) (use assms(2) in \<open>simp add: in_i64_def\<close>)
  moreover have "header_line ?buf = Done (Some (?s, length ?s + 3))"
    by (rule header_line_full) (rule show_int_line)+
  moreover have "parse_bulk ?buf (- int n) (length ?s + 3) =
      (if n \<le> length (show_nat n) + 6 then Panicked else Done None)"
    by (subst parse_bulk_cases) (use assms s in \<open>auto simp: in_i64_def\<close>)
  ultimately show ?thesis by (simp add: resp_decode_def parse_frame_bulk s)
qed

theorem resp_bulk_negative_length_witness:
  "fst (resp_decode (''$-5'' @ crlf_bytes)) = Panicked"
proof -
  have "show_nat 5 = ''5''" by code_simp
  then show ?thesis using resp_bulk_negative_length [of 5 "[]"] by simp
qed

end
