(* ===== verification/Rm_Rmp.thy ===== *)
theory Rm_Rmp
  imports Rm_Resp
begin

text \<open>
  The binary protocol RMP (\<open>crates/protocol/src/rmp.rs\<close>): the tagged encoding of a frame, the
  readers that take bytes from the front of a buffer and fail when there are too few, the decoder
  with its bound on nesting, and the 16-byte message envelope. A reader answers an error message, or
  a result and the bytes left. The lemmas show that the decoder is the exact inverse of the encoder
  on the frames the protocol carries, and that nothing it accepts is nested more than 32 deep.
\<close>

section \<open>Readers\<close>

abbreviation MAX_RMP_FRAME_LEN :: nat where "MAX_RMP_FRAME_LEN \<equiv> 67108864"
abbreviation MAX_RMP_NESTING_DEPTH :: nat where "MAX_RMP_NESTING_DEPTH \<equiv> 32"

type_synonym 'a reader = "bytes \<Rightarrow> string + 'a \<times> bytes"

definition take_u8 :: "char reader" where
  "take_u8 src = (case src of [] \<Rightarrow> Inl ''truncated rmp value: expected a tag byte'' | c # r \<Rightarrow> Inr (c, r))"

definition take_len :: "nat reader" where
  "take_len src =
     (if length src < 4 then Inl ''truncated rmp value: expected a u32 length''
      else let len = be_value (take 4 src)
           in if len > MAX_RMP_FRAME_LEN then Inl ''rmp value length exceeds MAX_RMP_FRAME_LEN''
              else Inr (len, drop 4 src))"

definition take_i64 :: "int reader" where
  "take_i64 src =
     (if length src < 8 then Inl ''truncated rmp value: expected an i64''
      else Inr (wrap_i64 (int (be_value (take 8 src))), drop 8 src))"

definition take_bytes :: "nat \<Rightarrow> bytes reader" where
  "take_bytes len src =
     (if length src < len then Inl ''truncated rmp value: declared length exceeds buffered bytes''
      else Inr (take len src, drop len src))"

definition take_string :: "nat \<Rightarrow> string reader" where
  "take_string len src =
     (case take_bytes len src of
        Inl e \<Rightarrow> Inl e
      | Inr (b, r) \<Rightarrow>
          if utf8_valid b then Inr (b, r) else Inl ''rmp Simple/Error value is not valid UTF-8'')"

section \<open>Frames\<close>

text \<open>A loop of encodings into one buffer, stopping at the first error.\<close>

fun seq_results :: "(string + bytes) list \<Rightarrow> string + bytes" where
  "seq_results [] = Inr []"
| "seq_results (Inl e # rs) = Inl e"
| "seq_results (Inr b # rs) = map_sum id (append b) (seq_results rs)"

text \<open>\<open>put_u32(len as u32)\<close>: the length modulo \<open>2 ^ 32\<close>, most significant byte first.\<close>

definition put_len :: "nat \<Rightarrow> bytes" where
  "put_len n = be_bytes 4 (n mod 2 ^ 32)"

fun encode_frame :: "frame \<Rightarrow> string + bytes" where
  "encode_frame FNull = Inr [CHR 0x00]"
| "encode_frame (FSimple s) = Inr (CHR 0x01 # put_len (length s) @ s)"
| "encode_frame (FError s) = Inr (CHR 0x02 # put_len (length s) @ s)"
| "encode_frame (FInteger n) = Inr (CHR 0x03 # be_bytes 8 (nat (n mod 2 ^ 64)))"
| "encode_frame (FBulk b) = Inr (CHR 0x04 # put_len (length b) @ b)"
| "encode_frame (FArray items) =
     map_sum id (\<lambda>body. CHR 0x05 # put_len (length items) @ body) (seq_results (map encode_frame items))"
| "encode_frame (FMap pairs) =
     map_sum id (\<lambda>body. CHR 0x06 # put_len (length pairs) @ body)
       (seq_results (flatten_pairs (map (\<lambda>(k, v). (encode_frame k, encode_frame v)) pairs)))"
| "encode_frame (FPush items) = Inl ''RMP does not support pub/sub Push frames''"

function (sequential) decode_frame_inner :: "nat \<Rightarrow> frame reader"
  and decode_items :: "nat \<Rightarrow> nat \<Rightarrow> (frame list) reader"
  and decode_pairs :: "nat \<Rightarrow> nat \<Rightarrow> ((frame \<times> frame) list) reader" where
  "decode_frame_inner depth src =
     (if depth > MAX_RMP_NESTING_DEPTH then Inl ''rmp value nesting exceeds the maximum depth''
      else case take_u8 src of
        Inl e \<Rightarrow> Inl e
      | Inr (tag, src1) \<Rightarrow>
          if tag = CHR 0x00 then Inr (FNull, src1)
          else if tag = CHR 0x01 then
            (case take_len src1 of Inl e \<Rightarrow> Inl e
             | Inr (len, src2) \<Rightarrow> map_sum id (map_prod FSimple id) (take_string len src2))
          else if tag = CHR 0x02 then
            (case take_len src1 of Inl e \<Rightarrow> Inl e
             | Inr (len, src2) \<Rightarrow> map_sum id (map_prod FError id) (take_string len src2))
          else if tag = CHR 0x03 then map_sum id (map_prod FInteger id) (take_i64 src1)
          else if tag = CHR 0x04 then
            (case take_len src1 of Inl e \<Rightarrow> Inl e
             | Inr (len, src2) \<Rightarrow> map_sum id (map_prod FBulk id) (take_bytes len src2))
          else if tag = CHR 0x05 then
            (case take_len src1 of Inl e \<Rightarrow> Inl e
             | Inr (cnt, src2) \<Rightarrow> map_sum id (map_prod FArray id) (decode_items cnt (depth + 1) src2))
          else if tag = CHR 0x06 then
            (case take_len src1 of Inl e \<Rightarrow> Inl e
             | Inr (cnt, src2) \<Rightarrow> map_sum id (map_prod FMap id) (decode_pairs cnt (depth + 1) src2))
          else Inl ''unknown rmp value tag'')"
| "decode_items n depth src =
     (if n = 0 then Inr ([], src)
      else case decode_frame_inner depth src of
        Inl e \<Rightarrow> Inl e
      | Inr (item, src1) \<Rightarrow>
          map_sum id (map_prod (\<lambda>items. item # items) id) (decode_items (n - 1) depth src1))"
| "decode_pairs n depth src =
     (if n = 0 then Inr ([], src)
      else case decode_frame_inner depth src of
        Inl e \<Rightarrow> Inl e
      | Inr (k, src1) \<Rightarrow>
          (case decode_frame_inner depth src1 of
             Inl e \<Rightarrow> Inl e
           | Inr (v, src2) \<Rightarrow>
               map_sum id (map_prod (\<lambda>pairs. (k, v) # pairs) id) (decode_pairs (n - 1) depth src2)))"
  by pat_completeness auto
termination
  by (relation "measures
      [\<lambda>x. case x of Inl (d, _) \<Rightarrow> 34 - d | Inr (Inl (n, d, _)) \<Rightarrow> 34 - d | Inr (Inr (n, d, _)) \<Rightarrow> 34 - d,
       \<lambda>x. case x of Inl _ \<Rightarrow> 0 | Inr (Inl (n, _)) \<Rightarrow> Suc n | Inr (Inr (n, _)) \<Rightarrow> Suc n]") auto

declare decode_frame_inner.simps [simp del] decode_items.simps [simp del] decode_pairs.simps [simp del]

definition decode_frame :: "frame reader" where
  "decode_frame src = decode_frame_inner 0 src"

section \<open>Messages\<close>

datatype msg_type = Request | Response

record rmp_message =
  request_id :: u64
  msg_type :: msg_type
  msg_frame :: frame

fun to_byte :: "msg_type \<Rightarrow> char" where
  "to_byte Request = CHR 0x00"
| "to_byte Response = CHR 0x01"

definition from_byte :: "char \<Rightarrow> string + msg_type" where
  "from_byte b =
     (if b = CHR 0x00 then Inr Request
      else if b = CHR 0x01 then Inr Response
      else Inl ''unknown rmp msg_type byte'')"

abbreviation HEADER_LEN :: nat where "HEADER_LEN \<equiv> 16"

text \<open>The bytes \<open>RmpCodec::encode\<close> appends, or its error.\<close>

definition rmp_encode :: "rmp_message \<Rightarrow> string + bytes" where
  "rmp_encode item =
     (case encode_frame (msg_frame item) of
        Inl e \<Rightarrow> Inl e
      | Inr payload \<Rightarrow>
          if length payload > MAX_RMP_FRAME_LEN then Inl ''rmp payload exceeds MAX_RMP_FRAME_LEN''
          else Inr (''RM'' @ [CHR 0x01, to_byte (msg_type item)] @ be_bytes 8 (unat (request_id item))
                    @ be_bytes 4 (length payload) @ payload))"

text \<open>\<open>RmpCodec::decode\<close>: its result, and what it leaves in the buffer.\<close>

definition rmp_decode :: "bytes \<Rightarrow> (string + rmp_message option) \<times> bytes" where
  "rmp_decode src =
     (if length src < HEADER_LEN then (Inr None, src)
      else if take 2 src \<noteq> ''RM'' then (Inl ''bad rmp magic'', src)
      else if src ! 2 \<noteq> CHR 0x01 then (Inl ''unsupported rmp version'', src)
      else case from_byte (src ! 3) of
        Inl e \<Rightarrow> (Inl e, src)
      | Inr mt \<Rightarrow>
          let rid = of_nat (be_value (take 8 (drop 4 src)));
              payload_len = be_value (take 4 (drop 12 src))
          in if payload_len > MAX_RMP_FRAME_LEN
             then (Inl ''rmp payload_len exceeds MAX_RMP_FRAME_LEN'', src)
             else if length src < HEADER_LEN + payload_len then (Inr None, src)
             else let payload = take payload_len (drop HEADER_LEN src);
                      rest = drop payload_len (drop HEADER_LEN src)
                  in case decode_frame payload of
                       Inl e \<Rightarrow> (Inl e, rest)
                     | Inr (frame, _) \<Rightarrow>
                         (Inr (Some \<lparr>request_id = rid, msg_type = mt, msg_frame = frame\<rparr>), rest))"

section \<open>The frames the protocol carries\<close>

text \<open>How deep the deepest value of a frame is nested in arrays and maps.\<close>

definition list_max :: "nat list \<Rightarrow> nat" where
  "list_max ns = foldr max ns 0"

fun frame_depth :: "frame \<Rightarrow> nat" where
  "frame_depth (FArray items) = list_max (map (\<lambda>f. Suc (frame_depth f)) items)"
| "frame_depth (FMap pairs) =
     list_max (flatten_pairs (map (\<lambda>(k, v). (Suc (frame_depth k), Suc (frame_depth v))) pairs))"
| "frame_depth f = 0"

fun carried :: "frame \<Rightarrow> bool" where
  "carried (FSimple s) \<longleftrightarrow> utf8_valid s"
| "carried (FError s) \<longleftrightarrow> utf8_valid s"
| "carried (FInteger n) \<longleftrightarrow> in_i64 n"
| "carried (FArray items) \<longleftrightarrow> (\<forall>f \<in> set items. carried f)"
| "carried (FMap pairs) \<longleftrightarrow> (\<forall>(k, v) \<in> set pairs. carried k \<and> carried v)"
| "carried (FPush items) \<longleftrightarrow> False"
| "carried _ \<longleftrightarrow> True"

lemma list_max_le: "list_max ns \<le> n \<longleftrightarrow> (\<forall>m \<in> set ns. m \<le> n)"
  by (induction ns) (auto simp: list_max_def)

lemma frame_depth_array: "frame_depth (FArray fs) \<le> n \<longleftrightarrow> (\<forall>f \<in> set fs. Suc (frame_depth f) \<le> n)"
  by (simp add: list_max_le)

lemma frame_depth_map:
  "frame_depth (FMap ps) \<le> n \<longleftrightarrow> (\<forall>f \<in> set (flatten_pairs ps). Suc (frame_depth f) \<le> n)"
  by (auto simp: list_max_le)

lemma carried_map: "carried (FMap ps) \<longleftrightarrow> (\<forall>f \<in> set (flatten_pairs ps). carried f)"
  by simp

lemma encode_map:
  "encode_frame (FMap ps) = map_sum id (\<lambda>body. CHR 0x06 # put_len (length ps) @ body)
     (seq_results (map encode_frame (flatten_pairs ps)))"
  by simp

lemma map_sum_Inr: "map_sum id g r = Inr y \<longleftrightarrow> (\<exists>x. r = Inr x \<and> y = g x)"
  by (cases r) auto

section \<open>Readers on what was written\<close>

lemma take_len_put_len: "n \<le> MAX_RMP_FRAME_LEN \<Longrightarrow> take_len (put_len n @ r) = Inr (n, r)"
  by (simp add: take_len_def put_len_def be_value_be_bytes Let_def)

lemma take_len_Inr:
  assumes "take_len src = Inr (n, r)"
  shows "src = put_len n @ r" and "n \<le> MAX_RMP_FRAME_LEN"
proof -
  from assms have 4: "4 \<le> length src" "n = be_value (take 4 src)" "r = drop 4 src" "n \<le> MAX_RMP_FRAME_LEN"
    by (auto simp: take_len_def Let_def split: if_splits)
  then have "n mod 2 ^ 32 = n" by simp
  moreover have "be_bytes 4 n = take 4 src" using be_bytes_be_value [of "take 4 src"] 4 by simp
  ultimately show "src = put_len n @ r" using 4(3) by (simp add: put_len_def)
  show "n \<le> MAX_RMP_FRAME_LEN" by fact
qed

lemma wrap_i64_mod: "wrap_i64 (x mod 2 ^ 64) = wrap_i64 x"
proof -
  have "(word_of_int (x mod 2 ^ 64) :: u64) = word_of_int x" by (simp add: word_of_int_eq_iff take_bit_eq_mod)
  then show ?thesis by (simp only: wrap_i64_def)
qed

lemma mod_wrap_i64: "wrap_i64 x mod 2 ^ 64 = x mod 2 ^ 64"
  using take_bit_signed_take_bit [of 64 63 x] by (simp add: wrap_i64_def sint_sbintrunc' take_bit_eq_mod)

lemma take_i64_put: "in_i64 n \<Longrightarrow> take_i64 (be_bytes 8 (nat (n mod 2 ^ 64)) @ r) = Inr (n, r)"
proof -
  assume n: "in_i64 n"
  have "nat (n mod 2 ^ 64) < 256 ^ 8" by (simp add: nat_less_iff)
  then have "int (be_value (be_bytes 8 (nat (n mod 2 ^ 64)))) = n mod 2 ^ 64"
    by (simp add: be_value_be_bytes)
  then show ?thesis using n wrap_i64_mod [of n] by (simp add: take_i64_def wrap_i64_id)
qed

lemma in_i64_wrap: "in_i64 (wrap_i64 x)"
  using sint_greater_eq [of "word_of_int x :: u64"] sint_less [of "word_of_int x :: u64"]
  by (simp add: wrap_i64_def in_i64_def)

lemma take_i64_Inr:
  assumes "take_i64 src = Inr (n, r)"
  shows "src = be_bytes 8 (nat (n mod 2 ^ 64)) @ r" and "in_i64 n"
proof -
  from assms have 8: "8 \<le> length src" "n = wrap_i64 (int (be_value (take 8 src)))" "r = drop 8 src"
    by (auto simp: take_i64_def split: if_splits)
  have "be_value (take 8 src) < 2 ^ 64" using be_value_less [of "take 8 src"] 8(1) by simp
  then have "nat (n mod 2 ^ 64) = be_value (take 8 src)"
    unfolding 8(2) mod_wrap_i64 by (simp add: zmod_int [symmetric])
  then show "src = be_bytes 8 (nat (n mod 2 ^ 64)) @ r"
    using be_bytes_be_value [of "take 8 src"] 8 by simp
  show "in_i64 n" using 8(2) in_i64_wrap by simp
qed

lemma readers_Inr:
  "take_len src = Inr (n, r) \<Longrightarrow> src = put_len n @ r \<and> n \<le> MAX_RMP_FRAME_LEN"
  "take_i64 src = Inr (i, r) \<Longrightarrow> src = be_bytes 8 (nat (i mod 2 ^ 64)) @ r \<and> in_i64 i"
  using take_len_Inr take_i64_Inr by blast+

lemma take_bytes_append: "take_bytes (length b) (b @ r) = Inr (b, r)"
  by (simp add: take_bytes_def)

lemma take_bytes_Inr: "take_bytes n src = Inr (b, r) \<Longrightarrow> src = b @ r \<and> length b = n"
  by (auto simp: take_bytes_def split: if_splits)

lemma take_string_append: "utf8_valid s \<Longrightarrow> take_string (length s) (s @ r) = Inr (s, r)"
  by (simp add: take_string_def take_bytes_append)

lemma take_string_Inr: "take_string n src = Inr (s, r) \<Longrightarrow> src = s @ r \<and> length s = n \<and> utf8_valid s"
  by (auto simp: take_string_def dest: take_bytes_Inr split: sum.splits if_splits)

section \<open>Decoding what was encoded\<close>

text \<open>A loop over pairs takes what a loop over twice as many items takes.\<close>

lemma decode_pairs_items:
  "decode_items (2 * n) d src = map_sum id (map_prod flatten_pairs id) (decode_pairs n d src)"
proof (induction n arbitrary: src)
  case (Suc n)
  have "decode_items (2 * Suc n) d src = (case decode_frame_inner d src of
        Inl e \<Rightarrow> Inl e
      | Inr (k, src1) \<Rightarrow> map_sum id (map_prod (\<lambda>items. k # items) id)
          (case decode_frame_inner d src1 of
             Inl e \<Rightarrow> Inl e
           | Inr (v, src2) \<Rightarrow> map_sum id (map_prod (\<lambda>items. v # items) id) (decode_items (2 * n) d src2)))"
    by (simp add: decode_items.simps [of "Suc _"] split: sum.split)
  then show ?case
    by (auto simp: Suc decode_pairs.simps [of "Suc n"] sum.map_comp prod.map_comp comp_def
        split: sum.split intro!: sum.map_cong0 prod.map_cong0)
qed (simp add: decode_items.simps decode_pairs.simps)

lemma flatten_pairs_inject: "flatten_pairs ps = flatten_pairs qs \<longleftrightarrow> ps = qs"
proof (induction ps arbitrary: qs rule: flatten_pairs.induct)
  case 1
  then show ?case by (cases qs rule: flatten_pairs.cases) auto
next
  case (2 k v ps)
  then show ?case by (cases qs rule: flatten_pairs.cases) auto
qed

lemma decode_pairs_Inr:
  "decode_pairs n d src = Inr (ps, r) \<longleftrightarrow> decode_items (2 * n) d src = Inr (flatten_pairs ps, r)"
  unfolding decode_pairs_items by (cases "decode_pairs n d src") (auto simp: flatten_pairs_inject)

text \<open>\<open>exact d f\<close>: at depth \<open>d\<close> the decoder answers \<open>f\<close> on its encoding, whatever follows.\<close>

definition exact :: "frame \<Rightarrow> bool" where
  "exact f \<longleftrightarrow> (\<forall>d b r. encode_frame f = Inr b \<longrightarrow> length b \<le> MAX_RMP_FRAME_LEN \<longrightarrow>
     d + frame_depth f \<le> MAX_RMP_NESTING_DEPTH \<longrightarrow> decode_frame_inner d (b @ r) = Inr (f, r))"

lemma seq_results_Cons:
  "seq_results (x # xs) = Inr b \<longleftrightarrow> (\<exists>a c. x = Inr a \<and> seq_results xs = Inr c \<and> b = a @ c)"
  by (cases x) (auto simp: map_sum_Inr)

lemma encode_frame_nonempty: "encode_frame f = Inr b \<Longrightarrow> 0 < length b"
  by (cases f) (auto simp: map_sum_Inr)

lemma seq_results_length:
  "seq_results (map encode_frame fs) = Inr b \<Longrightarrow> length fs \<le> length b"
proof (induction fs arbitrary: b)
  case (Cons f fs)
  then obtain a c where "encode_frame f = Inr a" "seq_results (map encode_frame fs) = Inr c" "b = a @ c"
    unfolding list.map seq_results_Cons by blast
  moreover from this have "length fs \<le> length c" "0 < length a"
    using Cons.IH encode_frame_nonempty by blast+
  then have "length (f # fs) \<le> length (a @ c)" unfolding list.size length_append by linarith
  ultimately show ?case by (simp only:)
qed simp

lemma items_exact:
  assumes "\<forall>f \<in> set fs. exact f" and "seq_results (map encode_frame fs) = Inr b"
    and "length b \<le> MAX_RMP_FRAME_LEN" and "\<forall>f \<in> set fs. d + frame_depth f \<le> MAX_RMP_NESTING_DEPTH"
  shows "decode_items (length fs) d (b @ r) = Inr (fs, r)"
  using assms
proof (induction fs arbitrary: b)
  case (Cons f fs)
  then obtain a c where ac: "encode_frame f = Inr a" "seq_results (map encode_frame fs) = Inr c" "b = a @ c"
    unfolding list.map seq_results_Cons by blast
  with Cons.prems have "decode_frame_inner d (a @ c @ r) = Inr (f, c @ r)" by (simp add: exact_def)
  with Cons ac show ?case by (simp add: decode_items.simps [of "Suc _"])
qed (simp add: decode_items.simps)

lemma take_u8_Cons [simp]: "take_u8 (c # r) = Inr (c, r)"
  by (simp add: take_u8_def)

lemma carried_exact: "carried f \<Longrightarrow> exact f"
proof (induction f rule: encode_frame.induct)
  case (6 items)
  show ?case
  proof (unfold exact_def, intro allI impI)
    fix d b r
    assume b: "encode_frame (FArray items) = Inr b" "length b \<le> MAX_RMP_FRAME_LEN"
      and d: "d + frame_depth (FArray items) \<le> MAX_RMP_NESTING_DEPTH"
    then obtain body where body: "seq_results (map encode_frame items) = Inr body"
        "b = CHR 0x05 # put_len (length items) @ body"
      by (auto simp: map_sum_Inr)
    have "frame_depth (FArray items) \<le> MAX_RMP_NESTING_DEPTH - d" using d by simp
    then have "\<forall>f \<in> set items. Suc d + frame_depth f \<le> MAX_RMP_NESTING_DEPTH"
      unfolding frame_depth_array by auto
    with 6 body b(2) have "decode_items (length items) (Suc d) (body @ r) = Inr (items, r)"
      by (intro items_exact) auto
    moreover have "length items \<le> MAX_RMP_FRAME_LEN"
      using seq_results_length [OF body(1)] b(2) body(2) by simp
    ultimately show "decode_frame_inner d (b @ r) = Inr (FArray items, r)"
      using d by (simp add: decode_frame_inner.simps body(2) take_len_put_len)
  qed
next
  case (7 ps)
  show ?case
  proof (unfold exact_def, intro allI impI)
    fix d b r
    assume b: "encode_frame (FMap ps) = Inr b" "length b \<le> MAX_RMP_FRAME_LEN"
      and d: "d + frame_depth (FMap ps) \<le> MAX_RMP_NESTING_DEPTH"
    then obtain body where body: "seq_results (map encode_frame (flatten_pairs ps)) = Inr body"
        "b = CHR 0x06 # put_len (length ps) @ body"
      unfolding encode_map by (auto simp: map_sum_Inr)
    have "frame_depth (FMap ps) \<le> MAX_RMP_NESTING_DEPTH - d" using d by simp
    then have "\<forall>f \<in> set (flatten_pairs ps). Suc d + frame_depth f \<le> MAX_RMP_NESTING_DEPTH"
      unfolding frame_depth_map by auto
    moreover have "\<forall>f \<in> set (flatten_pairs ps). exact f"
      unfolding flatten_pairs_simps using "7.prems" by (auto intro: "7.IH")
    ultimately have "decode_items (length (flatten_pairs ps)) (Suc d) (body @ r) = Inr (flatten_pairs ps, r)"
      using body b(2) by (intro items_exact) auto
    then have "decode_pairs (length ps) (Suc d) (body @ r) = Inr (ps, r)"
      unfolding decode_pairs_Inr by (simp add: mult.commute)
    moreover have "length ps \<le> MAX_RMP_FRAME_LEN"
      using seq_results_length [OF body(1)] b(2) body(2) by simp
    ultimately show "decode_frame_inner d (b @ r) = Inr (FMap ps, r)"
      using d by (simp add: decode_frame_inner.simps body(2) take_len_put_len)
  qed
qed (auto simp: exact_def decode_frame_inner.simps take_len_put_len take_string_append
    take_i64_put [simplified] take_bytes_append)

text \<open>The converse: whatever the decoder accepts is the encoding of what it answers.\<close>

definition decoded :: "nat \<Rightarrow> bytes \<Rightarrow> frame \<Rightarrow> bytes \<Rightarrow> bool" where
  "decoded d src f r \<longleftrightarrow> (\<exists>b. encode_frame f = Inr b \<and> src = b @ r)
     \<and> carried f \<and> d + frame_depth f \<le> MAX_RMP_NESTING_DEPTH"

definition decoded_all :: "nat \<Rightarrow> bytes \<Rightarrow> frame list \<Rightarrow> bytes \<Rightarrow> bool" where
  "decoded_all d src fs r \<longleftrightarrow> (\<exists>b. seq_results (map encode_frame fs) = Inr b \<and> src = b @ r)
     \<and> (\<forall>f \<in> set fs. carried f \<and> d + frame_depth f \<le> MAX_RMP_NESTING_DEPTH)"

lemma decoded_all_Nil: "decoded_all d r [] r"
  by (simp add: decoded_all_def)

lemma decoded_all_Cons:
  assumes "decoded d src f src1" and "decoded_all d src1 fs r"
  shows "decoded_all d src (f # fs) r"
  using assms by (fastforce simp: decoded_def decoded_all_def)

lemma decoded_array:
  assumes "d \<le> MAX_RMP_NESTING_DEPTH" and "decoded_all (d + 1) src fs r" and "length fs = n"
  shows "decoded d (CHR 0x05 # put_len n @ src) (FArray fs) r"
proof -
  have "frame_depth (FArray fs) \<le> MAX_RMP_NESTING_DEPTH - d"
    unfolding frame_depth_array using assms(2) by (force simp: decoded_all_def)
  then show ?thesis using assms by (auto simp: decoded_def decoded_all_def)
qed

lemma decoded_map:
  assumes "d \<le> MAX_RMP_NESTING_DEPTH" and "decoded_all (d + 1) src (flatten_pairs ps) r" and "length ps = n"
  shows "decoded d (CHR 0x06 # put_len n @ src) (FMap ps) r"
proof -
  note all = bspec [OF conjunct2 [OF assms(2) [unfolded decoded_all_def]]]
  have "Suc (frame_depth f) \<le> MAX_RMP_NESTING_DEPTH - d" if "f \<in> set (flatten_pairs ps)" for f
    using all [OF that] by linarith
  then have "frame_depth (FMap ps) \<le> MAX_RMP_NESTING_DEPTH - d" unfolding frame_depth_map by blast
  moreover have "carried (FMap ps)" unfolding carried_map using all by blast
  moreover obtain b where "seq_results (map encode_frame (flatten_pairs ps)) = Inr b" "src = b @ r"
    using assms(2) by (auto simp: decoded_all_def)
  ultimately show ?thesis
    using assms(1,3) unfolding decoded_def encode_map by (auto simp del: encode_frame.simps frame_depth.simps carried.simps)
qed

lemma decode_inner_sound:
  "decode_frame_inner d src = Inr (f, r) \<Longrightarrow> decoded d src f r"
  "decode_items n d' src' = Inr (fs, r') \<Longrightarrow> length fs = n \<and> decoded_all d' src' fs r'"
  "decode_pairs n' d'' src'' = Inr (ps, r'') \<Longrightarrow> length ps = n' \<and> decoded_all d'' src'' (flatten_pairs ps) r''"
proof (induction d src and n d' src' and n' d'' src'' arbitrary: f r and fs r' and ps r''
    rule: decode_frame_inner_decode_items_decode_pairs.induct)
  case (1 d src)
  then have d: "d \<le> MAX_RMP_NESTING_DEPTH" by (auto simp: decode_frame_inner.simps split: if_splits)
  obtain tag src1 where src: "src = tag # src1"
    using "1.prems" d by (cases src) (auto simp: decode_frame_inner.simps take_u8_def)
  consider "tag = CHR 0x00" | (array) "tag = CHR 0x05" | (map) "tag = CHR 0x06"
    | "tag = CHR 0x01" | "tag = CHR 0x02" | "tag = CHR 0x03" | "tag = CHR 0x04"
    using "1.prems" d by (simp add: decode_frame_inner.simps src split: if_splits)
  then show ?case
  proof cases
    case array
    then obtain n src2 items where a: "take_len src1 = Inr (n, src2)"
        "decode_items n (d + 1) src2 = Inr (items, r)" "f = FArray items"
      using "1.prems" d by (auto simp: decode_frame_inner.simps src map_sum_Inr split: sum.splits)
    have "length items = n \<and> decoded_all (d + 1) src2 items r"
      using "1.IH"(1) [OF _ _ _ _ _ _ _ _ _ a(1) _ a(2)] d array src by simp
    with decoded_array [OF d] a(3) take_len_Inr(1) [OF a(1)] array src show ?thesis by blast
  next
    case map
    then obtain n src2 pairs where a: "take_len src1 = Inr (n, src2)"
        "decode_pairs n (d + 1) src2 = Inr (pairs, r)" "f = FMap pairs"
      using "1.prems" d by (auto simp: decode_frame_inner.simps src map_sum_Inr split: sum.splits)
    have "length pairs = n \<and> decoded_all (d + 1) src2 (flatten_pairs pairs) r"
      using "1.IH"(2) [OF _ _ _ _ _ _ _ _ _ _ a(1) _ a(2)] d map src by simp
    with decoded_map [OF d] a(3) take_len_Inr(1) [OF a(1)] map src show ?thesis by blast
  qed (use "1.prems" d in \<open>auto simp: decode_frame_inner.simps src map_sum_Inr decoded_def
      dest!: readers_Inr take_string_Inr take_bytes_Inr split: sum.splits\<close>)
next
  case (2 n d src)
  show ?case
  proof (cases "n = 0")
    case True
    with "2.prems" show ?thesis by (simp add: decode_items.simps decoded_all_Nil)
  next
    case False
    with "2.prems" obtain item src1 items where a: "decode_frame_inner d src = Inr (item, src1)"
        "decode_items (n - 1) d src1 = Inr (items, r')" "fs = item # items"
      by (auto simp: decode_items.simps [of n] map_sum_Inr split: sum.splits)
    from "2.IH"(1) [OF False a(1)] "2.IH"(2) [OF False a(1) _ a(2)] a(3) False show ?thesis
      by (auto intro: decoded_all_Cons)
  qed
next
  case (3 n d src)
  show ?case
  proof (cases "n = 0")
    case True
    with "3.prems" show ?thesis by (simp add: decode_pairs.simps decoded_all_Nil)
  next
    case False
    with "3.prems" obtain k src1 v src2 pairs where a: "decode_frame_inner d src = Inr (k, src1)"
        "decode_frame_inner d src1 = Inr (v, src2)"
        "decode_pairs (n - 1) d src2 = Inr (pairs, r'')" "ps = (k, v) # pairs"
      by (auto simp: decode_pairs.simps [of n] map_sum_Inr split: sum.splits)
    from "3.IH"(1) [OF False a(1)] "3.IH"(2) [OF False a(1) _ a(2)] "3.IH"(3) [OF False a(1) _ a(2) _ a(3)]
      a(4) False show ?thesis
      by (auto intro!: decoded_all_Cons)
  qed
qed

section \<open>Messages\<close>

lemma from_byte_to_byte: "from_byte (to_byte t) = Inr t"
  by (cases t) (simp_all add: from_byte_def)

text \<open>A buffer that starts with a complete header.\<close>

definition header :: "msg_type \<Rightarrow> u64 \<Rightarrow> nat \<Rightarrow> bytes" where
  "header mt rid n = ''RM'' @ [CHR 0x01, to_byte mt] @ be_bytes 8 (unat rid) @ be_bytes 4 n"

lemma length_header [simp]: "length (header mt rid n) = HEADER_LEN"
  by (simp add: header_def)

lemma rmp_decode_header:
  assumes "n \<le> MAX_RMP_FRAME_LEN"
  shows "rmp_decode (header mt rid n @ body) =
    (if length body < n then (Inr None, header mt rid n @ body)
     else case decode_frame (take n body) of
        Inl e \<Rightarrow> (Inl e, drop n body)
      | Inr (frame, _) \<Rightarrow> (Inr (Some \<lparr>request_id = rid, msg_type = mt, msg_frame = frame\<rparr>), drop n body))"
proof -
  let ?src = "header mt rid n @ body"
  obtain i where i: "i = be_bytes 8 (unat rid)" "length i = 8" by simp
  obtain l where l: "l = be_bytes 4 n" "length l = 4" by simp
  have src: "?src = CHR ''R'' # CHR ''M'' # CHR 0x01 # to_byte mt # (i @ l @ body)"
    by (simp add: header_def i(1) l(1))
  have parts: "take 8 (drop 4 ?src) = i" "take 4 (drop 12 ?src) = l" "drop HEADER_LEN ?src = body"
    unfolding src using i(2) l(2) by (simp_all add: drop_Cons' take_append)
  have front: "take 2 ?src = ''RM''" "?src ! 2 = CHR 0x01" "?src ! 3 = to_byte mt"
    unfolding src by (simp_all add: numeral_2_eq_2 numeral_3_eq_3)
  have lv: "be_value l = n" unfolding l(1) by (rule be_value_be_bytes) (use assms in simp)
  have iv: "be_value i = unat rid"
    unfolding i(1) by (rule be_value_be_bytes) (use unsigned_less [of rid] in simp)
  show ?thesis
    using assms unfolding rmp_decode_def Let_def front parts lv iv from_byte_to_byte
    by (auto split: sum.split)
qed

section \<open>Properties\<close>

text \<open>
  C25: The decoder of RMP values accepts exactly the encodings of the frames the protocol carries.
  On a payload within the size bound it answers a frame and leaves the rest if and only if the
  payload is the encoding of that frame followed by the rest, the frame's texts are UTF-8 and its
  integers fit, it contains no push, and it is nested at most 32 deep. So decoding and encoding are
  inverse to each other, and every other payload is refused with an error.
\<close>

theorem rmp_decode_frame_exact:
  assumes "length src \<le> MAX_RMP_FRAME_LEN"
  shows "decode_frame src = Inr (f, r) \<longleftrightarrow>
    (\<exists>b. encode_frame f = Inr b \<and> src = b @ r) \<and> carried f \<and> frame_depth f \<le> MAX_RMP_NESTING_DEPTH"
proof
  assume "decode_frame src = Inr (f, r)"
  then show "(\<exists>b. encode_frame f = Inr b \<and> src = b @ r) \<and> carried f \<and> frame_depth f \<le> MAX_RMP_NESTING_DEPTH"
    using decode_inner_sound(1) [of 0 src f r] by (simp add: decode_frame_def decoded_def)
next
  assume "(\<exists>b. encode_frame f = Inr b \<and> src = b @ r) \<and> carried f \<and> frame_depth f \<le> MAX_RMP_NESTING_DEPTH"
  with assms carried_exact [of f] show "decode_frame src = Inr (f, r)"
    by (auto simp: decode_frame_def exact_def)
qed

theorem rmp_decode_frame_exact_witness:
  "decode_frame [CHR 0x05, CHR 0x00, CHR 0x00, CHR 0x00, CHR 0x01, CHR 0x00, CHR 0x2A] =
     Inr (FArray [FNull], [CHR 0x2A])"
proof -
  have "encode_frame (FArray [FNull]) = Inr [CHR 0x05, CHR 0x00, CHR 0x00, CHR 0x00, CHR 0x01, CHR 0x00]"
  proof -
    have "le_bytes 4 1 = [CHR 0x01, CHR 0x00, CHR 0x00, CHR 0x00]" by code_simp
    then show ?thesis by (simp add: put_len_def be_bytes_def)
  qed
  moreover have "frame_depth (FArray [FNull]) = 1" by (simp add: list_max_def)
  ultimately show ?thesis
    using rmp_decode_frame_exact [of "[CHR 0x05, CHR 0x00, CHR 0x00, CHR 0x00, CHR 0x01, CHR 0x00, CHR 0x2A]"
        "FArray [FNull]" "[CHR 0x2A]"] by (simp del: encode_frame.simps frame_depth.simps)
qed

text \<open>
  C26: An RMP message comes back from the stream as it was sent. If encoding it succeeds and its
  frame can be carried, the decoder, given the bytes followed by any others, answers the message
  (its request id, its type and its frame) and leaves exactly the bytes that follow; given the
  bytes cut short anywhere, it asks for more and takes nothing.
\<close>

theorem rmp_message_roundtrip:
  assumes "rmp_encode m = Inr b" and "carried (msg_frame m)"
    and "frame_depth (msg_frame m) \<le> MAX_RMP_NESTING_DEPTH"
  shows "rmp_decode (b @ r) = (Inr (Some m), r)
    \<and> (\<forall>n < length b. rmp_decode (take n b) = (Inr None, take n b))"
proof -
  obtain payload where p: "encode_frame (msg_frame m) = Inr payload" "length payload \<le> MAX_RMP_FRAME_LEN"
      "b = header (msg_type m) (request_id m) (length payload) @ payload"
    using assms(1) by (auto simp: rmp_encode_def header_def split: sum.splits if_splits)
  have "decode_frame_inner 0 (payload @ []) = Inr (msg_frame m, [])"
    using carried_exact [OF assms(2)] p(1,2) assms(3) by (simp only: exact_def add_0)
  then have "decode_frame payload = Inr (msg_frame m, [])" by (simp add: decode_frame_def)
  then have "rmp_decode (b @ r) = (Inr (Some m), r)"
    using rmp_decode_header [OF p(2), of "msg_type m" "request_id m" "payload @ r"] p(3) by simp
  moreover have "rmp_decode (take n b) = (Inr None, take n b)" if "n < length b" for n
  proof (cases "n < HEADER_LEN")
    case True
    then show ?thesis using that by (simp add: rmp_decode_def)
  next
    case False
    then have "take n b = header (msg_type m) (request_id m) (length payload) @ take (n - HEADER_LEN) payload"
      by (simp add: p(3))
    with rmp_decode_header [OF p(2), of "msg_type m" "request_id m" "take (n - HEADER_LEN) payload"] that
    show ?thesis by (auto simp: p(3))
  qed
  ultimately show ?thesis by blast
qed

theorem rmp_message_roundtrip_witness:
  "\<exists>b. rmp_encode \<lparr>request_id = 7, msg_type = Request, msg_frame = FBulk ''hi''\<rparr> = Inr b
     \<and> rmp_decode (b @ ''x'') =
         (Inr (Some \<lparr>request_id = 7, msg_type = Request, msg_frame = FBulk ''hi''\<rparr>), ''x'')"
proof -
  let ?m = "\<lparr>request_id = 7, msg_type = Request, msg_frame = FBulk ''hi''\<rparr>"
  obtain b where b: "rmp_encode ?m = Inr b" by (simp add: rmp_encode_def put_len_def)
  with rmp_message_roundtrip [OF b, of "''x''"] show ?thesis by auto
qed

end
