(* ===== verification/Rm_Cluster.thy ===== *)
theory Rm_Cluster
  imports Rm_Text
begin

unbundle bit_operations_syntax

text \<open>
  Cluster slots and the static topology (\<open>crates/server/src/cluster.rs\<close>): the checksum, hash tags,
  the slot of a key, the parser of the topology file with every check it makes, and the ownership
  queries. The file is taken as ASCII text, so that white space is the six ASCII characters that
  \<open>char::is_whitespace\<close> accepts. Slots and line numbers are natural numbers; the parser keeps slots
  below 16384, so the \<open>u16\<close> arithmetic on them cannot wrap.
\<close>

section \<open>Slots\<close>

abbreviation SLOT_COUNT :: nat where "SLOT_COUNT \<equiv> 16384"

definition crc16_bit :: "u16 \<Rightarrow> u16" where
  "crc16_bit crc =
     (if crc AND 0x8000 \<noteq> 0 then push_bit 1 crc XOR 0x1021 else push_bit 1 crc)"

definition crc16_byte :: "u16 \<Rightarrow> char \<Rightarrow> u16" where
  "crc16_byte crc b = (crc16_bit ^^ 8) (crc XOR push_bit 8 (of_nat (byte b)))"

definition crc16 :: "bytes \<Rightarrow> u16" where
  "crc16 data = foldl crc16_byte 0 data"

definition hash_tag :: "bytes \<Rightarrow> bytes" where
  "hash_tag key =
     (case position (\<lambda>b. b = CHR ''{'') key of
        None \<Rightarrow> key
      | Some open_at \<Rightarrow>
          (case position (\<lambda>b. b = CHR ''}'') (drop (open_at + 1) key) of
             None \<Rightarrow> key
           | Some close_offset \<Rightarrow>
               if close_offset = 0 then key else take close_offset (drop (open_at + 1) key)))"

definition key_slot :: "bytes \<Rightarrow> nat" where
  "key_slot key = unat (crc16 (hash_tag key)) mod SLOT_COUNT"

section \<open>The topology\<close>

record cluster_node =
  node_id :: string
  node_addr :: string
  first_slot :: nat
  last_slot :: nat

record cluster_config =
  nodes :: "cluster_node list"
  myself_at :: nat

subsection \<open>Text\<close>

definition is_whitespace :: "char \<Rightarrow> bool" where
  "is_whitespace c \<longleftrightarrow> c = CHR '' '' \<or> 9 \<le> byte c \<and> byte c \<le> 13"

text \<open>\<open>str::trim\<close> and \<open>str::split_whitespace\<close>.\<close>

definition trim :: "string \<Rightarrow> string" where
  "trim s = rev (dropWhile is_whitespace (rev (dropWhile is_whitespace s)))"

fun split_ws :: "string \<Rightarrow> string \<Rightarrow> string list" where
  "split_ws word [] = (if word = [] then [] else [word])"
| "split_ws word (c # s) =
     (if is_whitespace c then (if word = [] then split_ws [] s else word # split_ws [] s)
      else split_ws (word @ [c]) s)"

definition split_whitespace :: "string \<Rightarrow> string list" where
  "split_whitespace s = split_ws [] s"

text \<open>\<open>str::lines\<close>: split at line feeds, without a last empty line; a final carriage return is cut.\<close>

definition strip_cr :: "string \<Rightarrow> string" where
  "strip_cr line = (if line \<noteq> [] \<and> last line = CHR 0x0D then butlast line else line)"

fun split_lines :: "string \<Rightarrow> string \<Rightarrow> string list" where
  "split_lines line [] = (if line = [] then [] else [line])"
| "split_lines line (c # s) =
     (if c = CHR 0x0A then strip_cr line # split_lines [] s else split_lines (line @ [c]) s)"

definition lines_of :: "string \<Rightarrow> string list" where
  "lines_of s = split_lines [] s"

definition parse_u32 :: "string \<Rightarrow> nat option" where
  "parse_u32 s =
     (let ds = (case s of c # r \<Rightarrow> if c = CHR ''+'' then r else s | [] \<Rightarrow> s)
      in case parse_nat ds of None \<Rightarrow> None | Some n \<Rightarrow> if n < 2 ^ 32 then Some n else None)"

subsection \<open>Parsing\<close>

definition at_line :: "nat \<Rightarrow> string \<Rightarrow> string" where
  "at_line lineno msg = ''cluster config line '' @ show_nat (lineno + 1) @ '': '' @ msg"

definition parse_slot :: "nat \<Rightarrow> string \<Rightarrow> string + nat" where
  "parse_slot lineno raw =
     (case parse_u32 raw of
        None \<Rightarrow> Inl (at_line lineno (CHR 0x27 # raw @ CHR 0x27 # '' is not a slot number in 0..=16383''))
      | Some n \<Rightarrow>
          if n \<ge> SLOT_COUNT
          then Inl (at_line lineno (''slot '' @ show_nat n @ '' is out of range, the last slot is 16383''))
          else Inr n)"

text \<open>One line of the file, added to the nodes read so far.\<close>

definition parse_line :: "nat \<Rightarrow> string \<Rightarrow> cluster_node list \<Rightarrow> string + cluster_node list" where
  "parse_line lineno raw ns =
     (let line = trim raw
      in if line = [] \<or> hd line = CHR ''#'' then Inr ns
         else let fs = split_whitespace line
              in if length fs \<noteq> 4 then
                   Inl (at_line lineno (''expected 4 fields (<node-id> <host:port> <first-slot> <last-slot>), found ''
                          @ show_nat (length fs)))
                 else case parse_slot lineno (fs ! 2) of
                   Inl e \<Rightarrow> Inl e
                 | Inr a \<Rightarrow>
                     (case parse_slot lineno (fs ! 3) of
                        Inl e \<Rightarrow> Inl e
                      | Inr b \<Rightarrow>
                          if a > b then
                            Inl (at_line lineno (''first slot '' @ show_nat a @ '' is greater than last slot '' @ show_nat b))
                          else if \<exists>n \<in> set ns. node_id n = fs ! 0 then
                            Inl (at_line lineno (''duplicate node id '' @ CHR 0x27 # (fs ! 0) @ [CHR 0x27]))
                          else if \<exists>n \<in> set ns. node_addr n = fs ! 1 then
                            Inl (at_line lineno (''duplicate address '' @ CHR 0x27 # (fs ! 1) @ [CHR 0x27]))
                          else Inr (ns @ [\<lparr>node_id = fs ! 0, node_addr = fs ! 1, first_slot = a, last_slot = b\<rparr>])))"

fun parse_lines :: "nat \<Rightarrow> string list \<Rightarrow> cluster_node list \<Rightarrow> string + cluster_node list" where
  "parse_lines lineno [] ns = Inr ns"
| "parse_lines lineno (raw # raws) ns =
     (case parse_line lineno raw ns of
        Inl e \<Rightarrow> Inl e
      | Inr ns' \<Rightarrow> parse_lines (lineno + 1) raws ns')"

fun check_pairs :: "cluster_node list \<Rightarrow> string option" where
  "check_pairs (prev # nxt # ns) =
     (if first_slot nxt \<le> last_slot prev then
        Some (''cluster config ranges overlap: '' @ CHR 0x27 # node_id prev @ CHR 0x27 # '' ends at ''
          @ show_nat (last_slot prev) @ '' but '' @ CHR 0x27 # node_id nxt @ CHR 0x27 # '' starts at ''
          @ show_nat (first_slot nxt))
      else if first_slot nxt \<noteq> last_slot prev + 1 then
        Some (''cluster config has a slot gap: nothing owns slots '' @ show_nat (last_slot prev + 1)
          @ ''..='' @ show_nat (first_slot nxt - 1))
      else check_pairs (nxt # ns))"
| "check_pairs _ = None"

definition cluster_parse :: "string \<Rightarrow> string \<Rightarrow> string + cluster_config" where
  "cluster_parse text this_id =
     (case parse_lines 0 (lines_of text) [] of
        Inl e \<Rightarrow> Inl e
      | Inr ns \<Rightarrow>
          if ns = [] then Inl ''cluster config has no nodes''
          else let ns' = sort_key first_slot ns
               in if first_slot (hd ns') \<noteq> 0 then
                    Inl (''cluster config does not assign slot 0 (lowest assigned slot is ''
                      @ show_nat (first_slot (hd ns')) @ '')'')
                  else case check_pairs ns' of
                    Some e \<Rightarrow> Inl e
                  | None \<Rightarrow>
                      if last_slot (last ns') \<noteq> SLOT_COUNT - 1 then
                        Inl (''cluster config does not assign every slot: the highest assigned slot is ''
                          @ show_nat (last_slot (last ns')) @ '', expected 16383'')
                      else case position (\<lambda>n. node_id n = this_id) ns' of
                        None \<Rightarrow> Inl (''cluster config has no node with id '' @ CHR 0x27 # this_id @ [CHR 0x27])
                      | Some i \<Rightarrow> Inr \<lparr>nodes = ns', myself_at = i\<rparr>)"

subsection \<open>Ownership\<close>

definition myself :: "cluster_config \<Rightarrow> cluster_node" where
  "myself cfg = nodes cfg ! myself_at cfg"

definition covers :: "nat \<Rightarrow> cluster_node \<Rightarrow> bool" where
  "covers slot n \<longleftrightarrow> first_slot n \<le> slot \<and> slot \<le> last_slot n"

text \<open>\<open>expect\<close> panics when no node is found: None.\<close>

definition owner_of :: "cluster_config \<Rightarrow> nat \<Rightarrow> cluster_node option" where
  "owner_of cfg slot = List.find (covers slot) (nodes cfg)"

definition owns :: "cluster_config \<Rightarrow> nat \<Rightarrow> bool" where
  "owns cfg slot \<longleftrightarrow> covers slot (myself cfg)"

definition pad_right :: "nat \<Rightarrow> string \<Rightarrow> string" where
  "pad_right width s = s @ replicate (width - length s) (CHR '' '')"

definition slots_text :: "cluster_node \<Rightarrow> string" where
  "slots_text n = ''slots '' @ show_nat (first_slot n) @ ''-'' @ show_nat (last_slot n)"

fun join_lines :: "string list \<Rightarrow> string" where
  "join_lines [] = []"
| "join_lines [l] = l"
| "join_lines (l # ls) = l @ CHR 0x0A # join_lines ls"

definition topology_summary :: "cluster_config \<Rightarrow> string" where
  "topology_summary cfg =
     (let width = (\<lambda>g. foldr max (map (\<lambda>n. length (g n)) (nodes cfg)) 0)
      in join_lines (map (\<lambda>(i, n).
           pad_right (width node_id) (node_id n) @ ''  '' @ pad_right (width node_addr) (node_addr n)
           @ ''  '' @ pad_right (width slots_text) (slots_text n)
           @ (if i = myself_at cfg then '' (this node)'' else []))
         (zip [0..<length (nodes cfg)] (nodes cfg))))"

section \<open>What the parser guarantees\<close>

definition nodes_ok :: "cluster_node list \<Rightarrow> bool" where
  "nodes_ok ns \<longleftrightarrow> (\<forall>n \<in> set ns. first_slot n \<le> last_slot n \<and> last_slot n < SLOT_COUNT)
     \<and> distinct (map node_id ns) \<and> distinct (map node_addr ns)"

lemma parse_slot_less: "parse_slot l raw = Inr n \<Longrightarrow> n < SLOT_COUNT"
  by (auto simp: parse_slot_def split: option.splits if_splits)

lemma parse_line_ok: "parse_line l raw ns = Inr ns' \<Longrightarrow> nodes_ok ns \<Longrightarrow> nodes_ok ns'"
  by (auto simp: parse_line_def Let_def nodes_ok_def dest!: parse_slot_less split: if_splits sum.splits)
    blast+

lemma parse_lines_ok: "parse_lines l raws ns = Inr ns' \<Longrightarrow> nodes_ok ns \<Longrightarrow> nodes_ok ns'"
  by (induction raws arbitrary: l ns) (auto split: sum.splits dest: parse_line_ok)

lemma nodes_ok_sort: "nodes_ok ns \<Longrightarrow> nodes_ok (sort_key first_slot ns)"
proof -
  assume "nodes_ok ns"
  moreover have "distinct (map g (sort_key first_slot ns)) \<longleftrightarrow> distinct (map g ns)" for g :: "cluster_node \<Rightarrow> string"
    by (rule mset_eq_imp_distinct_iff) simp
  ultimately show ?thesis by (simp add: nodes_ok_def)
qed

text \<open>A list of nodes that passes the checks is one run of slots, each node after the one before.\<close>

lemma check_pairs_after:
  "check_pairs (p # ns) = None \<Longrightarrow> (\<forall>n \<in> set (p # ns). first_slot n \<le> last_slot n) \<Longrightarrow>
   (\<forall>n \<in> set ns. last_slot p < first_slot n)"
proof (induction ns arbitrary: p)
  case (Cons q ns)
  then have "last_slot p < first_slot q" "check_pairs (q # ns) = None"
    by (auto split: if_splits)
  with Cons.IH [of q] Cons.prems show ?case by fastforce
qed simp

lemma check_pairs_unique:
  assumes "check_pairs ns = None" and "\<forall>n \<in> set ns. first_slot n \<le> last_slot n"
    and "n \<in> set ns" and "n' \<in> set ns" and "covers s n" and "covers s n'"
  shows "n = n'"
  using assms
proof (induction ns)
  case (Cons p ns)
  have "check_pairs ns = None" using Cons.prems(1) by (cases ns) (auto split: if_splits)
  moreover have "\<forall>n \<in> set ns. last_slot p < first_slot n" using check_pairs_after Cons.prems(1,2) by blast
  ultimately show ?case using Cons by (force simp: covers_def)
qed simp

lemma check_pairs_covers:
  assumes "check_pairs ns = None" and "ns \<noteq> []" and "first_slot (hd ns) \<le> s" and "s \<le> last_slot (last ns)"
  shows "\<exists>n \<in> set ns. covers s n"
  using assms
proof (induction ns rule: check_pairs.induct)
  case (1 p q ns)
  show ?case
  proof (cases "s \<le> last_slot p")
    case True
    with 1 show ?thesis by (auto simp: covers_def)
  next
    case False
    with 1 have "\<exists>n \<in> set (q # ns). covers s n" by (intro "1.IH") (auto split: if_splits)
    then show ?thesis by auto
  qed
qed (auto simp: covers_def)

lemma find_covers:
  assumes "check_pairs ns = None" and "\<forall>n \<in> set ns. first_slot n \<le> last_slot n" and "n \<in> set ns" and "covers s n"
  shows "List.find (covers s) ns = Some n"
  using assms check_pairs_unique [OF assms(1,2)]
  by (cases "List.find (covers s) ns") (auto simp: find_None_iff find_Some_iff)

lemma cluster_parse_Inr:
  assumes "cluster_parse text this_id = Inr cfg"
  shows "nodes_ok (nodes cfg)" and "check_pairs (nodes cfg) = None" and "nodes cfg \<noteq> []"
    and "first_slot (hd (nodes cfg)) = 0" and "last_slot (last (nodes cfg)) = SLOT_COUNT - 1"
    and "myself cfg \<in> set (nodes cfg)" and "node_id (myself cfg) = this_id"
proof -
  obtain ns where ns: "parse_lines 0 (lines_of text) [] = Inr ns"
    using assms by (auto simp: cluster_parse_def split: sum.splits)
  define ns' where "ns' = sort_key first_slot ns"
  have ok: "nodes_ok ns'"
    unfolding ns'_def by (rule nodes_ok_sort [OF parse_lines_ok [OF ns]]) (simp add: nodes_ok_def)
  from assms ns have c: "ns' \<noteq> []" "first_slot (hd ns') = 0" "check_pairs ns' = None"
      "last_slot (last ns') = SLOT_COUNT - 1"
    by (auto simp: cluster_parse_def Let_def ns'_def split: if_splits option.splits)
  from assms ns c obtain i where i: "position (\<lambda>n. node_id n = this_id) ns' = Some i"
      "cfg = \<lparr>nodes = ns', myself_at = i\<rparr>"
    by (auto simp: cluster_parse_def Let_def ns'_def split: if_splits option.splits)
  from position_Some [OF i(1)] ok c i(2)
  show "nodes_ok (nodes cfg)" and "check_pairs (nodes cfg) = None" and "nodes cfg \<noteq> []"
    and "first_slot (hd (nodes cfg)) = 0" and "last_slot (last (nodes cfg)) = SLOT_COUNT - 1"
    and "myself cfg \<in> set (nodes cfg)" and "node_id (myself cfg) = this_id"
    by (simp_all add: myself_def)
qed

lemma position_append: "(\<forall>x \<in> set a. \<not> P x) \<Longrightarrow> P y \<Longrightarrow> position P (a @ y # b) = Some (length a)"
  by (induction a) auto

lemma hash_tag_tagged:
  assumes "CHR ''{'' \<notin> set pre" and "CHR ''}'' \<notin> set tag" and "tag \<noteq> []"
  shows "hash_tag (pre @ CHR ''{'' # tag @ CHR ''}'' # post) = tag"
proof -
  have "position (\<lambda>b. b = CHR ''{'') (pre @ CHR ''{'' # tag @ CHR ''}'' # post) = Some (length pre)"
    by (rule position_append) (use assms(1) in auto)
  moreover have "position (\<lambda>b. b = CHR ''}'') (tag @ CHR ''}'' # post) = Some (length tag)"
    by (rule position_append) (use assms(2) in auto)
  ultimately show ?thesis using assms(3) by (simp add: hash_tag_def)
qed

section \<open>Properties\<close>

text \<open>
  C27: A topology file that is accepted gives every slot exactly one owner. The slot of every key is
  below 16384 and is covered by exactly one node, which is what \<open>owner_of\<close> finds (so its \<open>expect\<close>
  cannot panic), and this node owns a slot exactly when it is the owner. Nodes that read the same
  file under different ids agree on every owner, and no two of them own the same slot.
\<close>

theorem cluster_slots_partitioned:
  assumes "cluster_parse text id1 = Inr cfg1" and "cluster_parse text id2 = Inr cfg2"
  shows "let s = key_slot key
    in s < SLOT_COUNT
     \<and> (\<exists>!n. n \<in> set (nodes cfg1) \<and> covers s n)
     \<and> (\<exists>n. owner_of cfg1 s = Some n \<and> covers s n \<and> owner_of cfg2 s = Some n)
     \<and> (owns cfg1 s \<longleftrightarrow> owner_of cfg1 s = Some (myself cfg1))
     \<and> (owns cfg1 s \<and> owns cfg2 s \<longrightarrow> id1 = id2)"
proof -
  let ?s = "key_slot key"
  note c = cluster_parse_Inr [OF assms(1)] and d = cluster_parse_Inr [OF assms(2)]
  have same: "nodes cfg1 = nodes cfg2"
    using assms by (auto simp: cluster_parse_def Let_def split: sum.splits if_splits option.splits)
  have s: "?s < SLOT_COUNT" by (simp add: key_slot_def)
  have le: "\<forall>n \<in> set (nodes cfg1). first_slot n \<le> last_slot n" using c(1) by (simp add: nodes_ok_def)
  obtain n where n: "n \<in> set (nodes cfg1)" "covers ?s n"
    using check_pairs_covers [OF c(2,3), of ?s] c(4,5) s by auto
  note uniq = check_pairs_unique [OF c(2) le]
  note found = find_covers [OF c(2) le]
  have own: "owner_of cfg1 ?s = Some n" unfolding owner_of_def by (rule found [OF n])
  moreover from this have "owner_of cfg2 ?s = Some n" by (simp add: owner_of_def same)
  moreover have "owns cfg1 ?s \<longleftrightarrow> n = myself cfg1"
    using uniq [OF n(1) c(6) n(2)] n(2) by (auto simp: owns_def)
  moreover have "owns cfg2 ?s \<longleftrightarrow> n = myself cfg2"
    using uniq [OF n(1) d(6) [folded same] n(2)] n(2) by (auto simp: owns_def)
  moreover have "\<exists>!n. n \<in> set (nodes cfg1) \<and> covers ?s n" using n uniq by blast
  ultimately show ?thesis using s n(2) c(7) d(7) by (auto simp: Let_def)
qed

theorem cluster_slots_partitioned_witness:
  "case cluster_parse ''n1 10.0.0.1:6379 0 16383'' ''n1'' of
     Inr cfg \<Rightarrow> owns cfg (key_slot ''k'') | Inl e \<Rightarrow> False"
proof -
  let ?n = "\<lparr>node_id = ''n1'', node_addr = ''10.0.0.1:6379'', first_slot = 0, last_slot = 16383\<rparr>"
  have "lines_of ''n1 10.0.0.1:6379 0 16383'' = [''n1 10.0.0.1:6379 0 16383'']" by code_simp
  moreover have "trim ''n1 10.0.0.1:6379 0 16383'' = ''n1 10.0.0.1:6379 0 16383''" by code_simp
  moreover have "split_whitespace ''n1 10.0.0.1:6379 0 16383'' = [''n1'', ''10.0.0.1:6379'', ''0'', ''16383'']"
    by code_simp
  moreover have "parse_slot 0 ''0'' = Inr 0" "parse_slot 0 ''16383'' = Inr 16383"
    by (simp_all add: parse_slot_def parse_u32_def parse_nat_def digit_val_def)
  ultimately have p: "cluster_parse ''n1 10.0.0.1:6379 0 16383'' ''n1'' = Inr \<lparr>nodes = [?n], myself_at = 0\<rparr>"
    by (simp add: cluster_parse_def parse_line_def numeral_2_eq_2 numeral_3_eq_3 Let_def)
  show ?thesis
    using cluster_slots_partitioned [OF p p, of "''k''"] unfolding p Let_def
    by (auto simp: owns_def covers_def myself_def)
qed

text \<open>
  Hash tags keep related keys together. Keys that contain the same non-empty tag between the
  first opening brace and the first closing brace after it have the same slot, the slot of the tag
  itself; a key without an opening brace, with an unclosed one or with an empty tag hashes whole.
\<close>

lemma hash_tag_same_slot:
  assumes "CHR ''{'' \<notin> set pre" and "CHR ''}'' \<notin> set tag" and "tag \<noteq> []" and "CHR ''{'' \<notin> set tag"
  shows "key_slot (pre @ CHR ''{'' # tag @ CHR ''}'' # post) = key_slot tag
    \<and> hash_tag pre = pre \<and> hash_tag (pre @ CHR ''{'' # tag) = pre @ CHR ''{'' # tag
    \<and> hash_tag (pre @ CHR ''{'' # CHR ''}'' # post) = pre @ CHR ''{'' # CHR ''}'' # post"
proof -
  have none: "hash_tag k = k" if "CHR ''{'' \<notin> set k" for k
  proof -
    have "position (\<lambda>b. b = CHR ''{'') k = None" using that by (auto simp: position_None)
    then show ?thesis by (simp add: hash_tag_def)
  qed
  have at: "position (\<lambda>b. b = CHR ''{'') (pre @ CHR ''{'' # r) = Some (length pre)" for r
    by (rule position_append) (use assms(1) in auto)
  have "position (\<lambda>b. b = CHR ''}'') tag = None" using assms(2) by (auto simp: position_None)
  then show ?thesis
    using hash_tag_tagged [OF assms(1-3)] none assms(1,4) at
    by (simp add: key_slot_def hash_tag_def [of "pre @ _"])
qed

end
