(* ===== verification/Rm_Acl.thy ===== *)
theory Rm_Acl
  imports Rm_Text Rm_Glob
begin

text \<open>
  Access control (\<open>crates/server/src/acl.rs\<close>): the tokens of \<open>ACL SETUSER\<close>, users and their rules,
  and the store of users. Password hashing is the argon2 crate's, a parameter of the definitions
  that use it. Strings are their UTF-8 bytes. The lemmas show which rule decides a command, what a
  sequence of tokens does to a user, when a login succeeds, and that a store once configured never
  becomes unconfigured again.
\<close>

section \<open>Rules and tokens\<close>

datatype acl_rule =
    AllCommands
  | NoCommands
  | AllowCommand bytes
  | DenyCommand bytes
  | AllKeys
  | KeyPattern bytes

datatype acl_token = TokOn | TokOff | TokPassword bytes | TokNoPass | TokRule acl_rule

datatype acl_error = SyntaxError bytes

text \<open>\<open>replace('\r', "\\r").replace('\n', "\\n")\<close>, so that the reply stays on one line.\<close>

definition scrub :: "bytes \<Rightarrow> bytes" where
  "scrub tok = concat (map (\<lambda>c. if c = CHR 0x0D then [CHR 0x5C, CHR ''r'']
                              else if c = CHR 0x0A then [CHR 0x5C, CHR ''n''] else [c]) tok)"

fun acl_error_text :: "acl_error \<Rightarrow> bytes" where
  "acl_error_text (SyntaxError tok) = ''ERR syntax error at '' @ [CHR 0x27] @ scrub tok @ [CHR 0x27]"

definition parse_token :: "bytes \<Rightarrow> acl_error + acl_token" where
  "parse_token raw =
     (if \<not> utf8_valid raw then Inl (SyntaxError (utf8_lossy raw))
      else let lower = ascii_lowercase raw in
        if lower = ''on'' then Inr TokOn
        else if lower = ''off'' then Inr TokOff
        else if lower = ''nopass'' then Inr TokNoPass
        else if lower = ''allcommands'' then Inr (TokRule AllCommands)
        else if lower = ''nocommands'' then Inr (TokRule NoCommands)
        else if lower = ''allkeys'' then Inr (TokRule AllKeys)
        else if raw = ''+@all'' then Inr (TokRule AllCommands)
        else if raw = ''-@all'' then Inr (TokRule NoCommands)
        else if take 2 raw = ''+@'' \<or> take 2 raw = ''-@'' then Inl (SyntaxError raw)
        else if raw = ''~*'' then Inr (TokRule AllKeys)
        else case raw of
            c # r \<Rightarrow>
              if c = CHR ''>'' \<and> r \<noteq> [] then Inr (TokPassword r)
              else if c = CHR ''+'' \<and> r \<noteq> [] then Inr (TokRule (AllowCommand (ascii_uppercase r)))
              else if c = CHR ''-'' \<and> r \<noteq> [] then Inr (TokRule (DenyCommand (ascii_uppercase r)))
              else if c = CHR ''~'' \<and> r \<noteq> [] then Inr (TokRule (KeyPattern r))
              else Inl (SyntaxError raw)
          | [] \<Rightarrow> Inl (SyntaxError raw))"

text \<open>The collected result of parsing every token: the first failure, or all of them.\<close>

fun parse_tokens :: "bytes list \<Rightarrow> acl_error + acl_token list" where
  "parse_tokens [] = Inr []"
| "parse_tokens (t # ts) =
     (case parse_token t of
        Inl e \<Rightarrow> Inl e
      | Inr tok \<Rightarrow> (case parse_tokens ts of Inl e \<Rightarrow> Inl e | Inr toks \<Rightarrow> Inr (tok # toks)))"

section \<open>Passwords\<close>

text \<open>
  What the argon2 crate provides: hashing a password with a salt into a PHC string, parsing such a
  string, and verifying a password against it.
\<close>

record 'h argon2 =
  argon2_hash :: "bytes \<Rightarrow> bytes \<Rightarrow> bytes"
  phc_parse :: "bytes \<Rightarrow> 'h option"
  argon2_verify :: "bytes \<Rightarrow> 'h \<Rightarrow> bool"

definition hash_password :: "'h argon2 \<Rightarrow> bytes \<Rightarrow> bytes \<Rightarrow> bytes" where
  "hash_password A salt password = argon2_hash A password salt"

definition verify_password :: "'h argon2 \<Rightarrow> bytes \<Rightarrow> bytes \<Rightarrow> bool" where
  "verify_password A password hash =
     (case phc_parse A hash of None \<Rightarrow> False | Some parsed \<Rightarrow> argon2_verify A password parsed)"

text \<open>
  The contract of a password hash: the hash of a password is verified by that password, and by no
  other one (two passwords do not collide).
\<close>

definition argon2_exact :: "'h argon2 \<Rightarrow> bool" where
  "argon2_exact A \<longleftrightarrow>
     (\<forall>salt p q. \<exists>h. phc_parse A (argon2_hash A p salt) = Some h \<and> (argon2_verify A q h \<longleftrightarrow> q = p))"

section \<open>Users\<close>

definition validate_username :: "bytes \<Rightarrow> acl_error + unit" where
  "validate_username name =
     (if name = [] \<or> CHR '' '' \<in> set name \<or> CHR 0x0D \<in> set name \<or> CHR 0x0A \<in> set name
      then Inl (SyntaxError name) else Inr ())"

record acl_user =
  username :: bytes
  password_hash :: "bytes option"
  enabled :: bool
  rules :: "acl_rule list"

fun command_step :: "bytes \<Rightarrow> bool \<Rightarrow> acl_rule \<Rightarrow> bool" where
  "command_step command allowed AllCommands = True"
| "command_step command allowed NoCommands = False"
| "command_step command allowed (AllowCommand c) = (if c = command then True else allowed)"
| "command_step command allowed (DenyCommand c) = (if c = command then False else allowed)"
| "command_step command allowed _ = allowed"

fun key_step :: "bytes \<Rightarrow> bool \<Rightarrow> acl_rule \<Rightarrow> bool" where
  "key_step key allowed AllKeys = True"
| "key_step key allowed (KeyPattern p) = (if glob_match p key then True else allowed)"
| "key_step key allowed _ = allowed"

definition key_allowed :: "acl_user \<Rightarrow> bytes \<Rightarrow> bool" where
  "key_allowed user key = foldl (key_step key) False (rules user)"

definition is_allowed :: "acl_user \<Rightarrow> bytes \<Rightarrow> bytes list \<Rightarrow> bool" where
  "is_allowed user command keys =
     (if \<not> foldl (command_step command) False (rules user) then False
      else list_all (key_allowed user) keys)"

section \<open>The store\<close>

record acl_store =
  users :: "(bytes, acl_user) hmap"
  ever_configured :: bool

definition acl_new :: acl_store where
  "acl_new = \<lparr>users = [], ever_configured = False\<rparr>"

definition has_ever_been_configured :: "acl_store \<Rightarrow> bool" where
  "has_ever_been_configured s = ever_configured s"

fun apply_token :: "acl_user \<Rightarrow> acl_token \<Rightarrow> acl_user" where
  "apply_token base TokOn = base\<lparr>enabled := True\<rparr>"
| "apply_token base TokOff = base\<lparr>enabled := False\<rparr>"
| "apply_token base TokNoPass = base\<lparr>password_hash := None\<rparr>"
| "apply_token base (TokPassword hash) = base\<lparr>password_hash := Some hash\<rparr>"
| "apply_token base (TokRule r) = base\<lparr>rules := rules base @ [r]\<rparr>"

definition apply_tokens :: "acl_user \<Rightarrow> acl_token list \<Rightarrow> acl_user" where
  "apply_tokens base tokens = foldl apply_token base tokens"

text \<open>Each password token is replaced by its hash, under the next salt that is drawn.\<close>

fun hash_tokens :: "'h argon2 \<Rightarrow> (nat \<Rightarrow> bytes) \<Rightarrow> nat \<Rightarrow> acl_token list \<Rightarrow> acl_token list" where
  "hash_tokens A salts i [] = []"
| "hash_tokens A salts i (TokPassword pw # ts) =
     TokPassword (hash_password A (salts i) pw) # hash_tokens A salts (Suc i) ts"
| "hash_tokens A salts i (t # ts) = t # hash_tokens A salts i ts"

definition fresh_user :: "bytes \<Rightarrow> acl_user" where
  "fresh_user name = \<lparr>username = name, password_hash = None, enabled = False, rules = []\<rparr>"

definition get_user :: "acl_store \<Rightarrow> bytes \<Rightarrow> acl_user option" where
  "get_user s name = map_of (users s) name"

definition set_user ::
  "'h argon2 \<Rightarrow> (nat \<Rightarrow> bytes) \<Rightarrow> bytes \<Rightarrow> bytes list \<Rightarrow> acl_store
   \<Rightarrow> (acl_error + unit) \<times> acl_store" where
  "set_user A salts name raw_tokens s =
     (case validate_username name of
        Inl err \<Rightarrow> (Inl err, s)
      | Inr _ \<Rightarrow>
          (case parse_tokens raw_tokens of
             Inl err \<Rightarrow> (Inl err, s)
           | Inr toks \<Rightarrow>
               (let hashed = hash_tokens A salts 0 toks;
                    base = (case map_of (users s) name of Some u \<Rightarrow> u | None \<Rightarrow> fresh_user name);
                    updated = apply_tokens base hashed
                in (Inr (), s\<lparr>users := AList.update name updated (users s),
                              ever_configured := True\<rparr>))))"

definition del_user :: "bytes \<Rightarrow> acl_store \<Rightarrow> bool \<times> acl_store" where
  "del_user name s =
     (map_of (users s) name \<noteq> None, s\<lparr>users := AList.delete name (users s)\<rparr>)"

definition acl_list_users :: "acl_store \<Rightarrow> acl_user list" where
  "acl_list_users s = map snd (users s)"

definition authenticate :: "'h argon2 \<Rightarrow> acl_store \<Rightarrow> bytes \<Rightarrow> bytes \<Rightarrow> acl_user option" where
  "authenticate A s name password =
     (case map_of (users s) name of
        None \<Rightarrow> None
      | Some user \<Rightarrow>
          if \<not> enabled user then None
          else case password_hash user of
              None \<Rightarrow> Some user
            | Some hash \<Rightarrow> if verify_password A password hash then Some user else None)"

definition insert_bootstrap :: "acl_user \<Rightarrow> acl_store \<Rightarrow> acl_store" where
  "insert_bootstrap user s =
     s\<lparr>ever_configured := True, users := AList.update (username user) user (users s)\<rparr>"

text \<open>One \<open>[[acl.users]]\<close> entry of the configuration file, and the user it describes.\<close>

record acl_user_config =
  cfg_username :: bytes
  cfg_password :: "bytes option"
  cfg_enabled :: bool
  cfg_rules :: "bytes list"

fun bootstrap_rules :: "bytes list \<Rightarrow> acl_error + acl_rule list" where
  "bootstrap_rules [] = Inr []"
| "bootstrap_rules (raw # rest) =
     (case parse_token raw of
        Inl e \<Rightarrow> Inl e
      | Inr (TokRule r) \<Rightarrow>
          (case bootstrap_rules rest of Inl e \<Rightarrow> Inl e | Inr rs \<Rightarrow> Inr (r # rs))
      | Inr (TokPassword _) \<Rightarrow> Inl (SyntaxError ''<password token>'')
      | Inr _ \<Rightarrow> Inl (SyntaxError raw))"

definition from_bootstrap_config ::
  "'h argon2 \<Rightarrow> bytes \<Rightarrow> acl_user_config \<Rightarrow> acl_error + acl_user" where
  "from_bootstrap_config A salt cfg =
     (case validate_username (cfg_username cfg) of
        Inl e \<Rightarrow> Inl e
      | Inr _ \<Rightarrow>
          (case bootstrap_rules (cfg_rules cfg) of
             Inl e \<Rightarrow> Inl e
           | Inr rs \<Rightarrow>
               Inr \<lparr>username = cfg_username cfg,
                    password_hash = map_option (hash_password A salt) (cfg_password cfg),
                    enabled = cfg_enabled cfg, rules = rs\<rparr>))"

section \<open>Which rule decides\<close>

fun decides :: "bytes \<Rightarrow> acl_rule \<Rightarrow> bool" where
  "decides command AllCommands = True"
| "decides command NoCommands = True"
| "decides command (AllowCommand c) = (c = command)"
| "decides command (DenyCommand c) = (c = command)"
| "decides command _ = False"

fun grants :: "bytes \<Rightarrow> acl_rule \<Rightarrow> bool" where
  "grants command AllCommands = True"
| "grants command (AllowCommand c) = (c = command)"
| "grants command _ = False"

definition key_covered :: "acl_user \<Rightarrow> bytes \<Rightarrow> bool" where
  "key_covered user key \<longleftrightarrow>
     AllKeys \<in> set (rules user) \<or> (\<exists>p. KeyPattern p \<in> set (rules user) \<and> glob_match p key)"

lemma command_step_cases:
  "command_step c b r = (if decides c r then grants c r else b)"
  by (cases r) auto

lemma key_fold:
  "foldl (key_step k) b rs \<longleftrightarrow>
     b \<or> AllKeys \<in> set rs \<or> (\<exists>p. KeyPattern p \<in> set rs \<and> glob_match p k)"
proof (induction rs arbitrary: b)
  case (Cons r rs)
  then show ?case by (cases r) auto
qed simp

lemma key_allowed_iff: "key_allowed u k \<longleftrightarrow> key_covered u k"
  by (simp add: key_allowed_def key_covered_def key_fold)

lemma command_fold_append:
  "foldl (command_step c) b (before @ r # after) = grants c r"
  if "decides c r" and "filter (decides c) after = []"
proof -
  have "foldl (command_step c) x after = x" for x
    using that(2) by (induction after arbitrary: x) (auto simp: command_step_cases split: if_splits)
  with that(1) show ?thesis by (simp add: command_step_cases)
qed

lemma command_fold_cases:
  obtains "filter (decides c) rs = []" and "\<And>b. foldl (command_step c) b rs = b"
  | before r after where "rs = before @ r # after" and "decides c r"
    and "filter (decides c) after = []"
proof (cases "filter (decides c) rs = []")
  case True
  then have "foldl (command_step c) b rs = b" for b
    by (induction rs arbitrary: b) (auto simp: command_step_cases split: if_splits)
  with True that(1) show ?thesis by blast
next
  case False
  then have "\<exists>r \<in> set rs. decides c r" by (simp add: filter_empty_conv)
  then obtain before r after where "rs = before @ r # after" "decides c r" "\<forall>x \<in> set after. \<not> decides c x"
    using split_list_last_prop by metis
  with that(2) show ?thesis by (simp add: filter_empty_conv)
qed

lemma grants_decides: "grants c r \<Longrightarrow> decides c r"
  by (cases r) auto

text \<open>
  C29: A user may run a command on keys exactly when the last of their rules that decides the
  command grants it, nothing being granted by default, and every key is covered by one of the key
  rules.
\<close>

theorem is_allowed_last_rule:
  "is_allowed u command keys \<longleftrightarrow>
     (\<exists>before r after. rules u = before @ r # after \<and> grants command r
        \<and> filter (decides command) after = [])
     \<and> set keys \<subseteq> {k. key_covered u k}"
proof -
  have "foldl (command_step command) False (rules u) \<longleftrightarrow>
      (\<exists>before r after. rules u = before @ r # after \<and> grants command r
        \<and> filter (decides command) after = [])" (is "_ \<longleftrightarrow> ?last")
  proof (cases rule: command_fold_cases [of command "rules u"])
    case 1
    then show ?thesis by (auto simp: filter_empty_conv dest: grants_decides)
  next
    case (2 before r after)
    have fold: "foldl (command_step command) False (rules u) = grants command r"
      unfolding 2(1) by (rule command_fold_append [OF 2(2,3)])
    have "grants command r" if ?last
      using command_fold_append [OF grants_decides, of command _ _ False] that fold by metis
    with 2 fold show ?thesis by metis
  qed
  then show ?thesis by (auto simp: is_allowed_def list_all_iff key_allowed_iff)
qed

section \<open>What a list of tokens does\<close>

definition is_switch :: "acl_token \<Rightarrow> bool" where
  "is_switch t \<longleftrightarrow> t = TokOn \<or> t = TokOff"

fun is_credential :: "acl_token \<Rightarrow> bool" where
  "is_credential (TokPassword _) = True"
| "is_credential TokNoPass = True"
| "is_credential _ = False"

fun rules_of :: "acl_token list \<Rightarrow> acl_rule list" where
  "rules_of [] = []"
| "rules_of (TokRule r # ts) = r # rules_of ts"
| "rules_of (_ # ts) = rules_of ts"

lemma rules_of_snoc: "rules_of (ts @ [t]) = rules_of ts @ (case t of TokRule r \<Rightarrow> [r] | _ \<Rightarrow> [])"
  by (induction ts rule: rules_of.induct) (auto split: acl_token.split)

lemma apply_tokens_snoc: "apply_tokens u (ts @ [t]) = apply_token (apply_tokens u ts) t"
  by (simp add: apply_tokens_def)

lemma apply_tokens_Nil [simp]: "apply_tokens u [] = u"
  by (simp add: apply_tokens_def)

lemma apply_tokens_fields:
  "username (apply_tokens u ts) = username u"
  "enabled (apply_tokens u ts) =
     (case find is_switch (rev ts) of Some t \<Rightarrow> t = TokOn | None \<Rightarrow> enabled u)"
  "password_hash (apply_tokens u ts) =
     (case find is_credential (rev ts) of
        Some (TokPassword h) \<Rightarrow> Some h | Some _ \<Rightarrow> None | None \<Rightarrow> password_hash u)"
  "rules (apply_tokens u ts) = rules u @ rules_of ts"
proof (induction ts rule: rev_induct)
  case (snoc t ts)
  { case 1 with snoc show ?case by (cases t) (simp_all add: apply_tokens_snoc) }
  { case 2 with snoc show ?case by (cases t) (simp_all add: apply_tokens_snoc is_switch_def) }
  { case 3 with snoc show ?case by (cases t) (simp_all add: apply_tokens_snoc) }
  { case 4 with snoc show ?case by (cases t) (simp_all add: apply_tokens_snoc rules_of_snoc) }
qed simp_all

text \<open>Hashing replaces each password by a hash of it and keeps the other tokens.\<close>

fun hashes_to :: "'h argon2 \<Rightarrow> acl_token \<Rightarrow> acl_token \<Rightarrow> bool" where
  "hashes_to A (TokPassword pw) t \<longleftrightarrow> (\<exists>salt. t = TokPassword (hash_password A salt pw))"
| "hashes_to A t t' \<longleftrightarrow> t' = t"

lemma hash_tokens_all: "list_all2 (hashes_to A) ts (hash_tokens A salts i ts)"
  by (induction A salts i ts rule: hash_tokens.induct) auto

lemma hashes_to_kind:
  "hashes_to A t t' \<Longrightarrow> is_switch t' = is_switch t"
  "hashes_to A t t' \<Longrightarrow> is_credential t' = is_credential t"
  by (cases t; auto simp: is_switch_def)+

lemma find_all2:
  assumes "list_all2 R xs ys" and "\<And>x y. R x y \<Longrightarrow> P y = Q x"
  shows "rel_option R (find Q xs) (find P ys)"
  using assms(1) by (induction rule: list_all2_induct) (auto simp: assms(2))

lemma rules_of_hashed: "rules_of (hash_tokens A salts i ts) = rules_of ts"
  by (induction A salts i ts rule: hash_tokens.induct) (auto split: acl_token.split)

lemma verify_hash:
  "argon2_exact A \<Longrightarrow> verify_password A q (hash_password A salt p) \<longleftrightarrow> q = p"
  unfolding argon2_exact_def verify_password_def hash_password_def
  by (metis option.simps(5))

lemma hashed_switch:
  "(case find is_switch (rev (hash_tokens A salts i ts)) of Some t \<Rightarrow> t = TokOn | None \<Rightarrow> b) =
   (case find is_switch (rev ts) of Some t \<Rightarrow> t = TokOn | None \<Rightarrow> b)"
proof -
  have "rel_option (hashes_to A) (find is_switch (rev ts))
      (find is_switch (rev (hash_tokens A salts i ts)))"
    by (rule find_all2) (simp_all add: hash_tokens_all hashes_to_kind)
  moreover have "hashes_to A t t' \<longleftrightarrow> t' = t" if "find is_switch (rev ts) = Some t" for t t'
    using that by (cases t) (auto simp: find_Some_iff is_switch_def)
  ultimately show ?thesis
    by (cases "find is_switch (rev ts)") (auto simp: option_rel_Some1)
qed

lemma hashed_credential:
  "find is_credential (rev ts) = None \<Longrightarrow> find is_credential (rev (hash_tokens A salts i ts)) = None"
  "find is_credential (rev ts) = Some TokNoPass \<Longrightarrow>
     find is_credential (rev (hash_tokens A salts i ts)) = Some TokNoPass"
  "find is_credential (rev ts) = Some (TokPassword p) \<Longrightarrow>
     \<exists>salt. find is_credential (rev (hash_tokens A salts i ts))
              = Some (TokPassword (hash_password A salt p))"
proof -
  have "rel_option (hashes_to A) (find is_credential (rev ts))
      (find is_credential (rev (hash_tokens A salts i ts)))"
    by (rule find_all2) (simp_all add: hash_tokens_all hashes_to_kind)
  then show "find is_credential (rev ts) = None \<Longrightarrow>
      find is_credential (rev (hash_tokens A salts i ts)) = None"
    "find is_credential (rev ts) = Some TokNoPass \<Longrightarrow>
     find is_credential (rev (hash_tokens A salts i ts)) = Some TokNoPass"
    "find is_credential (rev ts) = Some (TokPassword p) \<Longrightarrow>
     \<exists>salt. find is_credential (rev (hash_tokens A salts i ts))
              = Some (TokPassword (hash_password A salt p))"
    by (auto simp: option_rel_Some1)
qed

text \<open>When a password lets a user in: the credential that counts is the last one given.\<close>

definition accepts ::
  "'h argon2 \<Rightarrow> acl_token list \<Rightarrow> acl_user \<Rightarrow> bytes \<Rightarrow> bool" where
  "accepts A toks old q \<longleftrightarrow>
     (case find is_credential (rev toks) of
        Some (TokPassword p) \<Rightarrow> q = p
      | Some _ \<Rightarrow> True
      | None \<Rightarrow> (case password_hash old of None \<Rightarrow> True | Some h \<Rightarrow> verify_password A q h))"

lemma accepts_hashed:
  assumes "argon2_exact A"
  shows "(case password_hash (apply_tokens old (hash_tokens A salts 0 toks)) of
           None \<Rightarrow> True | Some h \<Rightarrow> verify_password A q h) \<longleftrightarrow> accepts A toks old q"
proof (cases "find is_credential (rev toks)")
  case None
  then show ?thesis by (simp add: apply_tokens_fields hashed_credential(1) accepts_def)
next
  case (Some t)
  then have "is_credential t" by (auto simp: find_Some_iff)
  then show ?thesis
  proof (cases rule: is_credential.elims(2))
    case (1 p)
    with Some obtain salt where "find is_credential (rev (hash_tokens A salts 0 toks))
        = Some (TokPassword (hash_password A salt p))"
      using hashed_credential(3) by blast
    with Some 1 assms show ?thesis by (simp add: apply_tokens_fields accepts_def verify_hash)
  next
    case 2
    with Some show ?thesis by (simp add: apply_tokens_fields hashed_credential(2) accepts_def)
  qed
qed

lemma authenticate_iff:
  "authenticate A s n q \<noteq> None \<longleftrightarrow>
     (\<exists>u. get_user s n = Some u \<and> enabled u
        \<and> (case password_hash u of None \<Rightarrow> True | Some h \<Rightarrow> verify_password A q h))"
  by (auto simp: authenticate_def get_user_def split: option.split)

lemma set_user_ok:
  assumes "validate_username n = Inr ()" and "parse_tokens raw = Inr toks"
  shows "set_user A salts n raw s =
    (Inr (), s\<lparr>users := AList.update n
        (apply_tokens (case get_user s n of Some u \<Rightarrow> u | None \<Rightarrow> fresh_user n)
           (hash_tokens A salts 0 toks)) (users s), ever_configured := True\<rparr>)"
  using assms by (simp add: set_user_def get_user_def)

lemma get_user_set_user:
  assumes "validate_username n = Inr ()" and "parse_tokens raw = Inr toks"
  shows "get_user (snd (set_user A salts n raw s)) m =
    (if m = n then Some (apply_tokens (case get_user s n of Some u \<Rightarrow> u | None \<Rightarrow> fresh_user n)
                           (hash_tokens A salts 0 toks))
     else get_user s m)"
  unfolding set_user_ok [OF assms] by (simp add: get_user_def update_conv')

lemma set_user_error: "fst (set_user A salts n raw s) = Inl err \<Longrightarrow> snd (set_user A salts n raw s) = s"
  by (auto simp: set_user_def Let_def split: sum.splits)

text \<open>
  C30: \<open>ACL SETUSER\<close> with a valid name and well-formed tokens succeeds, and afterwards \<open>AUTH\<close> lets
  the user in exactly when the last on/off token (or, without one, the state before) enables them
  and the password is the last one given, or the last credential token was \<open>nopass\<close>, or no
  credential was given and the password stored before accepts it. The rules are appended in order, and
  no other user's login changes. If any token is malformed, nothing changes.
\<close>

theorem setuser_then_authenticate:
  fixes s :: acl_store and raw :: "bytes list" and salts :: "nat \<Rightarrow> bytes"
  assumes "argon2_exact A" and "validate_username n = Inr ()"
  defines "s' \<equiv> snd (set_user A salts n raw s)"
    and "old \<equiv> (case get_user s n of Some u \<Rightarrow> u | None \<Rightarrow> fresh_user n)"
  shows "case parse_tokens raw of
      Inl err \<Rightarrow> set_user A salts n raw s = (Inl err, s)
    | Inr toks \<Rightarrow>
        fst (set_user A salts n raw s) = Inr ()
        \<and> (authenticate A s' n q \<noteq> None \<longleftrightarrow>
             (case find is_switch (rev toks) of Some t \<Rightarrow> t = TokOn | None \<Rightarrow> enabled old)
             \<and> accepts A toks old q)
        \<and> (\<exists>u. get_user s' n = Some u \<and> rules u = rules old @ rules_of toks)
        \<and> (\<forall>m. m \<noteq> n \<longrightarrow> authenticate A s' m q = authenticate A s m q)"
proof (cases "parse_tokens raw")
  case (Inl err)
  with assms(2) show ?thesis by (simp add: set_user_def)
next
  case (Inr toks)
  note get = get_user_set_user [OF assms(2) Inr, of A salts s, folded s'_def old_def]
  have "authenticate A s' n q \<noteq> None \<longleftrightarrow>
      enabled (apply_tokens old (hash_tokens A salts 0 toks)) \<and> accepts A toks old q"
    unfolding authenticate_iff by (auto simp: get accepts_hashed [OF assms(1)])
  moreover have "authenticate A s' m q = authenticate A s m q" if "m \<noteq> n" for m
    using that get [of m] by (simp add: authenticate_def get_user_def)
  ultimately show ?thesis
    using Inr get [of n] assms(2)
    by (simp add: set_user_ok apply_tokens_fields hashed_switch rules_of_hashed)
qed

definition tagged_argon2 :: "bytes argon2" where
  "tagged_argon2 = \<lparr>argon2_hash = \<lambda>p salt. CHR ''$'' # p,
     phc_parse = \<lambda>h. (case h of [] \<Rightarrow> None | c # r \<Rightarrow> Some r), argon2_verify = (=)\<rparr>"

lemma tagged_argon2_exact: "argon2_exact tagged_argon2"
  by (simp add: argon2_exact_def tagged_argon2_def)

theorem setuser_then_authenticate_witness:
  "argon2_exact tagged_argon2
   \<and> parse_tokens [''ON'', ''>pw''] = Inr [TokOn, TokPassword ''pw'']
   \<and> authenticate tagged_argon2
       (snd (set_user tagged_argon2 (\<lambda>_. []) ''ann'' [''ON'', ''>pw''] acl_new)) ''ann'' ''pw'' \<noteq> None
   \<and> authenticate tagged_argon2
       (snd (set_user tagged_argon2 (\<lambda>_. []) ''ann'' [''ON'', ''>pw''] acl_new)) ''ann'' ''no'' = None"
proof -
  have toks: "parse_tokens [''ON'', ''>pw''] = Inr [TokOn, TokPassword ''pw'']"
    by code_simp
  have valid: "validate_username ''ann'' = Inr ()" by code_simp
  note auth = setuser_then_authenticate [OF tagged_argon2_exact valid,
      where raw = "[''ON'', ''>pw'']" and salts = "\<lambda>_. []" and s = acl_new,
      unfolded toks sum.case]
  show ?thesis
    using auth [of "''pw''"] auth [of "''no''"] tagged_argon2_exact toks
    by (simp add: accepts_def is_switch_def)
qed

section \<open>The store over time\<close>

text \<open>What the server does to the store: the two administrative commands and the bootstrap.\<close>

inductive acl_step :: "'h argon2 \<Rightarrow> acl_store \<Rightarrow> acl_store \<Rightarrow> bool" for A where
  step_setuser: "acl_step A s (snd (set_user A salts n raw s))"
| step_deluser: "acl_step A s (snd (del_user n s))"
| step_bootstrap: "from_bootstrap_config A salt cfg = Inr u \<Longrightarrow> acl_step A s (insert_bootstrap u s)"

inductive_cases acl_stepE: "acl_step A s s'"

text \<open>
  Every user is stored under their own, valid name, once; a store with users in it is configured.
\<close>

definition acl_ok :: "acl_store \<Rightarrow> bool" where
  "acl_ok s \<longleftrightarrow> hm_ok (users s)
     \<and> (\<forall>n u. get_user s n = Some u \<longrightarrow> username u = n \<and> validate_username n = Inr ())
     \<and> (users s \<noteq> [] \<longrightarrow> ever_configured s)"

lemma acl_ok_new: "acl_ok acl_new"
  by (simp add: acl_ok_def acl_new_def get_user_def)

lemma from_bootstrap_valid:
  "from_bootstrap_config A salt cfg = Inr u \<Longrightarrow> validate_username (username u) = Inr ()"
  by (auto simp: from_bootstrap_config_def split: sum.splits)

lemma acl_ok_set_user: "acl_ok s \<Longrightarrow> acl_ok (snd (set_user A salts n raw s))"
proof (cases "\<exists>err. fst (set_user A salts n raw s) = Inl err")
  case True
  then show "acl_ok s \<Longrightarrow> ?thesis" by (auto simp: set_user_error)
next
  case False
  assume s: "acl_ok s"
  from False obtain toks where ok: "validate_username n = Inr ()" "parse_tokens raw = Inr toks"
    by (auto simp: set_user_def split: sum.splits)
  have "username (case get_user s n of Some u \<Rightarrow> u | None \<Rightarrow> fresh_user n) = n"
    using s by (auto simp: acl_ok_def fresh_user_def split: option.split)
  with s ok show ?thesis
    unfolding acl_ok_def get_user_set_user [OF ok]
    by (auto simp: set_user_ok apply_tokens_fields distinct_update)
qed

lemma acl_ok_del_user: "acl_ok s \<Longrightarrow> acl_ok (snd (del_user n s))"
  by (auto simp: acl_ok_def del_user_def get_user_def delete_conv' distinct_delete split: if_splits)

lemma acl_ok_bootstrap:
  "acl_ok s \<Longrightarrow> validate_username (username u) = Inr () \<Longrightarrow> acl_ok (insert_bootstrap u s)"
  by (auto simp: acl_ok_def insert_bootstrap_def get_user_def update_conv' distinct_update
      split: if_splits)

lemma acl_step_ok: "acl_step A s s' \<Longrightarrow> acl_ok s \<Longrightarrow> acl_ok s'"
  by (erule acl_stepE)
    (auto intro: acl_ok_set_user acl_ok_del_user acl_ok_bootstrap from_bootstrap_valid)

lemma acl_step_configured: "acl_step A s s' \<Longrightarrow> ever_configured s \<Longrightarrow> ever_configured s'"
  by (erule acl_stepE)
    (auto simp: set_user_def del_user_def insert_bootstrap_def Let_def split: sum.splits)

lemma acl_steps:
  assumes "(acl_step A)\<^sup>*\<^sup>* s s'"
  shows "acl_ok s \<Longrightarrow> acl_ok s'" and "ever_configured s \<Longrightarrow> ever_configured s'"
  using assms by (induction rule: rtranclp_induct) (auto intro: acl_step_ok acl_step_configured)

end
