(* ===== verification/Rm_Dispatch.thy ===== *)
theory Rm_Dispatch
  imports Rm_Keys Rm_String Rm_List Rm_Hash Rm_Set Rm_ZSet Rm_Glob Rm_Resp
begin

text \<open>
  The command dispatcher (\<open>dispatch\<close> in \<open>crates/server/src/dispatcher.rs\<close>): the argument checks
  and replies of every command arm, on top of the command functions of the engine crate, and the
  table of commands with the arguments that are keys. A handler takes the arguments after the
  command name and the engine, and gives the reply and the engine it leaves, or \<open>None\<close> when the
  arm panics. An \<open>f64\<close> is abstract: what the arms use of it is collected in \<open>float_ops\<close>.
\<close>

section \<open>Arguments and replies\<close>

type_synonym 'f handler = "bytes list \<Rightarrow> 'f engine \<Rightarrow> (frame \<times> 'f engine) option"

text \<open>
  The operations on \<open>f64\<close>: \<open>str::parse\<close>, \<open>is_finite\<close>, \<open>fract() == 0.0\<close>, \<open>as i64\<close>, \<open>to_string\<close> and the
  ceiling of \<open>DEBUG SLEEP\<close>.
\<close>

record 'f float_ops =
  f_parse :: "bytes \<Rightarrow> 'f option"
  f_finite :: "'f \<Rightarrow> bool"
  f_integral :: "'f \<Rightarrow> bool"
  f_as_i64 :: "'f \<Rightarrow> int"
  f_show :: "'f \<Rightarrow> bytes"
  f_max_sleep :: 'f

abbreviation QUOTE :: bytes where
  "QUOTE \<equiv> [CHR 0x27]"

abbreviation err_not_an_integer :: frame where
  "err_not_an_integer \<equiv> FError ''ERR value is not an integer or out of range''"

abbreviation err_syntax :: frame where
  "err_syntax \<equiv> FError ''ERR syntax error''"

fun bulk_bytes :: "frame \<Rightarrow> bytes option" where
  "bulk_bytes (FBulk b) = Some b"
| "bulk_bytes _ = None"

fun frame_to_args :: "frame \<Rightarrow> frame + bytes list" where
  "frame_to_args (FArray items) =
     (case those (map bulk_bytes items) of
        None \<Rightarrow> Inl (FError ''ERR invalid request, expected array of bulk strings'')
      | Some args \<Rightarrow> Inr args)"
| "frame_to_args _ = Inl (FError ''ERR invalid request, expected array of bulk strings'')"

abbreviation MAX_COMMAND_NAME_LEN :: nat where
  "MAX_COMMAND_NAME_LEN \<equiv> 32"

definition upper_name :: "bytes \<Rightarrow> bytes option" where
  "upper_name raw =
     (if MAX_COMMAND_NAME_LEN < length raw \<or> \<not> is_ascii raw then None else Some (ascii_uppercase raw))"

fun engine_error_text :: "engine_error \<Rightarrow> bytes" where
  "engine_error_text WrongType = ''WRONGTYPE Operation against a key holding the wrong kind of value''"
| "engine_error_text NotAnInteger = ''value is not an integer or out of range''"
| "engine_error_text NoSuchKey = ''no such key''"
| "engine_error_text IncrementOverflow = ''increment or decrement would overflow''"
| "engine_error_text IndexOutOfRange = ''index out of range''"

definition engine_error_to_frame :: "engine_error \<Rightarrow> frame" where
  "engine_error_to_frame err = FError (engine_error_text err)"

definition format_score :: "'f float_ops \<Rightarrow> 'f \<Rightarrow> bytes" where
  "format_score F score =
     (if f_integral F score \<and> f_finite F score then show_int (f_as_i64 F score) else f_show F score)"

definition parse_score :: "'f float_ops \<Rightarrow> bytes \<Rightarrow> frame + 'f" where
  "parse_score F raw =
     (case (if utf8_valid raw then f_parse F raw else None) of
        None \<Rightarrow> Inl (FError ''ERR value is not a valid float'')
      | Some score \<Rightarrow>
          if \<not> f_finite F score then Inl (FError ''ERR value is not a valid float'') else Inr score)"

definition parse_timeout_secs :: "('f::{linorder,zero}) float_ops \<Rightarrow> bytes \<Rightarrow> frame + 'f" where
  "parse_timeout_secs F raw =
     (case (if utf8_valid raw then f_parse F raw else None) of
        None \<Rightarrow> Inl (FError ''ERR timeout is not a float or out of range'')
      | Some secs \<Rightarrow>
          if \<not> f_finite F secs \<or> secs < 0 then Inl (FError ''ERR timeout is negative'') else Inr secs)"

definition parse_list_end :: "bytes \<Rightarrow> list_end option" where
  "parse_list_end raw =
     (if eq_ignore_ascii_case raw ''LEFT'' then Some ListLeft
      else if eq_ignore_ascii_case raw ''RIGHT'' then Some ListRight else None)"

fun first_available_pop ::
  "env \<Rightarrow> bytes list \<Rightarrow> list_end \<Rightarrow> 'f::linorder engine
   \<Rightarrow> (engine_error + (bytes \<times> bytes) option) \<times> 'f engine" where
  "first_available_pop \<epsilon> [] fin e = (Inr None, e)"
| "first_available_pop \<epsilon> (key # keys) fin e =
     (let (popped, e1) = (case fin of ListLeft \<Rightarrow> lpop \<epsilon> key e | ListRight \<Rightarrow> rpop \<epsilon> key e)
      in case popped of
           Inl err \<Rightarrow> (Inl err, e1)
         | Inr (Some val) \<Rightarrow> (Inr (Some (key, val)), e1)
         | Inr None \<Rightarrow> first_available_pop \<epsilon> keys fin e1)"

definition is_blocking :: "bytes \<Rightarrow> bool" where
  "is_blocking name \<longleftrightarrow>
     list_ex (eq_ignore_ascii_case name) [''BLPOP'', ''BRPOP'', ''BLMOVE'', ''BRPOPLPUSH'']"

definition blocking_timeout :: "('f::{linorder,zero}) float_ops \<Rightarrow> frame \<Rightarrow> (frame + 'f) option" where
  "blocking_timeout F frame =
     (case frame of
        FArray (FBulk name # items) \<Rightarrow>
          if \<not> is_blocking name \<or> items = [] then None
          else (case last items of FBulk raw \<Rightarrow> Some (parse_timeout_secs F raw) | _ \<Rightarrow> None)
      | _ \<Rightarrow> None)"

text \<open>The macro \<open>require_args!\<close>: too few arguments are answered with an error.\<close>

definition wrong_args :: "bytes \<Rightarrow> frame" where
  "wrong_args name = FError (''ERR wrong number of arguments for '' @ QUOTE @ name @ QUOTE @ '' command'')"

definition require_args ::
  "bytes list \<Rightarrow> nat \<Rightarrow> bytes \<Rightarrow> 'e \<Rightarrow> (frame \<times> 'e) option \<Rightarrow> (frame \<times> 'e) option" where
  "require_args rest n name e body =
     (if length rest < n then Some (wrong_args name, e) else body)"

text \<open>\<open>match\<close> on the result of a command: its error, or a frame built from its value.\<close>

definition reply :: "('r \<Rightarrow> frame) \<Rightarrow> (engine_error + 'r) \<times> 'e \<Rightarrow> (frame \<times> 'e) option" where
  "reply ok p =
     Some (case fst p of Inl err \<Rightarrow> engine_error_to_frame err | Inr r \<Rightarrow> ok r, snd p)"

fun bulk_or_null :: "bytes option \<Rightarrow> frame" where
  "bulk_or_null (Some b) = FBulk b"
| "bulk_or_null None = FNull"

definition bulks :: "bytes list \<Rightarrow> frame" where
  "bulks items = FArray (map FBulk items)"

definition count_reply :: "nat \<Rightarrow> frame" where
  "count_reply n = FInteger (int n)"

definition bool_reply :: "bool \<Rightarrow> frame" where
  "bool_reply b = FInteger (if b then 1 else 0)"

definition ok_reply :: "'a \<Rightarrow> frame" where
  "ok_reply _ = FSimple ''OK''"

definition int_arg :: "bytes \<Rightarrow> 'e \<Rightarrow> (int \<Rightarrow> (frame \<times> 'e) option) \<Rightarrow> (frame \<times> 'e) option" where
  "int_arg b e body =
     (case parse_i64_arg b of None \<Rightarrow> Some (err_not_an_integer, e) | Some n \<Rightarrow> body n)"

definition range_args ::
  "bytes \<Rightarrow> bytes \<Rightarrow> 'e \<Rightarrow> (int \<Rightarrow> int \<Rightarrow> (frame \<times> 'e) option) \<Rightarrow> (frame \<times> 'e) option" where
  "range_args a b e body =
     (case (parse_i64_arg a, parse_i64_arg b) of
        (Some i, Some j) \<Rightarrow> body i j
      | _ \<Rightarrow> Some (err_not_an_integer, e))"

fun chunks2 :: "'a list \<Rightarrow> ('a \<times> 'a) list" where
  "chunks2 (a # b # r) = (a, b) # chunks2 r"
| "chunks2 _ = []"

section \<open>String commands\<close>

definition arm_get :: "env \<Rightarrow> ('f::linorder) handler" where
  "arm_get \<epsilon> rest e = require_args rest 1 ''get'' e
     (reply bulk_or_null (string_get \<epsilon> (rest ! 0) e))"

fun del_keys :: "env \<Rightarrow> bytes list \<Rightarrow> 'f::linorder engine \<Rightarrow> nat \<times> 'f engine" where
  "del_keys \<epsilon> [] e = (0, e)"
| "del_keys \<epsilon> (k # ks) e =
     (let (b, e1) = engine_del \<epsilon> k e; (n, e2) = del_keys \<epsilon> ks e1 in ((if b then Suc n else n), e2))"

definition arm_del :: "env \<Rightarrow> ('f::linorder) handler" where
  "arm_del \<epsilon> rest e = require_args rest 1 ''del'' e
     (let (deleted, e1) = del_keys \<epsilon> rest e in Some (count_reply deleted, e1))"

fun count_existing :: "env \<Rightarrow> bytes list \<Rightarrow> 'f engine \<Rightarrow> nat \<times> 'f engine" where
  "count_existing \<epsilon> [] e = (0, e)"
| "count_existing \<epsilon> (k # ks) e =
     (let (b, e1) = engine_exists \<epsilon> k e; (n, e2) = count_existing \<epsilon> ks e1
      in ((if b then Suc n else n), e2))"

definition arm_exists :: "env \<Rightarrow> 'f handler" where
  "arm_exists \<epsilon> rest e = require_args rest 1 ''exists'' e
     (let (n, e1) = count_existing \<epsilon> rest e in Some (count_reply n, e1))"

text \<open>\<open>rest.get(i)\<close> and the integer it holds; the flags of \<open>SET\<close> and the time to live they give.\<close>

definition get_int :: "bytes list \<Rightarrow> nat \<Rightarrow> int option" where
  "get_int rest i = (if i < length rest then parse_i64_arg (rest ! i) else None)"

definition set_flags :: "bytes list \<Rightarrow> bytes list" where
  "set_flags rest = map (\<lambda>b. ascii_uppercase (utf8_lossy b)) (drop 2 rest)"

definition set_ttl :: "bytes list \<Rightarrow> frame + int option" where
  "set_ttl rest =
     (case position (\<lambda>f. f = ''EX'') (set_flags rest) of
        Some pos \<Rightarrow>
          (case get_int rest (2 + pos + 1) of
             Some secs \<Rightarrow> Inr (Some (saturating_mul_i64 secs 1000))
           | None \<Rightarrow> Inl err_not_an_integer)
      | None \<Rightarrow>
          (case position (\<lambda>f. f = ''PX'') (set_flags rest) of
             Some pos \<Rightarrow>
               (case get_int rest (2 + pos + 1) of
                  Some ms \<Rightarrow> Inr (Some ms)
                | None \<Rightarrow> Inl err_not_an_integer)
           | None \<Rightarrow> Inr None))"

definition set_apply ::
  "env \<Rightarrow> bytes list \<Rightarrow> bytes \<Rightarrow> bytes \<Rightarrow> 'f::linorder engine \<Rightarrow> bool \<times> 'f engine" where
  "set_apply \<epsilon> flags key val e =
     (if ''NX'' \<in> set flags then set_nx \<epsilon> key val e
      else if ''XX'' \<in> set flags then set_xx \<epsilon> key val e
      else (True, engine_set \<epsilon> key (VString val) e))"

definition arm_set :: "env \<Rightarrow> ('f::linorder) handler" where
  "arm_set \<epsilon> rest e = require_args rest 2 ''set'' e
     (case set_ttl rest of
        Inl err \<Rightarrow> Some (err, e)
      | Inr ex_ms \<Rightarrow>
          (let (applied, e1) = set_apply \<epsilon> (set_flags rest) (rest ! 0) (rest ! 1) e
           in if \<not> applied then Some (FNull, e1)
              else case ex_ms of
                  None \<Rightarrow> Some (FSimple ''OK'', e1)
                | Some ms \<Rightarrow>
                    (case instant_add (env_now \<epsilon>) (nat (max ms 0) * nanos_per_milli) of
                       None \<Rightarrow> None
                     | Some at \<Rightarrow>
                         Some (FSimple ''OK'', snd (engine_expire_at \<epsilon> (rest ! 0) at e1)))))"

definition arm_append :: "env \<Rightarrow> ('f::linorder) handler" where
  "arm_append \<epsilon> rest e = require_args rest 2 ''append'' e
     (reply count_reply (append_cmd \<epsilon> (rest ! 0) (rest ! 1) e))"

definition arm_strlen :: "env \<Rightarrow> ('f::linorder) handler" where
  "arm_strlen \<epsilon> rest e = require_args rest 1 ''strlen'' e
     (reply count_reply (strlen_cmd \<epsilon> (rest ! 0) e))"

definition arm_getrange :: "env \<Rightarrow> ('f::linorder) handler" where
  "arm_getrange \<epsilon> rest e = require_args rest 3 ''getrange'' e
     (range_args (rest ! 1) (rest ! 2) e
        (\<lambda>start fin. reply FBulk (getrange \<epsilon> (rest ! 0) start fin e)))"

definition arm_setrange :: "env \<Rightarrow> ('f::linorder) handler" where
  "arm_setrange \<epsilon> rest e = require_args rest 3 ''setrange'' e
     (int_arg (rest ! 1) e (\<lambda>offset.
        if offset < 0 then Some (FError ''ERR offset is out of range'', e)
        else (case setrange \<epsilon> (rest ! 0) (nat offset) (rest ! 2) e of
                (None, e1) \<Rightarrow> None
              | (Some r, e1) \<Rightarrow> reply count_reply (r, e1))))"

definition arm_incr :: "env \<Rightarrow> ('f::linorder) handler" where
  "arm_incr \<epsilon> rest e = require_args rest 1 ''incr'' e
     (reply FInteger (incr_by \<epsilon> (rest ! 0) 1 e))"

definition arm_decr :: "env \<Rightarrow> ('f::linorder) handler" where
  "arm_decr \<epsilon> rest e = require_args rest 1 ''decr'' e
     (reply FInteger (incr_by \<epsilon> (rest ! 0) (- 1) e))"

definition arm_incrby :: "env \<Rightarrow> ('f::linorder) handler" where
  "arm_incrby \<epsilon> rest e = require_args rest 2 ''incrby'' e
     (int_arg (rest ! 1) e (\<lambda>delta. reply FInteger (incr_by \<epsilon> (rest ! 0) delta e)))"

definition arm_getset :: "env \<Rightarrow> ('f::linorder) handler" where
  "arm_getset \<epsilon> rest e = require_args rest 2 ''getset'' e
     (reply bulk_or_null (getset \<epsilon> (rest ! 0) (rest ! 1) e))"

definition arm_mset :: "env \<Rightarrow> ('f::linorder) handler" where
  "arm_mset \<epsilon> rest e = require_args rest 2 ''mset'' e
     (if length rest mod 2 \<noteq> 0 then Some (wrong_args ''mset'', e)
      else Some (FSimple ''OK'', mset_cmd \<epsilon> (chunks2 rest) e))"

definition arm_mget :: "env \<Rightarrow> ('f::linorder) handler" where
  "arm_mget \<epsilon> rest e = require_args rest 1 ''mget'' e
     (let (vals, e1) = mget_cmd \<epsilon> rest e in Some (FArray (map bulk_or_null vals), e1))"

definition arm_msetnx :: "env \<Rightarrow> ('f::linorder) handler" where
  "arm_msetnx \<epsilon> rest e = require_args rest 2 ''msetnx'' e
     (if length rest mod 2 \<noteq> 0 then Some (wrong_args ''msetnx'', e)
      else let (b, e1) = msetnx \<epsilon> (chunks2 rest) e in Some (bool_reply b, e1))"

section \<open>Scan options\<close>

record scan_options =
  scan_pattern :: "bytes option"
  type_filter :: "bytes option"

fun scan_parse :: "bytes list \<Rightarrow> bool \<Rightarrow> scan_options \<Rightarrow> frame + scan_options" where
  "scan_parse [] allow_type opts = Inr opts"
| "scan_parse [_] allow_type opts = Inl err_syntax"
| "scan_parse (opt # val # args) allow_type opts =
     (let name = ascii_uppercase (utf8_lossy opt)
      in if name = ''MATCH'' then scan_parse args allow_type (opts\<lparr>scan_pattern := Some val\<rparr>)
         else if name = ''COUNT'' then
           (case parse_i64_arg val of
              Some n \<Rightarrow> if n > 0 then scan_parse args allow_type opts else Inl err_not_an_integer
            | None \<Rightarrow> Inl err_not_an_integer)
         else if name = ''TYPE'' \<and> allow_type then
           scan_parse args allow_type (opts\<lparr>type_filter := Some (ascii_lowercase (utf8_lossy val))\<rparr>)
         else Inl err_syntax)"

definition scan_none :: scan_options where
  "scan_none = \<lparr>scan_pattern = None, type_filter = None\<rparr>"

definition scan_matches :: "scan_options \<Rightarrow> bytes \<Rightarrow> bool" where
  "scan_matches opts candidate =
     (case scan_pattern opts of None \<Rightarrow> True | Some p \<Rightarrow> glob_match p candidate)"

section \<open>Hash commands\<close>

fun hset_pairs ::
  "env \<Rightarrow> bytes \<Rightarrow> (bytes \<times> bytes) list \<Rightarrow> int \<Rightarrow> 'f::linorder engine
   \<Rightarrow> (engine_error + int) \<times> 'f engine" where
  "hset_pairs \<epsilon> key [] added e = (Inr added, e)"
| "hset_pairs \<epsilon> key ((f, v) # pairs) added e =
     (let (r, e1) = hset \<epsilon> key f v e
      in case r of
           Inl err \<Rightarrow> (Inl err, e1)
         | Inr True \<Rightarrow> hset_pairs \<epsilon> key pairs (added + 1) e1
         | Inr False \<Rightarrow> hset_pairs \<epsilon> key pairs added e1)"

definition arm_hset :: "env \<Rightarrow> ('f::linorder) handler" where
  "arm_hset \<epsilon> rest e = require_args rest 3 ''hset'' e
     (if length (drop 1 rest) mod 2 \<noteq> 0 then Some (wrong_args ''hset'', e)
      else reply FInteger (hset_pairs \<epsilon> (rest ! 0) (chunks2 (drop 1 rest)) 0 e))"

definition arm_hget :: "env \<Rightarrow> ('f::linorder) handler" where
  "arm_hget \<epsilon> rest e = require_args rest 2 ''hget'' e
     (reply bulk_or_null (hget \<epsilon> (rest ! 0) (rest ! 1) e))"

definition arm_hdel :: "env \<Rightarrow> ('f::linorder) handler" where
  "arm_hdel \<epsilon> rest e = require_args rest 2 ''hdel'' e
     (reply FInteger (hdel \<epsilon> (rest ! 0) (drop 1 rest) e))"

definition field_frames :: "(bytes, bytes) hmap \<Rightarrow> frame list" where
  "field_frames m = concat (map (\<lambda>(f, v). [FBulk f, FBulk v]) m)"

definition arm_hgetall :: "env \<Rightarrow> ('f::linorder) handler" where
  "arm_hgetall \<epsilon> rest e = require_args rest 1 ''hgetall'' e
     (reply (\<lambda>m. FArray (field_frames m)) (hgetall \<epsilon> (rest ! 0) e))"

text \<open>What \<open>HSCAN\<close> and \<open>SSCAN\<close> share: a valid cursor, valid options, then one full page.\<close>

definition scan_args ::
  "bytes list \<Rightarrow> 'e \<Rightarrow> (scan_options \<Rightarrow> (frame \<times> 'e) option) \<Rightarrow> (frame \<times> 'e) option" where
  "scan_args rest e body =
     (if parse_u64_arg (rest ! 1) = None then Some (FError ''ERR invalid cursor'', e)
      else case scan_parse (drop 2 rest) False scan_none of
          Inl err \<Rightarrow> Some (err, e)
        | Inr opts \<Rightarrow> body opts)"

definition arm_hscan :: "env \<Rightarrow> ('f::linorder) handler" where
  "arm_hscan \<epsilon> rest e = require_args rest 2 ''hscan'' e
     (scan_args rest e (\<lambda>opts.
        reply (\<lambda>m. FArray [FBulk ''0'', FArray (field_frames (filter (\<lambda>(f, _). scan_matches opts f) m))])
          (hgetall \<epsilon> (rest ! 0) e)))"

definition arm_hexists :: "env \<Rightarrow> 'f handler" where
  "arm_hexists \<epsilon> rest e = require_args rest 2 ''hexists'' e
     (reply bool_reply (hexists \<epsilon> (rest ! 0) (rest ! 1) e))"

definition arm_hlen :: "env \<Rightarrow> 'f handler" where
  "arm_hlen \<epsilon> rest e = require_args rest 1 ''hlen'' e
     (reply count_reply (hlen \<epsilon> (rest ! 0) e))"

definition arm_hincrby :: "env \<Rightarrow> ('f::linorder) handler" where
  "arm_hincrby \<epsilon> rest e = require_args rest 3 ''hincrby'' e
     (int_arg (rest ! 2) e (\<lambda>delta. reply FInteger (hincrby \<epsilon> (rest ! 0) (rest ! 1) delta e)))"

definition arm_hkeys :: "env \<Rightarrow> ('f::linorder) handler" where
  "arm_hkeys \<epsilon> rest e = require_args rest 1 ''hkeys'' e
     (reply bulks (hkeys \<epsilon> (rest ! 0) e))"

definition arm_hvals :: "env \<Rightarrow> ('f::linorder) handler" where
  "arm_hvals \<epsilon> rest e = require_args rest 1 ''hvals'' e
     (reply bulks (hvals \<epsilon> (rest ! 0) e))"

definition arm_hmget :: "env \<Rightarrow> ('f::linorder) handler" where
  "arm_hmget \<epsilon> rest e = require_args rest 2 ''hmget'' e
     (reply (\<lambda>vals. FArray (map bulk_or_null vals)) (hmget \<epsilon> (rest ! 0) (drop 1 rest) e))"

definition arm_hsetnx :: "env \<Rightarrow> ('f::linorder) handler" where
  "arm_hsetnx \<epsilon> rest e = require_args rest 3 ''hsetnx'' e
     (reply bool_reply (hsetnx \<epsilon> (rest ! 0) (rest ! 1) (rest ! 2) e))"

section \<open>List commands\<close>

definition arm_rpush :: "env \<Rightarrow> ('f::linorder) handler" where
  "arm_rpush \<epsilon> rest e = require_args rest 2 ''rpush'' e
     (reply count_reply (rpush \<epsilon> (rest ! 0) (drop 1 rest) e))"

definition arm_lpush :: "env \<Rightarrow> ('f::linorder) handler" where
  "arm_lpush \<epsilon> rest e = require_args rest 2 ''lpush'' e
     (reply count_reply (lpush \<epsilon> (rest ! 0) (drop 1 rest) e))"

definition arm_rpop :: "env \<Rightarrow> ('f::linorder) handler" where
  "arm_rpop \<epsilon> rest e = require_args rest 1 ''rpop'' e
     (reply bulk_or_null (rpop \<epsilon> (rest ! 0) e))"

definition arm_lpop :: "env \<Rightarrow> ('f::linorder) handler" where
  "arm_lpop \<epsilon> rest e = require_args rest 1 ''lpop'' e
     (reply bulk_or_null (lpop \<epsilon> (rest ! 0) e))"

text \<open>The two directions of a move, or the syntax error.\<close>

definition list_ends ::
  "bytes \<Rightarrow> bytes \<Rightarrow> 'e \<Rightarrow> (list_end \<Rightarrow> list_end \<Rightarrow> (frame \<times> 'e) option) \<Rightarrow> (frame \<times> 'e) option" where
  "list_ends a b e body =
     (case (parse_list_end a, parse_list_end b) of
        (Some src_end, Some dst_end) \<Rightarrow> body src_end dst_end
      | _ \<Rightarrow> Some (err_syntax, e))"

definition arm_lmove :: "env \<Rightarrow> ('f::linorder) handler" where
  "arm_lmove \<epsilon> rest e = require_args rest 4 ''lmove'' e
     (list_ends (rest ! 2) (rest ! 3) e (\<lambda>a b.
        reply bulk_or_null (lmove \<epsilon> (rest ! 0) (rest ! 1) a b e)))"

definition arm_rpoplpush :: "env \<Rightarrow> ('f::linorder) handler" where
  "arm_rpoplpush \<epsilon> rest e = require_args rest 2 ''rpoplpush'' e
     (reply bulk_or_null (lmove \<epsilon> (rest ! 0) (rest ! 1) ListRight ListLeft e))"

definition timeout_arg ::
  "('f::{linorder,zero}) float_ops \<Rightarrow> bytes \<Rightarrow> 'e \<Rightarrow> (frame \<times> 'e) option \<Rightarrow> (frame \<times> 'e) option" where
  "timeout_arg F raw e body =
     (case parse_timeout_secs F raw of Inl err \<Rightarrow> Some (err, e) | Inr _ \<Rightarrow> body)"

definition arm_blmove :: "('f::{linorder,zero}) float_ops \<Rightarrow> env \<Rightarrow> 'f handler" where
  "arm_blmove F \<epsilon> rest e = require_args rest 5 ''blmove'' e
     (timeout_arg F (rest ! 4) e
        (list_ends (rest ! 2) (rest ! 3) e (\<lambda>a b.
           reply bulk_or_null (lmove \<epsilon> (rest ! 0) (rest ! 1) a b e))))"

definition arm_brpoplpush :: "('f::{linorder,zero}) float_ops \<Rightarrow> env \<Rightarrow> 'f handler" where
  "arm_brpoplpush F \<epsilon> rest e = require_args rest 3 ''brpoplpush'' e
     (timeout_arg F (rest ! 2) e
        (reply bulk_or_null (lmove \<epsilon> (rest ! 0) (rest ! 1) ListRight ListLeft e)))"

definition popped_reply :: "(bytes \<times> bytes) option \<Rightarrow> frame" where
  "popped_reply r = (case r of Some (key, val) \<Rightarrow> FArray [FBulk key, FBulk val] | None \<Rightarrow> FNull)"

definition arm_blpop :: "('f::{linorder,zero}) float_ops \<Rightarrow> env \<Rightarrow> 'f handler" where
  "arm_blpop F \<epsilon> rest e = require_args rest 2 ''blpop'' e
     (timeout_arg F (last rest) e
        (reply popped_reply (first_available_pop \<epsilon> (butlast rest) ListLeft e)))"

definition arm_brpop :: "('f::{linorder,zero}) float_ops \<Rightarrow> env \<Rightarrow> 'f handler" where
  "arm_brpop F \<epsilon> rest e = require_args rest 2 ''brpop'' e
     (timeout_arg F (last rest) e
        (reply popped_reply (first_available_pop \<epsilon> (butlast rest) ListRight e)))"

definition arm_llen :: "env \<Rightarrow> 'f handler" where
  "arm_llen \<epsilon> rest e = require_args rest 1 ''llen'' e
     (reply count_reply (llen \<epsilon> (rest ! 0) e))"

definition arm_lrange :: "env \<Rightarrow> ('f::linorder) handler" where
  "arm_lrange \<epsilon> rest e = require_args rest 3 ''lrange'' e
     (range_args (rest ! 1) (rest ! 2) e
        (\<lambda>start stop. reply bulks (lrange \<epsilon> (rest ! 0) start stop e)))"

definition arm_lindex :: "env \<Rightarrow> 'f handler" where
  "arm_lindex \<epsilon> rest e = require_args rest 2 ''lindex'' e
     (int_arg (rest ! 1) e (\<lambda>index. reply bulk_or_null (lindex \<epsilon> (rest ! 0) index e)))"

definition arm_lset :: "env \<Rightarrow> ('f::linorder) handler" where
  "arm_lset \<epsilon> rest e = require_args rest 3 ''lset'' e
     (int_arg (rest ! 1) e (\<lambda>index. reply ok_reply (lset \<epsilon> (rest ! 0) index (rest ! 2) e)))"

definition arm_ltrim :: "env \<Rightarrow> ('f::linorder) handler" where
  "arm_ltrim \<epsilon> rest e = require_args rest 3 ''ltrim'' e
     (range_args (rest ! 1) (rest ! 2) e
        (\<lambda>start stop. reply ok_reply (ltrim \<epsilon> (rest ! 0) start stop e)))"

definition arm_lrem :: "env \<Rightarrow> ('f::linorder) handler" where
  "arm_lrem \<epsilon> rest e = require_args rest 3 ''lrem'' e
     (int_arg (rest ! 1) e (\<lambda>n. reply count_reply (lrem \<epsilon> (rest ! 0) n (rest ! 2) e)))"

definition arm_linsert :: "env \<Rightarrow> ('f::linorder) handler" where
  "arm_linsert \<epsilon> rest e = require_args rest 4 ''linsert'' e
     (let where_arg = ascii_uppercase (utf8_lossy (rest ! 1))
      in if where_arg = ''BEFORE'' then
           reply FInteger (linsert \<epsilon> (rest ! 0) True (rest ! 2) (rest ! 3) e)
         else if where_arg = ''AFTER'' then
           reply FInteger (linsert \<epsilon> (rest ! 0) False (rest ! 2) (rest ! 3) e)
         else Some (err_syntax, e))"

section \<open>Set and sorted-set commands\<close>

definition arm_sadd :: "env \<Rightarrow> ('f::linorder) handler" where
  "arm_sadd \<epsilon> rest e = require_args rest 2 ''sadd'' e
     (reply FInteger (sadd \<epsilon> (rest ! 0) (drop 1 rest) e))"

definition arm_srem :: "env \<Rightarrow> ('f::linorder) handler" where
  "arm_srem \<epsilon> rest e = require_args rest 2 ''srem'' e
     (reply FInteger (srem \<epsilon> (rest ! 0) (drop 1 rest) e))"

definition arm_smembers :: "env \<Rightarrow> ('f::linorder) handler" where
  "arm_smembers \<epsilon> rest e = require_args rest 1 ''smembers'' e
     (reply bulks (smembers \<epsilon> (rest ! 0) e))"

definition arm_sscan :: "env \<Rightarrow> ('f::linorder) handler" where
  "arm_sscan \<epsilon> rest e = require_args rest 2 ''sscan'' e
     (scan_args rest e (\<lambda>opts.
        reply (\<lambda>ms. FArray [FBulk ''0'', bulks (filter (scan_matches opts) ms)])
          (smembers \<epsilon> (rest ! 0) e)))"

definition arm_sismember :: "env \<Rightarrow> 'f handler" where
  "arm_sismember \<epsilon> rest e = require_args rest 2 ''sismember'' e
     (reply bool_reply (sismember \<epsilon> (rest ! 0) (rest ! 1) e))"

definition arm_scard :: "env \<Rightarrow> 'f handler" where
  "arm_scard \<epsilon> rest e = require_args rest 1 ''scard'' e
     (reply count_reply (scard \<epsilon> (rest ! 0) e))"

definition arm_sinter :: "env \<Rightarrow> ('f::linorder) handler" where
  "arm_sinter \<epsilon> rest e = require_args rest 1 ''sinter'' e (reply bulks (sinter \<epsilon> rest e))"

definition arm_sunion :: "env \<Rightarrow> ('f::linorder) handler" where
  "arm_sunion \<epsilon> rest e = require_args rest 1 ''sunion'' e (reply bulks (sunion \<epsilon> rest e))"

definition arm_sdiff :: "env \<Rightarrow> ('f::linorder) handler" where
  "arm_sdiff \<epsilon> rest e = require_args rest 1 ''sdiff'' e (reply bulks (sdiff \<epsilon> rest e))"

definition arm_sinterstore :: "env \<Rightarrow> ('f::linorder) handler" where
  "arm_sinterstore \<epsilon> rest e = require_args rest 2 ''sinterstore'' e
     (reply count_reply (sinterstore \<epsilon> (rest ! 0) (drop 1 rest) e))"

definition arm_sunionstore :: "env \<Rightarrow> ('f::linorder) handler" where
  "arm_sunionstore \<epsilon> rest e = require_args rest 2 ''sunionstore'' e
     (reply count_reply (sunionstore \<epsilon> (rest ! 0) (drop 1 rest) e))"

definition arm_sdiffstore :: "env \<Rightarrow> ('f::linorder) handler" where
  "arm_sdiffstore \<epsilon> rest e = require_args rest 2 ''sdiffstore'' e
     (reply count_reply (sdiffstore \<epsilon> (rest ! 0) (drop 1 rest) e))"

definition arm_spop :: "env \<Rightarrow> ('f::linorder) handler" where
  "arm_spop \<epsilon> rest e = require_args rest 1 ''spop'' e
     (reply bulk_or_null (spop \<epsilon> (rest ! 0) e))"

definition arm_srandmember :: "env \<Rightarrow> ('f::linorder) handler" where
  "arm_srandmember \<epsilon> rest e = require_args rest 1 ''srandmember'' e
     (reply bulk_or_null (srandmember \<epsilon> (rest ! 0) e))"

definition score_arg ::
  "'f float_ops \<Rightarrow> bytes \<Rightarrow> 'e \<Rightarrow> ('f \<Rightarrow> (frame \<times> 'e) option) \<Rightarrow> (frame \<times> 'e) option" where
  "score_arg F raw e body = (case parse_score F raw of Inl err \<Rightarrow> Some (err, e) | Inr x \<Rightarrow> body x)"

definition arm_zadd :: "('f::linorder) float_ops \<Rightarrow> env \<Rightarrow> 'f handler" where
  "arm_zadd F \<epsilon> rest e = require_args rest 3 ''zadd'' e
     (score_arg F (rest ! 1) e (\<lambda>score.
        reply bool_reply (zadd \<epsilon> (rest ! 0) score (rest ! 2) e)))"

definition arm_zscore :: "('f::linorder) float_ops \<Rightarrow> env \<Rightarrow> 'f handler" where
  "arm_zscore F \<epsilon> rest e = require_args rest 2 ''zscore'' e
     (reply (\<lambda>r. bulk_or_null (map_option (format_score F) r)) (zscore \<epsilon> (rest ! 0) (rest ! 1) e))"

definition arm_zrem :: "env \<Rightarrow> ('f::linorder) handler" where
  "arm_zrem \<epsilon> rest e = require_args rest 2 ''zrem'' e
     (reply FInteger (zrem \<epsilon> (rest ! 0) (drop 1 rest) e))"

definition arm_zcard :: "env \<Rightarrow> ('f::linorder) handler" where
  "arm_zcard \<epsilon> rest e = require_args rest 1 ''zcard'' e
     (reply count_reply (zcard \<epsilon> (rest ! 0) e))"

definition arm_zincrby :: "('f::{linorder,plus,zero}) float_ops \<Rightarrow> env \<Rightarrow> 'f handler" where
  "arm_zincrby F \<epsilon> rest e = require_args rest 3 ''zincrby'' e
     (score_arg F (rest ! 1) e (\<lambda>delta.
        reply (\<lambda>score. FBulk (format_score F score)) (zincrby \<epsilon> (rest ! 0) delta (rest ! 2) e)))"

definition arm_zrange :: "env \<Rightarrow> ('f::linorder) handler" where
  "arm_zrange \<epsilon> rest e = require_args rest 3 ''zrange'' e
     (range_args (rest ! 1) (rest ! 2) e
        (\<lambda>start stop. reply bulks (zrange \<epsilon> (rest ! 0) start stop e)))"

definition arm_zrank :: "env \<Rightarrow> ('f::linorder) handler" where
  "arm_zrank \<epsilon> rest e = require_args rest 2 ''zrank'' e
     (reply (\<lambda>r. case r of Some n \<Rightarrow> count_reply n | None \<Rightarrow> FNull) (zrank \<epsilon> (rest ! 0) (rest ! 1) e))"

section \<open>Keyspace commands\<close>

definition arm_rename :: "env \<Rightarrow> ('f::linorder) handler" where
  "arm_rename \<epsilon> rest e = require_args rest 2 ''rename'' e
     (reply ok_reply (rename \<epsilon> (rest ! 0) (rest ! 1) e))"

definition arm_renamenx :: "env \<Rightarrow> ('f::linorder) handler" where
  "arm_renamenx \<epsilon> rest e = require_args rest 2 ''renamenx'' e
     (reply bool_reply (renamenx \<epsilon> (rest ! 0) (rest ! 1) e))"

definition arm_type :: "env \<Rightarrow> ('f::linorder) handler" where
  "arm_type \<epsilon> rest e = require_args rest 1 ''type'' e
     (let (t, e1) = key_type \<epsilon> (rest ! 0) e in Some (FSimple t, e1))"

definition arm_keys :: "env \<Rightarrow> 'f handler" where
  "arm_keys \<epsilon> rest e = require_args rest 1 ''keys'' e
     (Some (bulks (filter (glob_match (rest ! 0)) (engine_keys \<epsilon> e)), e))"

fun filter_type :: "env \<Rightarrow> bytes \<Rightarrow> bytes list \<Rightarrow> 'f::linorder engine \<Rightarrow> bytes list \<times> 'f engine" where
  "filter_type \<epsilon> t [] e = ([], e)"
| "filter_type \<epsilon> t (k # ks) e =
     (let (kt, e1) = key_type \<epsilon> k e; (r, e2) = filter_type \<epsilon> t ks e1
      in (if kt = t then k # r else r, e2))"

definition arm_scan :: "env \<Rightarrow> ('f::linorder) handler" where
  "arm_scan \<epsilon> rest e = require_args rest 1 ''scan'' e
     (case parse_u64_arg (rest ! 0) of
        None \<Rightarrow> Some (FError ''ERR invalid cursor'', e)
      | Some cursor \<Rightarrow>
          (case scan_parse (drop 1 rest) True scan_none of
             Inl err \<Rightarrow> Some (err, e)
           | Inr opts \<Rightarrow>
               (let (next, keys) = engine_scan \<epsilon> cursor e;
                    matching = filter (scan_matches opts) keys;
                    (kept, e1) = (case type_filter opts of
                                    None \<Rightarrow> (matching, e)
                                  | Some t \<Rightarrow> filter_type \<epsilon> t matching e)
                in Some (FArray [FBulk (show_nat next), bulks kept], e1))))"

definition arm_randomkey :: "env \<Rightarrow> 'f handler" where
  "arm_randomkey \<epsilon> rest e = Some (bulk_or_null (randomkey \<epsilon> e), e)"

definition arm_dbsize :: "env \<Rightarrow> 'f handler" where
  "arm_dbsize \<epsilon> rest e = Some (count_reply (fst (engine_key_counts \<epsilon> e)), e)"

definition arm_expire :: "env \<Rightarrow> bytes \<Rightarrow> 'f handler" where
  "arm_expire \<epsilon> name rest e = require_args rest 2 (ascii_lowercase name) e
     (int_arg (rest ! 1) e (\<lambda>n.
        let delta = nat (max n 0) * (if name = ''EXPIRE'' then nanos_per_sec else nanos_per_milli)
        in case instant_add (env_now \<epsilon>) delta of
             None \<Rightarrow> None
           | Some at \<Rightarrow>
               (let (b, e1) = engine_expire_at \<epsilon> (rest ! 0) at e in Some (bool_reply b, e1))))"

definition arm_expireat :: "env \<Rightarrow> bytes \<Rightarrow> 'f handler" where
  "arm_expireat \<epsilon> name rest e = require_args rest 2 (ascii_lowercase name) e
     (int_arg (rest ! 1) e (\<lambda>n.
        let target_unix_ms = (if name = ''EXPIREAT'' then saturating_mul_i64 n 1000 else n);
            (b, e1) = engine_expire_at \<epsilon> (rest ! 0) (instant_from_unix_ms \<epsilon> target_unix_ms) e
        in Some (bool_reply b, e1)))"

definition ttl_reply :: "nat \<Rightarrow> ttl_status \<Rightarrow> frame" where
  "ttl_reply unit_ns st =
     (case st of
        TtlNoSuchKey \<Rightarrow> FInteger (- 2)
      | TtlNoExpiry \<Rightarrow> FInteger (- 1)
      | TtlRemaining d \<Rightarrow> FInteger (int (max (d div unit_ns) 1)))"

definition arm_ttl :: "env \<Rightarrow> 'f handler" where
  "arm_ttl \<epsilon> rest e = require_args rest 1 ''ttl'' e
     (Some (ttl_reply nanos_per_sec (engine_ttl \<epsilon> (rest ! 0) e), e))"

definition arm_pttl :: "env \<Rightarrow> 'f handler" where
  "arm_pttl \<epsilon> rest e = require_args rest 1 ''pttl'' e
     (Some (ttl_reply nanos_per_milli (engine_ttl \<epsilon> (rest ! 0) e), e))"

definition arm_persist :: "env \<Rightarrow> 'f handler" where
  "arm_persist \<epsilon> rest e = require_args rest 1 ''persist'' e
     (let (b, e1) = engine_persist \<epsilon> (rest ! 0) e in Some (bool_reply b, e1))"

section \<open>The command tables\<close>

definition WRITE_COMMANDS :: "bytes list" where
  "WRITE_COMMANDS =
     [''SET'', ''APPEND'', ''SETRANGE'', ''GETSET'', ''MSET'', ''MSETNX'', ''INCR'', ''DECR'',
      ''INCRBY'', ''DEL'', ''EXPIRE'', ''PEXPIRE'', ''EXPIREAT'', ''PEXPIREAT'', ''PERSIST'',
      ''RENAME'', ''RENAMENX'', ''HSET'', ''HDEL'', ''HINCRBY'', ''HSETNX'', ''RPUSH'',
      ''LPUSH'', ''RPOP'', ''LPOP'', ''LSET'', ''LTRIM'', ''LREM'', ''LINSERT'', ''LMOVE'',
      ''RPOPLPUSH'', ''BLMOVE'', ''BRPOPLPUSH'', ''BLPOP'', ''BRPOP'', ''SADD'', ''SREM'',
      ''SPOP'', ''SINTERSTORE'', ''SUNIONSTORE'', ''SDIFFSTORE'', ''ZADD'', ''ZREM'', ''ZINCRBY'']"

definition KNOWN_COMMANDS :: "bytes list" where
  "KNOWN_COMMANDS =
     [''ACL'', ''APPEND'', ''AUTH'', ''BGREWRITEAOF'', ''BLMOVE'', ''BLPOP'', ''BRPOP'',
      ''BRPOPLPUSH'', ''CLIENT'', ''CLUSTER'', ''COMMAND'', ''CONFIG'', ''DBSIZE'', ''DEBUG'',
      ''DECR'', ''DEL'', ''ECHO'', ''EXISTS'', ''EXPIRE'', ''EXPIREAT'', ''GET'', ''GETRANGE'',
      ''GETSET'', ''HDEL'', ''HELLO'', ''HEXISTS'', ''HGET'', ''HGETALL'', ''HINCRBY'',
      ''HKEYS'', ''HLEN'', ''HMGET'', ''HSCAN'', ''HSET'', ''HSETNX'', ''HVALS'', ''INCR'',
      ''INCRBY'', ''INFO'', ''KEYS'', ''LINDEX'', ''LINSERT'', ''LLEN'', ''LMOVE'', ''LPOP'',
      ''LPUSH'', ''LRANGE'', ''LREM'', ''LSET'', ''LTRIM'', ''MEMORY'', ''MGET'', ''MSET'',
      ''MSETNX'', ''OBJECT'', ''PERSIST'', ''PEXPIRE'', ''PEXPIREAT'', ''PING'', ''PSUBSCRIBE'',
      ''PSYNC'', ''PTTL'', ''PUBLISH'', ''PUBSUB'', ''PUNSUBSCRIBE'', ''RANDOMKEY'', ''RENAME'',
      ''RENAMENX'', ''REPLICAOF'', ''RPOP'', ''RPOPLPUSH'', ''RPUSH'', ''SADD'', ''SAVE'',
      ''SCAN'', ''SCARD'', ''SDIFF'', ''SDIFFSTORE'', ''SELECT'', ''SET'', ''SETRANGE'',
      ''SINTER'', ''SINTERSTORE'', ''SISMEMBER'', ''SLOWLOG'', ''SMEMBERS'', ''SPOP'',
      ''SRANDMEMBER'', ''SREM'', ''STRLEN'', ''SUBSCRIBE'', ''SUNION'', ''SUNIONSTORE'', ''TTL'',
      ''TYPE'', ''UNSUBSCRIBE'', ''ZADD'', ''ZCARD'', ''ZINCRBY'', ''ZRANGE'', ''ZRANK'',
      ''ZREM'', ''ZSCORE'']"

text \<open>
  \<open>KNOWN_COMMANDS.binary_search(..).is_ok()\<close>; the lemma below shows that the table is in order, so
  that the search decides membership.
\<close>

definition is_known :: "bytes \<Rightarrow> bool" where
  "is_known name \<longleftrightarrow> name \<in> set KNOWN_COMMANDS"

datatype keyspec = KeysNone | KeysFirst | KeysSecond | KeysAll | KeysEveryOther | KeysFirstTwo
  | KeysAllButLast

definition key_spec :: "bytes \<Rightarrow> keyspec" where
  "key_spec name =
     (if name \<in> set [''PING'', ''ECHO'', ''SELECT'', ''COMMAND'', ''INFO'', ''HELLO'', ''KEYS'', ''SCAN'',
           ''RANDOMKEY'', ''CLUSTER'', ''SAVE'', ''BGREWRITEAOF'', ''REPLICAOF'', ''PSYNC'', ''SLOWLOG'',
           ''DEBUG'', ''AUTH'', ''ACL'', ''DBSIZE'', ''CONFIG'', ''CLIENT'', ''SUBSCRIBE'', ''UNSUBSCRIBE'',
           ''PSUBSCRIBE'', ''PUNSUBSCRIBE'', ''PUBLISH'', ''PUBSUB''] then KeysNone
      else if name \<in> set [''MEMORY'', ''OBJECT''] then KeysSecond
      else if name \<in> set [''DEL'', ''EXISTS'', ''MGET'', ''RENAME'', ''RENAMENX'', ''SINTER'', ''SUNION'',
           ''SDIFF'', ''SINTERSTORE'', ''SUNIONSTORE'', ''SDIFFSTORE''] then KeysAll
      else if name \<in> set [''MSET'', ''MSETNX''] then KeysEveryOther
      else if name \<in> set [''LMOVE'', ''BLMOVE'', ''RPOPLPUSH'', ''BRPOPLPUSH''] then KeysFirstTwo
      else if name \<in> set [''BLPOP'', ''BRPOP''] then KeysAllButLast
      else if is_known name then KeysFirst
      else KeysNone)"

fun every_other :: "'a list \<Rightarrow> 'a list" where
  "every_other (a # b # r) = a # every_other r"
| "every_other r = r"

fun select_keys :: "keyspec \<Rightarrow> bytes list \<Rightarrow> bytes list" where
  "select_keys KeysNone args = []"
| "select_keys KeysFirst args = take 1 args"
| "select_keys KeysSecond args = take 1 (drop 1 args)"
| "select_keys KeysAll args = args"
| "select_keys KeysEveryOther args = every_other args"
| "select_keys KeysFirstTwo args = take 2 args"
| "select_keys KeysAllButLast args = take (length args - 1) args"

fun command_keys :: "frame \<Rightarrow> bytes list" where
  "command_keys (FArray (FBulk name_bytes # items)) =
     (case upper_name name_bytes of
        None \<Rightarrow> []
      | Some name \<Rightarrow> select_keys (key_spec name) (List.map_filter bulk_bytes items))"
| "command_keys _ = []"

fun command_name_upper :: "frame \<Rightarrow> bytes option" where
  "command_name_upper (FArray (FBulk name # _)) = upper_name name"
| "command_name_upper _ = None"

definition extract_write_command_name :: "frame \<Rightarrow> bytes option" where
  "extract_write_command_name frame =
     (case command_name_upper frame of
        Some name \<Rightarrow> if name \<in> set WRITE_COMMANDS then Some name else None
      | None \<Rightarrow> None)"

fun key_positions :: "keyspec \<Rightarrow> int \<times> int \<times> int \<times> int" where
  "key_positions KeysNone = (0, 0, 0, 0)"
| "key_positions KeysFirst = (1, 1, 1, 1)"
| "key_positions KeysSecond = (2, 2, 1, 2)"
| "key_positions KeysAll = (1, - 1, 1, 1)"
| "key_positions KeysEveryOther = (1, - 1, 2, 2)"
| "key_positions KeysFirstTwo = (1, 2, 1, 2)"
| "key_positions KeysAllButLast = (1, - 2, 1, 2)"

definition command_info_entry :: "bytes \<Rightarrow> frame" where
  "command_info_entry name_upper =
     (let (first_key, last_key, step, key_count) = key_positions (key_spec name_upper);
          arity = - (key_count + 1);
          flag = (if name_upper \<in> set WRITE_COMMANDS then ''write'' else ''readonly'')
      in FArray [FBulk (ascii_lowercase name_upper), FInteger arity, FArray [FBulk flag],
                 FInteger first_key, FInteger last_key, FInteger step])"

section \<open>Server commands\<close>

definition arm_ping :: "'f handler" where
  "arm_ping rest e = Some (case rest of msg # _ \<Rightarrow> FBulk msg | [] \<Rightarrow> FSimple ''PONG'', e)"

definition arm_echo :: "'f handler" where
  "arm_echo rest e = require_args rest 1 ''echo'' e (Some (FBulk (rest ! 0), e))"

definition arm_select :: "'f handler" where
  "arm_select rest e = Some (FSimple ''OK'', e)"

definition subcommand_of :: "bytes \<Rightarrow> bytes" where
  "subcommand_of raw = ascii_uppercase (utf8_lossy raw)"

definition arm_command :: "'f handler" where
  "arm_command rest e =
     Some (if rest = [] then FArray (map command_info_entry KNOWN_COMMANDS)
           else let subcommand = subcommand_of (rest ! 0)
                in if subcommand = ''COUNT'' then count_reply (length KNOWN_COMMANDS)
                   else if subcommand = ''INFO'' then
                     (if length rest = 1 then FArray (map command_info_entry KNOWN_COMMANDS)
                      else FArray (map (\<lambda>arg. let name_upper = subcommand_of arg
                                              in if is_known name_upper
                                                 then command_info_entry name_upper else FNull)
                             (drop 1 rest)))
                   else FArray [], e)"

definition arm_memory :: "env \<Rightarrow> ('f::linorder) handler" where
  "arm_memory \<epsilon> rest e = require_args rest 1 ''memory'' e
     (let subcommand = subcommand_of (rest ! 0)
      in if subcommand = ''USAGE'' then
           require_args rest 2 ''memory usage'' e
             (let (n, e1) = engine_with_ref \<epsilon> (rest ! 1) (map_option approx_size) e
              in Some (case n of Some n \<Rightarrow> count_reply n | None \<Rightarrow> FNull, e1))
         else Some (FError (''ERR unknown MEMORY subcommand '' @ QUOTE @ subcommand @ QUOTE), e))"

definition arm_object :: "env \<Rightarrow> 'f handler" where
  "arm_object \<epsilon> rest e = require_args rest 1 ''object'' e
     (let subcommand = subcommand_of (rest ! 0)
      in if subcommand = ''ENCODING'' then
           require_args rest 2 ''object encoding'' e
             (let (n, e1) = engine_with_ref \<epsilon> (rest ! 1) (map_option type_name) e
              in Some (case n of Some n \<Rightarrow> FBulk n | None \<Rightarrow> FError ''ERR no such key'', e1))
         else Some (FError (''ERR unknown OBJECT subcommand '' @ QUOTE @ subcommand @ QUOTE), e))"

text \<open>The sleep itself changes no state; only its checks and replies are modelled.\<close>

definition arm_debug :: "('f::linorder) float_ops \<Rightarrow> 'f handler" where
  "arm_debug F rest e = require_args rest 1 ''debug'' e
     (let subcommand = subcommand_of (rest ! 0)
      in if subcommand = ''SLEEP'' then
           require_args rest 2 ''debug sleep'' e
             (Some (case (if utf8_valid (rest ! 1) then f_parse F (rest ! 1) else None) of
                      None \<Rightarrow> FError ''ERR value is not a valid float''
                    | Some secs \<Rightarrow>
                        if \<not> f_finite F secs then FError ''ERR timeout is not finite''
                        else if secs > f_max_sleep F then
                          FError ''ERR DEBUG SLEEP duration exceeds the 10s maximum allowed on this server''
                        else FSimple ''OK'', e))
         else Some (FError (''ERR unknown DEBUG subcommand '' @ QUOTE @ subcommand @ QUOTE), e))"

section \<open>Dispatch\<close>

text \<open>The arms of the \<open>match\<close> on the command name.\<close>

definition arms :: "('f::{linorder,plus,zero}) float_ops \<Rightarrow> env \<Rightarrow> (bytes \<times> 'f handler) list" where
  "arms F \<epsilon> =
     [(''GET'', arm_get \<epsilon>), (''DEL'', arm_del \<epsilon>), (''EXISTS'', arm_exists \<epsilon>), (''SET'', arm_set \<epsilon>),
      (''APPEND'', arm_append \<epsilon>), (''STRLEN'', arm_strlen \<epsilon>), (''GETRANGE'', arm_getrange \<epsilon>),
      (''SETRANGE'', arm_setrange \<epsilon>), (''INCR'', arm_incr \<epsilon>), (''DECR'', arm_decr \<epsilon>),
      (''HSET'', arm_hset \<epsilon>), (''HGET'', arm_hget \<epsilon>), (''INCRBY'', arm_incrby \<epsilon>),
      (''HDEL'', arm_hdel \<epsilon>), (''HGETALL'', arm_hgetall \<epsilon>), (''HSCAN'', arm_hscan \<epsilon>),
      (''HEXISTS'', arm_hexists \<epsilon>), (''HLEN'', arm_hlen \<epsilon>), (''HINCRBY'', arm_hincrby \<epsilon>),
      (''HKEYS'', arm_hkeys \<epsilon>), (''HVALS'', arm_hvals \<epsilon>), (''HMGET'', arm_hmget \<epsilon>),
      (''HSETNX'', arm_hsetnx \<epsilon>), (''RPUSH'', arm_rpush \<epsilon>), (''LPUSH'', arm_lpush \<epsilon>),
      (''RPOP'', arm_rpop \<epsilon>), (''LPOP'', arm_lpop \<epsilon>), (''LMOVE'', arm_lmove \<epsilon>),
      (''RPOPLPUSH'', arm_rpoplpush \<epsilon>), (''BLMOVE'', arm_blmove F \<epsilon>),
      (''BRPOPLPUSH'', arm_brpoplpush F \<epsilon>), (''BLPOP'', arm_blpop F \<epsilon>), (''BRPOP'', arm_brpop F \<epsilon>),
      (''LLEN'', arm_llen \<epsilon>), (''LRANGE'', arm_lrange \<epsilon>), (''LINDEX'', arm_lindex \<epsilon>),
      (''LSET'', arm_lset \<epsilon>), (''LTRIM'', arm_ltrim \<epsilon>), (''LREM'', arm_lrem \<epsilon>),
      (''LINSERT'', arm_linsert \<epsilon>), (''SADD'', arm_sadd \<epsilon>), (''SREM'', arm_srem \<epsilon>),
      (''SMEMBERS'', arm_smembers \<epsilon>), (''SSCAN'', arm_sscan \<epsilon>), (''SISMEMBER'', arm_sismember \<epsilon>),
      (''SCARD'', arm_scard \<epsilon>), (''SINTER'', arm_sinter \<epsilon>), (''SUNION'', arm_sunion \<epsilon>),
      (''SDIFF'', arm_sdiff \<epsilon>), (''SINTERSTORE'', arm_sinterstore \<epsilon>),
      (''SUNIONSTORE'', arm_sunionstore \<epsilon>), (''SDIFFSTORE'', arm_sdiffstore \<epsilon>),
      (''SPOP'', arm_spop \<epsilon>), (''SRANDMEMBER'', arm_srandmember \<epsilon>), (''GETSET'', arm_getset \<epsilon>),
      (''MSET'', arm_mset \<epsilon>), (''MGET'', arm_mget \<epsilon>), (''MSETNX'', arm_msetnx \<epsilon>),
      (''RENAME'', arm_rename \<epsilon>), (''RENAMENX'', arm_renamenx \<epsilon>), (''TYPE'', arm_type \<epsilon>),
      (''ZADD'', arm_zadd F \<epsilon>), (''ZSCORE'', arm_zscore F \<epsilon>), (''ZREM'', arm_zrem \<epsilon>),
      (''ZCARD'', arm_zcard \<epsilon>), (''ZINCRBY'', arm_zincrby F \<epsilon>), (''ZRANGE'', arm_zrange \<epsilon>),
      (''ZRANK'', arm_zrank \<epsilon>), (''KEYS'', arm_keys \<epsilon>), (''SCAN'', arm_scan \<epsilon>),
      (''RANDOMKEY'', arm_randomkey \<epsilon>), (''DBSIZE'', arm_dbsize \<epsilon>),
      (''EXPIRE'', arm_expire \<epsilon> ''EXPIRE''), (''PEXPIRE'', arm_expire \<epsilon> ''PEXPIRE''),
      (''EXPIREAT'', arm_expireat \<epsilon> ''EXPIREAT''), (''PEXPIREAT'', arm_expireat \<epsilon> ''PEXPIREAT''),
      (''TTL'', arm_ttl \<epsilon>), (''PTTL'', arm_pttl \<epsilon>), (''PERSIST'', arm_persist \<epsilon>),
      (''PING'', arm_ping), (''ECHO'', arm_echo), (''SELECT'', arm_select),
      (''COMMAND'', arm_command), (''MEMORY'', arm_memory \<epsilon>), (''OBJECT'', arm_object \<epsilon>),
      (''DEBUG'', arm_debug F)]"

definition dispatch ::
  "('f::{linorder,plus,zero}) float_ops \<Rightarrow> env \<Rightarrow> frame \<Rightarrow> 'f engine \<Rightarrow> (frame \<times> 'f engine) option" where
  "dispatch F \<epsilon> frame e =
     (case frame_to_args frame of
        Inl err \<Rightarrow> Some (err, e)
      | Inr [] \<Rightarrow> Some (FError ''ERR empty command'', e)
      | Inr (name_bytes # rest) \<Rightarrow>
          (case upper_name name_bytes of
             None \<Rightarrow> Some (FError (''ERR unknown command '' @ QUOTE @ utf8_lossy name_bytes @ QUOTE), e)
           | Some name \<Rightarrow>
               (case map_of (arms F \<epsilon>) name of
                  None \<Rightarrow> Some (FError (''ERR unknown command '' @ QUOTE @ name @ QUOTE), e)
                | Some arm \<Rightarrow> arm rest e)))"

end
