(* ===== verification/Rm_Effects.thy ===== *)
theory Rm_Effects
  imports Rm_Keys Rm_String Rm_List Rm_Hash Rm_Set Rm_ZSet
begin

text \<open>
  What a command may touch. An engine \<open>e'\<close> is \<open>confined\<close> to a set of keys with respect to \<open>e\<close> when
  it keeps the invariant of the engine and every other key has the entry it had, except that an
  engine with a memory ceiling may have evicted it. There is one rule for each operation of the
  engine facade and for each command: from the engine before to the engine after, and a command
  that fails touches nothing.
\<close>

section \<open>Confinement\<close>

named_theorems effects \<open>rules that derive the confinement of the engine an operation leaves\<close>

definition confined :: "env \<Rightarrow> bytes set \<Rightarrow> 'f::linorder engine \<Rightarrow> 'f engine \<Rightarrow> bool" where
  "confined \<epsilon> K e e' \<longleftrightarrow>
     (engine_ok (env_hash \<epsilon>) e \<longrightarrow>
        engine_ok (env_hash \<epsilon>) e'
        \<and> (\<forall>k. k \<notin> K \<longrightarrow> live \<epsilon> e' k = live \<epsilon> e k \<or> live \<epsilon> e' k = None)
        \<and> (maxmemory e = None \<longrightarrow>
             maxmemory e' = None \<and> (\<forall>k. k \<notin> K \<longrightarrow> live \<epsilon> e' k = live \<epsilon> e k)))"

lemma confined_refl [simp, effects]: "confined \<epsilon> K e e"
  by (simp add: confined_def)

lemma confined_trans: "confined \<epsilon> K e e1 \<Longrightarrow> confined \<epsilon> K e1 e2 \<Longrightarrow> confined \<epsilon> K e e2"
  unfolding confined_def by metis

lemma confined_mono: "confined \<epsilon> K e e1 \<Longrightarrow> K \<subseteq> K' \<Longrightarrow> confined \<epsilon> K' e e1"
  unfolding confined_def by (meson subsetD)

lemma confined_ok: "confined \<epsilon> K e e' \<Longrightarrow> engine_ok (env_hash \<epsilon>) e \<Longrightarrow> engine_ok (env_hash \<epsilon>) e'"
  by (simp add: confined_def)

lemma confined_outside:
  assumes "confined \<epsilon> K e e'" and "engine_ok (env_hash \<epsilon>) e" and "k \<notin> K"
  shows "live \<epsilon> e' k = live \<epsilon> e k \<or> live \<epsilon> e' k = None"
    and "maxmemory e = None \<Longrightarrow> live \<epsilon> e' k = live \<epsilon> e k"
  using assms by (simp_all add: confined_def)

lemma confined_unlimited:
  assumes "confined \<epsilon> K e e'" and "unlimited \<epsilon> e"
  shows "unlimited \<epsilon> e'" and "k \<notin> K \<Longrightarrow> live \<epsilon> e' k = live \<epsilon> e k"
  using assms by (auto simp: confined_def unlimited_def)

lemma confined_nothing: "confined \<epsilon> {} e e' \<Longrightarrow> unlimited \<epsilon> e \<Longrightarrow> live \<epsilon> e' = live \<epsilon> e"
  by (rule ext) (simp add: confined_unlimited)

text \<open>An operation that leaves the view below a view that differs only in \<open>K\<close> is confined to \<open>K\<close>.\<close>

lemma confined_le:
  assumes "confined \<epsilon> K e e1"
    and "engine_ok (env_hash \<epsilon>) e1 \<Longrightarrow> engine_ok (env_hash \<epsilon>) e2 \<and> live \<epsilon> e2 \<subseteq>\<^sub>m m"
    and "engine_ok (env_hash \<epsilon>) e1 \<Longrightarrow> maxmemory e1 = None \<Longrightarrow> maxmemory e2 = None \<and> live \<epsilon> e2 = m"
    and "\<And>k. engine_ok (env_hash \<epsilon>) e1 \<Longrightarrow> k \<notin> K \<Longrightarrow> m k = live \<epsilon> e1 k"
  shows "confined \<epsilon> K e e2"
proof -
  have "confined \<epsilon> K e1 e2"
    unfolding confined_def
  proof (intro impI conjI allI)
    assume ok: "engine_ok (env_hash \<epsilon>) e1"
    then show "engine_ok (env_hash \<epsilon>) e2" using assms(2) by simp
    fix k assume "k \<notin> K"
    then have "m k = live \<epsilon> e1 k" using assms(4) [OF ok] by simp
    then show "live \<epsilon> e2 k = live \<epsilon> e1 k \<or> live \<epsilon> e2 k = None"
      using assms(2) [OF ok] map_le_Some [of "live \<epsilon> e2" m k] by (cases "live \<epsilon> e2 k") auto
  qed (use assms(3,4) in auto)
  with assms(1) show ?thesis by (rule confined_trans)
qed

section \<open>The operations of the facade\<close>

lemma confined_reads [effects]:
  assumes "confined \<epsilon> K e e1"
  shows "confined \<epsilon> K e (snd (engine_get \<epsilon> k e1))"
    and "confined \<epsilon> K e (snd (engine_exists \<epsilon> k e1))"
    and "confined \<epsilon> K e (snd (engine_with_ref \<epsilon> k f e1))"
  by (rule confined_le [OF assms, where m = "live \<epsilon> e1"];
      simp add: engine_views engine_ok_reads)+

lemma confined_dels [effects]:
  assumes "confined \<epsilon> K e e1" and "k \<in> K"
  shows "confined \<epsilon> K e (snd (engine_del \<epsilon> k e1))"
    and "confined \<epsilon> K e (snd (engine_persist \<epsilon> k e1))"
    and "confined \<epsilon> K e (snd (engine_expire_at \<epsilon> k at e1))"
proof -
  have other: "k' \<noteq> k" if "k' \<notin> K" for k' using assms(2) that by blast
  show "confined \<epsilon> K e (snd (engine_del \<epsilon> k e1))"
    by (rule confined_le [OF assms(1), where m = "ks_del k (live \<epsilon> e1)"])
      (simp_all add: engine_views engine_ok_reads ks_del_def other)
  show "confined \<epsilon> K e (snd (engine_persist \<epsilon> k e1))"
    by (rule confined_le [OF assms(1), where m = "ks_persist k (live \<epsilon> e1)"])
      (simp_all add: engine_views engine_ok_reads ks_persist_def other split: option.split)
  have "prune (env_now \<epsilon>) (ks_expire_at k at (live \<epsilon> e1)) k' = live \<epsilon> e1 k'" if "k' \<noteq> k" for k'
    using that fun_cong [OF live_pruned [of \<epsilon> e1], of k']
    by (auto simp: prune_def ks_expire_at_def split: option.splits)
  then show "confined \<epsilon> K e (snd (engine_expire_at \<epsilon> k at e1))"
    by (intro confined_le [OF assms(1),
          where m = "prune (env_now \<epsilon>) (ks_expire_at k at (live \<epsilon> e1))"])
      (simp_all add: engine_views engine_ok_reads other)
qed

lemma confined_set [effects]:
  assumes "confined \<epsilon> K e e1" and "k \<in> K" and "engine_ok (env_hash \<epsilon>) e1 \<Longrightarrow> value_ok v"
  shows "confined \<epsilon> K e (engine_set \<epsilon> k v e1)"
proof (rule confined_le [OF assms(1), where m = "ks_set k v (live \<epsilon> e1)"])
  fix k' assume "k' \<notin> K"
  with assms(2) show "ks_set k v (live \<epsilon> e1) k' = live \<epsilon> e1 k'" by (auto simp: ks_set_def)
qed (simp_all add: engine_ok_writes engine_view_writes_le engine_view_set assms(3))

lemma confined_mut_le:
  assumes "confined \<epsilon> K e e1" and "delta_exact (\<lambda>v. snd (g v))"
    and "\<And>k'. engine_ok (env_hash \<epsilon>) e1 \<Longrightarrow> k' \<notin> K \<Longrightarrow>
      ks_mutate k (\<lambda>v. snd (snd (g v))) (live \<epsilon> e1) k' = live \<epsilon> e1 k'"
  shows "confined \<epsilon> K e (snd (engine_with_mut_delta \<epsilon> k g none e1))"
  by (rule confined_le [OF assms(1), where m = "ks_mutate k (\<lambda>v. snd (snd (g v))) (live \<epsilon> e1)"])
    (simp_all add: engine_ok_writes engine_view_writes_le engine_view_with_mut_delta assms(2,3))

text \<open>
  A closure that fails leaves the value as it is. A mutation that fails is then confined to any
  set of keys.
\<close>

definition rejects :: "('f kvalue \<Rightarrow> (engine_error + 'r) \<times> int \<times> 'f kvalue) \<Rightarrow> bool" where
  "rejects g \<longleftrightarrow> (\<forall>v. isl (fst (g v)) \<longrightarrow> snd (snd (g v)) = v)"

lemma confined_mut [effects]:
  assumes "confined \<epsilon> K e e1" and "delta_exact (\<lambda>v. snd (g v))" and "rejects g"
    and "\<not> isl (fst (engine_with_mut_delta \<epsilon> k g none e1)) \<Longrightarrow> k \<in> K"
  shows "confined \<epsilon> K e (snd (engine_with_mut_delta \<epsilon> k g none e1))"
proof (rule confined_mut_le [OF assms(1,2)])
  fix k' assume ok: "engine_ok (env_hash \<epsilon>) e1" and k': "k' \<notin> K"
  show "ks_mutate k (\<lambda>v. snd (snd (g v))) (live \<epsilon> e1) k' = live \<epsilon> e1 k'"
  proof (cases "k' = k \<and> live \<epsilon> e1 k \<noteq> None")
    case True
    then obtain v x where v: "live \<epsilon> e1 k = Some (v, x)" by auto
    with True k' assms(4) have "isl (fst (g v))" by (auto simp: engine_results)
    then have "snd (snd (g v)) = v" using assms(3) by (simp add: rejects_def)
    moreover have "value_ok v" using engine_view_value_ok [OF ok v] .
    ultimately show ?thesis using True v by (simp add: ks_mutate_def value_ok_def)
  qed (auto simp: ks_mutate_def split: option.split)
qed

lemma isl_upsert:
  "isl (fst (upsert \<epsilon> key f created fresh e)) \<longleftrightarrow>
   isl (fst (engine_with_mut_delta \<epsilon> key f (Inr None) e))"
  by (simp add: upsert_def Let_def split_def split: sum.split option.split)

lemma confined_upsert [effects]:
  assumes "confined \<epsilon> K e e1" and "delta_exact (\<lambda>v. snd (f v))" and "rejects f"
    and "pred_option value_ok fresh"
    and "\<not> isl (fst (upsert \<epsilon> key f created fresh e1)) \<Longrightarrow> key \<in> K"
  shows "confined \<epsilon> K e (snd (upsert \<epsilon> key f created fresh e1))"
proof -
  have 1: "confined \<epsilon> K e (snd (engine_with_mut_delta \<epsilon> key f (Inr None) e1))"
    using assms(5) by (intro confined_mut assms(1-3)) (simp add: isl_upsert)
  show ?thesis
  proof (cases "isl (fst (upsert \<epsilon> key f created fresh e1))")
    case True
    then show ?thesis
      using 1 by (simp add: upsert_def Let_def split_def split: sum.splits option.splits)
  next
    case False
    then show ?thesis
      using 1 assms(4,5)
      by (auto simp: upsert_def Let_def split_def intro!: confined_set
          split: sum.splits option.splits)
  qed
qed

section \<open>The commands\<close>

lemma rejectsI: "(\<And>v. isl (fst (g v)) \<Longrightarrow> snd (snd (g v)) = v) \<Longrightarrow> rejects g"
  by (simp add: rejects_def)

lemma string_rejects [simp]: "rejects (append_mut s)" "rejects (incr_mut d)"
  by (rule rejectsI, case_tac v; auto simp: Let_def split: option.splits)+

lemma list_rejects [simp]:
  "rejects (rpush_mut vals)" "rejects (lpush_mut vals)" "rejects (pop_mut fin)"
  "rejects (lset_mut i b)" "rejects (ltrim_mut i j)" "rejects (lrem_mut n b)"
  "rejects (push_one_mut fin b)" "rejects (linsert_mut bf b c)"
  by (rule rejectsI, case_tac v; auto simp: Let_def split_def split: option.splits if_splits)+

lemma hash_rejects [simp]:
  "rejects (hset_mut f b)" "rejects (hdel_mut fs)" "rejects (hincrby_mut f d)" "rejects (hsetnx_mut f b)"
  by (rule rejectsI, case_tac v; auto simp: Let_def split_def split: option.splits if_splits)+

lemma set_rejects [simp]: "rejects (sadd_mut ms)" "rejects (srem_mut ms)" "rejects (spop_mut \<epsilon>)"
  by (rule rejectsI, case_tac v; auto simp: sadd_mut.simps srem_mut.simps Let_def split_def split: option.splits)+

lemma zset_rejects [simp]: "rejects (zadd_mut x m)" "rejects (zrem_mut ms)"
  by (rule rejectsI, case_tac v; auto simp: zrem_mut.simps Let_def split_def split: option.splits)+

lemma zincrby_rejects [simp]: "rejects (zincrby_mut x m)"
  by (rule rejectsI, case_tac v; auto simp: Let_def split_def split: option.splits)

subsection \<open>Strings\<close>

lemma confined_string_reads [effects]:
  assumes "confined \<epsilon> K e e1"
  shows "confined \<epsilon> K e (snd (string_get \<epsilon> key e1))"
    and "confined \<epsilon> K e (snd (strlen_cmd \<epsilon> key e1))"
    and "confined \<epsilon> K e (snd (getrange \<epsilon> key i j e1))"
  using assms
  by (simp_all add: string_get_def strlen_cmd_def getrange_def Let_def split_def effects)

lemma confined_mget [effects]: "confined \<epsilon> K e e1 \<Longrightarrow> confined \<epsilon> K e (snd (mget_cmd \<epsilon> keys e1))"
  by (induction keys arbitrary: e1) (simp_all add: Let_def split_def effects)

lemma confined_any_exists [effects]:
  "confined \<epsilon> K e e1 \<Longrightarrow> confined \<epsilon> K e (snd (any_exists \<epsilon> keys e1))"
  by (induction keys arbitrary: e1) (simp_all add: Let_def split_def effects)

lemma confined_string_writes [effects]:
  assumes "confined \<epsilon> K e e1"
  shows "(\<not> isl (fst (append_cmd \<epsilon> key b e1)) \<Longrightarrow> key \<in> K) \<Longrightarrow>
      confined \<epsilon> K e (snd (append_cmd \<epsilon> key b e1))"
    and "(\<not> isl (fst (incr_by \<epsilon> key d e1)) \<Longrightarrow> key \<in> K) \<Longrightarrow>
      confined \<epsilon> K e (snd (incr_by \<epsilon> key d e1))"
  using assms by (simp_all add: append_cmd_def incr_by_def confined_upsert)

lemma confined_getset [effects]:
  assumes "confined \<epsilon> K e e1" and "\<not> isl (fst (getset \<epsilon> key b e1)) \<Longrightarrow> key \<in> K"
  shows "confined \<epsilon> K e (snd (getset \<epsilon> key b e1))"
  using assms by (auto simp: getset_def Let_def split_def intro!: effects split: sum.splits)

lemma confined_set_nx_xx [effects]:
  assumes "confined \<epsilon> K e e1" and "key \<in> K"
  shows "confined \<epsilon> K e (snd (set_nx \<epsilon> key b e1))" and "confined \<epsilon> K e (snd (set_xx \<epsilon> key b e1))"
  using assms by (simp_all add: set_nx_def set_xx_def Let_def split_def effects)

lemma confined_mset [effects]:
  "confined \<epsilon> K e e1 \<Longrightarrow> fst ` set pairs \<subseteq> K \<Longrightarrow> confined \<epsilon> K e (mset_cmd \<epsilon> pairs e1)"
  by (induction pairs arbitrary: e1) (auto simp: effects)

lemma confined_msetnx [effects]:
  "confined \<epsilon> K e e1 \<Longrightarrow> fst ` set pairs \<subseteq> K \<Longrightarrow> confined \<epsilon> K e (snd (msetnx \<epsilon> pairs e1))"
  by (simp add: msetnx_def Let_def split_def effects)

text \<open>\<open>SETRANGE\<close> may panic; its closure then leaves the value as it is.\<close>

lemma setrange_mut_rejects:
  "fst (setrange_mut n b v) = None \<or> fst (setrange_mut n b v) = Some (Inl err) \<Longrightarrow>
   snd (snd (setrange_mut n b v)) = v"
  by (cases v) (auto simp: Let_def split: if_splits)

lemma confined_setrange [effects]:
  assumes "confined \<epsilon> K e e1"
    and "(\<And>err. fst (setrange \<epsilon> key n b e1) \<noteq> Some (Inl err)) \<Longrightarrow> key \<in> K"
  shows "confined \<epsilon> K e (snd (setrange \<epsilon> key n b e1))"
proof (cases "b = []")
  case True
  with assms(1) show ?thesis by (simp add: setrange_def Let_def split_def effects)
next
  case False
  let ?m = "engine_with_mut_delta \<epsilon> key (setrange_mut n b) (Some (Inr None)) e1"
  have "confined \<epsilon> K e (snd ?m)"
  proof (rule confined_mut_le [OF assms(1)])
    fix k' assume ok: "engine_ok (env_hash \<epsilon>) e1" and k': "k' \<notin> K"
    show "ks_mutate key (\<lambda>v. snd (snd (setrange_mut n b v))) (live \<epsilon> e1) k' = live \<epsilon> e1 k'"
    proof (cases "k' = key \<and> live \<epsilon> e1 key \<noteq> None")
      case True
      then obtain v x where v: "live \<epsilon> e1 key = Some (v, x)" by auto
      from True k' assms(2) obtain err where "fst (setrange \<epsilon> key n b e1) = Some (Inl err)" by blast
      then have "fst (setrange_mut n b v) = Some (Inl err)"
        using False v
        by (auto simp: setrange_def Let_def split_def engine_results split: option.splits sum.splits if_splits)
      then have "snd (snd (setrange_mut n b v)) = v" using setrange_mut_rejects by blast
      moreover have "value_ok v" using engine_view_value_ok [OF ok v] .
      ultimately show ?thesis using True v by (simp add: ks_mutate_def value_ok_def)
    qed (auto simp: ks_mutate_def split: option.split)
  qed simp
  with assms(2) False show ?thesis
    by (auto simp: setrange_def Let_def split_def intro!: effects split: option.splits sum.splits)
qed

subsection \<open>Lists\<close>

lemma confined_list_reads [effects]:
  assumes "confined \<epsilon> K e e1"
  shows "confined \<epsilon> K e (snd (llen \<epsilon> key e1))"
    and "confined \<epsilon> K e (snd (lrange \<epsilon> key i j e1))"
    and "confined \<epsilon> K e (snd (lindex \<epsilon> key i e1))"
  using assms by (simp_all add: llen_def lrange_def lindex_def effects)

lemma confined_pushes [effects]:
  assumes "confined \<epsilon> K e e1"
  shows "(\<not> isl (fst (rpush \<epsilon> key vals e1)) \<Longrightarrow> key \<in> K) \<Longrightarrow>
      confined \<epsilon> K e (snd (rpush \<epsilon> key vals e1))"
    and "(\<not> isl (fst (lpush \<epsilon> key vals e1)) \<Longrightarrow> key \<in> K) \<Longrightarrow>
      confined \<epsilon> K e (snd (lpush \<epsilon> key vals e1))"
  unfolding rpush_def lpush_def Let_def
  by (intro confined_upsert assms; simp add: push_front_all_eq)+

lemma confined_list_writes [effects]:
  assumes "confined \<epsilon> K e e1"
  shows "(\<not> isl (fst (rpop \<epsilon> key e1)) \<Longrightarrow> key \<in> K) \<Longrightarrow> confined \<epsilon> K e (snd (rpop \<epsilon> key e1))"
    and "(\<not> isl (fst (lpop \<epsilon> key e1)) \<Longrightarrow> key \<in> K) \<Longrightarrow> confined \<epsilon> K e (snd (lpop \<epsilon> key e1))"
    and "(\<not> isl (fst (lset \<epsilon> key i b e1)) \<Longrightarrow> key \<in> K) \<Longrightarrow>
      confined \<epsilon> K e (snd (lset \<epsilon> key i b e1))"
    and "(\<not> isl (fst (ltrim \<epsilon> key i j e1)) \<Longrightarrow> key \<in> K) \<Longrightarrow>
      confined \<epsilon> K e (snd (ltrim \<epsilon> key i j e1))"
    and "(\<not> isl (fst (lrem \<epsilon> key n b e1)) \<Longrightarrow> key \<in> K) \<Longrightarrow>
      confined \<epsilon> K e (snd (lrem \<epsilon> key n b e1))"
    and "(\<not> isl (fst (linsert \<epsilon> key bf b c e1)) \<Longrightarrow> key \<in> K) \<Longrightarrow>
      confined \<epsilon> K e (snd (linsert \<epsilon> key bf b c e1))"
  unfolding rpop_def lpop_def lset_def ltrim_def lrem_def linsert_def
  by (intro confined_mut assms; simp)+

text \<open>
  A move whose destination is missing or a list cannot fail to push: popping from the source leaves
  the destination missing or a list. A failed move therefore touches nothing.
\<close>

definition listy :: "'f keyspace \<Rightarrow> bytes \<Rightarrow> bool" where
  "listy m k \<longleftrightarrow> (case m k of None \<Rightarrow> True | Some (v, _) \<Rightarrow> \<exists>l. v = VList l)"

lemma push_one_isl: "isl (fst (push_one \<epsilon> key fin b e)) \<longleftrightarrow> \<not> listy (live \<epsilon> e) key"
proof (cases "live \<epsilon> e key")
  case None
  then show ?thesis by (simp add: push_one_def listy_def engine_results Let_def split_def)
next
  case (Some p)
  then show ?thesis
    by (cases p; cases "fst p")
      (auto simp: push_one_def listy_def engine_results Let_def split_def)
qed

lemma confined_push_one:
  assumes "confined \<epsilon> K e e1" and "key \<in> K"
  shows "confined \<epsilon> K e (snd (push_one \<epsilon> key fin b e1))"
  using assms by (auto simp: push_one_def Let_def split_def intro!: effects split: sum.split)

lemma pop_keeps_listy:
  assumes "engine_ok (env_hash \<epsilon>) e" and "listy (live \<epsilon> e) dst"
    and "fst (engine_with_mut_delta \<epsilon> src (pop_mut fin) (Inr None) e) = Inr (Some b)"
  shows "listy (live \<epsilon> (snd (engine_with_mut_delta \<epsilon> src (pop_mut fin) (Inr None) e))) dst"
proof -
  let ?e' = "snd (engine_with_mut_delta \<epsilon> src (pop_mut fin) (Inr None) e)"
  have le: "live \<epsilon> ?e' \<subseteq>\<^sub>m ks_mutate src (\<lambda>v. snd (snd (pop_mut fin v))) (live \<epsilon> e)"
    by (rule engine_view_writes_le(2) [OF assms(1)]) simp
  obtain v x where v: "live \<epsilon> e src = Some (v, x)" "fst (pop_mut fin v) = Inr (Some b)"
    using assms(3) by (auto simp: engine_results split: option.splits)
  then obtain l where "v = VList l" by (cases v) auto
  with v have "listy (ks_mutate src (\<lambda>v. snd (snd (pop_mut fin v))) (live \<epsilon> e)) dst"
    using assms(2) by (auto simp: listy_def ks_mutate_def Let_def split_def)
  with le show ?thesis
    by (auto simp: listy_def dest: map_le_Some split: option.splits)
qed

lemma lmove_isl:
  assumes "engine_ok (env_hash \<epsilon>) e" and "isl (fst (lmove \<epsilon> src dst a b e))"
  shows "confined \<epsilon> {} e (snd (lmove \<epsilon> src dst a b e))"
proof -
  define ref where "ref = engine_with_ref \<epsilon> dst
    (\<lambda>v. case v of None \<Rightarrow> True | Some (VList _) \<Rightarrow> True | Some _ \<Rightarrow> False) e"
  define pop where "pop = engine_with_mut_delta \<epsilon> src (pop_mut a) (Inr None) (snd ref)"
  have ref: "confined \<epsilon> {} e (snd ref)" "live \<epsilon> (snd ref) = live \<epsilon> e"
    "fst ref \<longleftrightarrow> listy (live \<epsilon> e) dst"
    using assms(1)
    by (auto simp: ref_def engine_views engine_results listy_def intro!: effects
        split: option.split kvalue.splits)
  have unfold: "lmove \<epsilon> src dst a b e =
    (if \<not> fst ref then (Inl WrongType, snd ref)
     else case fst pop of
         Inl err \<Rightarrow> (Inl err, snd pop)
       | Inr None \<Rightarrow> (Inr None, snd pop)
       | Inr (Some val) \<Rightarrow>
           (case fst (push_one \<epsilon> dst b val (snd pop)) of
              Inl err \<Rightarrow> (Inl err, snd (push_one \<epsilon> src a val (snd (push_one \<epsilon> dst b val (snd pop)))))
            | Inr _ \<Rightarrow> (Inr (Some val), snd (push_one \<epsilon> dst b val (snd pop)))))"
    unfolding lmove_def ref_def pop_def Let_def split_def by (rule refl)
  have "\<not> isl (fst (push_one \<epsilon> dst b val (snd pop)))" if "fst ref" "fst pop = Inr (Some val)" for val
    unfolding push_one_isl not_not pop_def
    using that ref by (intro pop_keeps_listy) (auto simp: pop_def confined_ok [OF ref(1) assms(1)])
  moreover have "confined \<epsilon> {} e (snd pop)" if "isl (fst pop)"
    using that ref(1) unfolding pop_def by (intro confined_mut) auto
  ultimately show ?thesis
    using assms(2) ref(1) unfolding unfold
    by (auto split: if_splits sum.splits option.splits simp: isl_def)
qed

lemma confined_lmove [effects]:
  assumes "confined \<epsilon> K e e1" and "\<not> isl (fst (lmove \<epsilon> src dst a b e1)) \<Longrightarrow> src \<in> K \<and> dst \<in> K"
  shows "confined \<epsilon> K e (snd (lmove \<epsilon> src dst a b e1))"
proof (cases "isl (fst (lmove \<epsilon> src dst a b e1))")
  case True
  have "confined \<epsilon> {} e1 (snd (lmove \<epsilon> src dst a b e1))"
    using lmove_isl [OF _ True] by (auto simp: confined_def)
  then show ?thesis
    using assms(1) by (blast intro: confined_trans confined_mono)
next
  case False
  then have "src \<in> K" "dst \<in> K" using assms(2) by auto
  with assms(1) show ?thesis
    by (auto simp: lmove_def Let_def split_def intro!: effects confined_push_one
        split: sum.split option.split)
qed

subsection \<open>Hashes\<close>

lemma confined_hash_reads [effects]:
  assumes "confined \<epsilon> K e e1"
  shows "confined \<epsilon> K e (snd (hget \<epsilon> key f e1))"
    and "confined \<epsilon> K e (snd (hgetall \<epsilon> key e1))"
    and "confined \<epsilon> K e (snd (hexists \<epsilon> key f e1))"
    and "confined \<epsilon> K e (snd (hlen \<epsilon> key e1))"
    and "confined \<epsilon> K e (snd (hkeys \<epsilon> key e1))"
    and "confined \<epsilon> K e (snd (hvals \<epsilon> key e1))"
    and "confined \<epsilon> K e (snd (hmget \<epsilon> key fs e1))"
  using assms
  by (simp_all add: hget_def hgetall_def hexists_def hlen_def hkeys_def hvals_def hmget_def
      Let_def split_def effects)

lemma confined_hash_writes [effects]:
  assumes "confined \<epsilon> K e e1"
  shows "(\<not> isl (fst (hset \<epsilon> key f b e1)) \<Longrightarrow> key \<in> K) \<Longrightarrow>
      confined \<epsilon> K e (snd (hset \<epsilon> key f b e1))"
    and "(\<not> isl (fst (hdel \<epsilon> key fs e1)) \<Longrightarrow> key \<in> K) \<Longrightarrow>
      confined \<epsilon> K e (snd (hdel \<epsilon> key fs e1))"
    and "(\<not> isl (fst (hincrby \<epsilon> key f d e1)) \<Longrightarrow> key \<in> K) \<Longrightarrow>
      confined \<epsilon> K e (snd (hincrby \<epsilon> key f d e1))"
    and "(\<not> isl (fst (hsetnx \<epsilon> key f b e1)) \<Longrightarrow> key \<in> K) \<Longrightarrow>
      confined \<epsilon> K e (snd (hsetnx \<epsilon> key f b e1))"
  unfolding hset_def hdel_def hincrby_def hsetnx_def
  by (intro confined_upsert confined_mut assms; simp)+

text \<open>\<open>HSET\<close> fails exactly on a value of another type, and leaves a hash or, evicted, nothing.\<close>

definition hashy :: "'f keyspace \<Rightarrow> bytes \<Rightarrow> bool" where
  "hashy m k \<longleftrightarrow> (case m k of None \<Rightarrow> True | Some (v, _) \<Rightarrow> \<exists>h. v = VHash h)"

lemma hset_isl: "isl (fst (hset \<epsilon> key f b e)) \<longleftrightarrow> \<not> hashy (live \<epsilon> e) key"
proof (cases "live \<epsilon> e key")
  case None
  then show ?thesis by (simp add: hset_def isl_upsert hashy_def engine_results)
next
  case (Some p)
  then show ?thesis
    by (cases p; cases "fst p") (auto simp: hset_def isl_upsert hashy_def engine_results Let_def)
qed

lemma hset_keeps_hashy:
  assumes "engine_ok (env_hash \<epsilon>) e" and "hashy (live \<epsilon> e) key"
  shows "hashy (live \<epsilon> (snd (hset \<epsilon> key f b e))) key"
proof -
  let ?m = "engine_with_mut_delta \<epsilon> key (hset_mut f b) (Inr None) e"
  have ok: "engine_ok (env_hash \<epsilon>) (snd ?m)"
    by (rule engine_ok_writes(2) [OF assms(1)]) simp
  have le: "live \<epsilon> (snd ?m) \<subseteq>\<^sub>m ks_mutate key (\<lambda>v. snd (snd (hset_mut f b v))) (live \<epsilon> e)"
    by (rule engine_view_writes_le(2) [OF assms(1)]) simp
  have "hashy (ks_mutate key (\<lambda>v. snd (snd (hset_mut f b v))) (live \<epsilon> e)) key"
    using assms(2) by (auto simp: hashy_def ks_mutate_def Let_def split: option.splits)
  with le have 1: "hashy (live \<epsilon> (snd ?m)) key"
    by (auto simp: hashy_def dest: map_le_Some split: option.splits)
  have set_le: "live \<epsilon> (engine_set \<epsilon> key (VHash [(f, b)]) (snd ?m)) \<subseteq>\<^sub>m
      ks_set key (VHash [(f, b)]) (live \<epsilon> (snd ?m))"
    by (rule engine_view_writes_le(1) [OF ok]) simp
  have 2: "hashy (live \<epsilon> (engine_set \<epsilon> key (VHash [(f, b)]) (snd ?m))) key"
    using map_le_Some [OF set_le, of key] by (auto simp: hashy_def ks_set_def split: option.splits)
  show ?thesis
    using 1 2 by (auto simp: hset_def upsert_def Let_def split_def split: sum.splits option.splits)
qed

subsection \<open>Sets\<close>

lemma confined_get_set [effects]: "confined \<epsilon> K e e1 \<Longrightarrow> confined \<epsilon> K e (snd (get_set \<epsilon> key e1))"
  by (simp add: get_set_def Let_def split_def effects)

lemma confined_get_sets [effects]:
  "confined \<epsilon> K e e1 \<Longrightarrow> confined \<epsilon> K e (snd (get_sets \<epsilon> keys e1))"
  by (induction keys arbitrary: e1) (auto simp: Let_def split_def effects split: sum.split)

lemma confined_union_diff_loops [effects]:
  "confined \<epsilon> K e e1 \<Longrightarrow> confined \<epsilon> K e (snd (sunion_loop \<epsilon> keys acc e1))"
  "confined \<epsilon> K e e1 \<Longrightarrow> confined \<epsilon> K e (snd (sdiff_loop \<epsilon> keys acc e1))"
  by (induction keys arbitrary: e1 acc) (auto simp: Let_def split_def effects split: sum.split)

lemma confined_set_reads [effects]:
  assumes "confined \<epsilon> K e e1"
  shows "confined \<epsilon> K e (snd (smembers \<epsilon> key e1))"
    and "confined \<epsilon> K e (snd (sismember \<epsilon> key m e1))"
    and "confined \<epsilon> K e (snd (scard \<epsilon> key e1))"
    and "confined \<epsilon> K e (snd (sinter \<epsilon> keys e1))"
    and "confined \<epsilon> K e (snd (sunion \<epsilon> keys e1))"
    and "confined \<epsilon> K e (snd (srandmember \<epsilon> key e1))"
  using assms
  by (simp_all add: smembers_def sismember_def scard_def sinter_def sunion_def srandmember_def
      Let_def split_def effects)

lemma confined_sdiff [effects]: "confined \<epsilon> K e e1 \<Longrightarrow> confined \<epsilon> K e (snd (sdiff \<epsilon> keys e1))"
  by (cases keys) (auto simp: Let_def split_def effects split: sum.split)

lemma confined_set_writes [effects]:
  assumes "confined \<epsilon> K e e1"
  shows "(\<not> isl (fst (sadd \<epsilon> key ms e1)) \<Longrightarrow> key \<in> K) \<Longrightarrow> confined \<epsilon> K e (snd (sadd \<epsilon> key ms e1))"
    and "(\<not> isl (fst (srem \<epsilon> key ms e1)) \<Longrightarrow> key \<in> K) \<Longrightarrow> confined \<epsilon> K e (snd (srem \<epsilon> key ms e1))"
    and "rand_in_range \<epsilon> \<Longrightarrow> (\<not> isl (fst (spop \<epsilon> key e1)) \<Longrightarrow> key \<in> K) \<Longrightarrow>
      confined \<epsilon> K e (snd (spop \<epsilon> key e1))"
proof -
  have "hs_extend [] ms \<noteq> []" if "ms \<noteq> []"
    using set_hs_extend [of "[]" ms] that by fastforce
  then show "(\<not> isl (fst (sadd \<epsilon> key ms e1)) \<Longrightarrow> key \<in> K) \<Longrightarrow>
      confined \<epsilon> K e (snd (sadd \<epsilon> key ms e1))"
    unfolding sadd_def Let_def
    by (cases "ms = []") (auto intro!: confined_upsert assms)
qed (auto simp: srem_def spop_def intro!: confined_mut assms)

text \<open>What a multi-key read returns has no duplicates, so that it may be stored.\<close>

lemma get_set_distinct:
  assumes "engine_ok (env_hash \<epsilon>) e" and "fst (get_set \<epsilon> key e) = Inr s"
  shows "distinct s"
proof (cases "live \<epsilon> e key")
  case None
  with assms(2) show ?thesis by (simp add: get_set_def Let_def split_def engine_results)
next
  case (Some p)
  obtain v x where p: "p = (v, x)" by (cases p)
  with engine_view_value_ok [OF assms(1), of "env_now \<epsilon>" key v x] Some assms(2) show ?thesis
    by (cases v) (auto simp: get_set_def Let_def split_def engine_results)
qed

lemma get_set_ok: "engine_ok (env_hash \<epsilon>) e \<Longrightarrow> engine_ok (env_hash \<epsilon>) (snd (get_set \<epsilon> key e))"
  using confined_ok [OF confined_get_set [OF confined_refl]] .

lemma get_sets_distinct:
  "engine_ok (env_hash \<epsilon>) e \<Longrightarrow> fst (get_sets \<epsilon> keys e) = Inr ss \<Longrightarrow> list_all distinct ss"
proof (induction keys arbitrary: e ss)
  case (Cons k keys)
  with get_set_ok [OF Cons.prems(1), of k] get_set_distinct [OF Cons.prems(1), of k] show ?case
    by (auto simp: Let_def split_def map_sum_def split: sum.splits)
qed simp

lemma sunion_loop_distinct:
  "engine_ok (env_hash \<epsilon>) e \<Longrightarrow> distinct acc \<Longrightarrow> fst (sunion_loop \<epsilon> keys acc e) = Inr s \<Longrightarrow> distinct s"
proof (induction keys arbitrary: e acc)
  case (Cons k keys)
  from Cons.prems(3) obtain r where
      "fst (sunion_loop \<epsilon> keys (hs_extend acc r) (snd (get_set \<epsilon> k e))) = Inr s"
    by (auto simp: Let_def split_def split: sum.splits)
  with Cons.prems(2) show ?case by (intro Cons.IH [OF get_set_ok [OF Cons.prems(1)]]) simp_all
qed simp

lemma sdiff_loop_distinct:
  "engine_ok (env_hash \<epsilon>) e \<Longrightarrow> distinct acc \<Longrightarrow> fst (sdiff_loop \<epsilon> keys acc e) = Inr s \<Longrightarrow> distinct s"
proof (induction keys arbitrary: e acc)
  case (Cons k keys)
  from Cons.prems(3) obtain r where
      "fst (sdiff_loop \<epsilon> keys (filter (\<lambda>m. m \<notin> set r) acc) (snd (get_set \<epsilon> k e))) = Inr s"
    by (auto simp: Let_def split_def split: sum.splits)
  with Cons.prems(2) show ?case by (intro Cons.IH [OF get_set_ok [OF Cons.prems(1)]]) simp_all
qed simp

lemma set_algebra_distinct:
  assumes "engine_ok (env_hash \<epsilon>) e"
  shows "fst (sinter \<epsilon> keys e) = Inr s \<Longrightarrow> distinct s"
    and "fst (sunion \<epsilon> keys e) = Inr s \<Longrightarrow> distinct s"
    and "fst (sdiff \<epsilon> keys e) = Inr s \<Longrightarrow> distinct s"
proof -
  show "fst (sinter \<epsilon> keys e) = Inr s \<Longrightarrow> distinct s"
    using get_sets_distinct [OF assms, of keys]
    by (auto simp: sinter_def Let_def split_def foldl_filter_set split: sum.splits list.splits)
  show "fst (sunion \<epsilon> keys e) = Inr s \<Longrightarrow> distinct s"
    using sunion_loop_distinct [OF assms, of "[]" keys s] by (simp add: sunion_def)
  show "fst (sdiff \<epsilon> keys e) = Inr s \<Longrightarrow> distinct s"
    by (cases keys) (auto simp: Let_def split_def split: sum.splits
        intro: sdiff_loop_distinct [OF get_set_ok [OF assms] get_set_distinct [OF assms]])
qed

lemma confined_store_result:
  assumes "confined \<epsilon> K e (snd res)" and "\<And>s. engine_ok (env_hash \<epsilon>) e \<Longrightarrow> fst res = Inr s \<Longrightarrow> distinct s"
    and "\<not> isl (fst (store_result \<epsilon> dest res)) \<Longrightarrow> dest \<in> K"
  shows "confined \<epsilon> K e (snd (store_result \<epsilon> dest res))"
proof (cases "engine_ok (env_hash \<epsilon>) e")
  case True
  with assms show ?thesis
    by (auto simp: store_result_def store_or_delete_def Let_def split_def intro!: effects
        split: sum.splits)
qed (simp add: confined_def)

lemma confined_set_stores [effects]:
  assumes "confined \<epsilon> K e e1"
  shows "(\<not> isl (fst (sinterstore \<epsilon> dest keys e1)) \<Longrightarrow> dest \<in> K) \<Longrightarrow>
      confined \<epsilon> K e (snd (sinterstore \<epsilon> dest keys e1))"
    and "(\<not> isl (fst (sunionstore \<epsilon> dest keys e1)) \<Longrightarrow> dest \<in> K) \<Longrightarrow>
      confined \<epsilon> K e (snd (sunionstore \<epsilon> dest keys e1))"
    and "(\<not> isl (fst (sdiffstore \<epsilon> dest keys e1)) \<Longrightarrow> dest \<in> K) \<Longrightarrow>
      confined \<epsilon> K e (snd (sdiffstore \<epsilon> dest keys e1))"
  unfolding sinterstore_def sunionstore_def sdiffstore_def
  by (rule confined_store_result; use assms in
      \<open>auto intro!: effects dest: set_algebra_distinct [OF confined_ok [OF assms]]\<close>)+

subsection \<open>Sorted sets\<close>

lemma confined_zset_reads [effects]:
  assumes "confined \<epsilon> K e e1"
  shows "confined \<epsilon> K e (snd (zscore \<epsilon> key m e1))"
    and "confined \<epsilon> K e (snd (zcard \<epsilon> key e1))"
    and "confined \<epsilon> K e (snd (zrange \<epsilon> key i j e1))"
    and "confined \<epsilon> K e (snd (zrank \<epsilon> key m e1))"
  using assms by (simp_all add: zscore_def zcard_def zrange_def zrank_def effects)

lemma zs_score_inserted: "zs_score (zs_insert m x z) \<noteq> Map.empty"
  by (metis option.distinct(1) zs_score_insert)

lemma confined_zset_writes [effects]:
  assumes "confined \<epsilon> K e e1"
  shows "(\<not> isl (fst (zadd \<epsilon> key x m e1)) \<Longrightarrow> key \<in> K) \<Longrightarrow>
      confined \<epsilon> K e (snd (zadd \<epsilon> key x m e1))"
    and "(\<not> isl (fst (zrem \<epsilon> key ms e1)) \<Longrightarrow> key \<in> K) \<Longrightarrow>
      confined \<epsilon> K e (snd (zrem \<epsilon> key ms e1))"
  unfolding zadd_def zrem_def
  by (intro confined_upsert confined_mut assms; simp add: zs_score_inserted)+

lemma confined_zincrby [effects]:
  assumes "confined \<epsilon> K e e1" and "\<not> isl (fst (zincrby \<epsilon> key x m e1)) \<Longrightarrow> key \<in> K"
  shows "confined \<epsilon> K e (snd (zincrby \<epsilon> key x m e1))"
  using assms(2) unfolding zincrby_def
  by (intro confined_upsert assms(1); simp add: zs_score_inserted)

subsection \<open>Keys\<close>

lemma confined_key_type [effects]: "confined \<epsilon> K e e1 \<Longrightarrow> confined \<epsilon> K e (snd (key_type \<epsilon> key e1))"
  by (simp add: key_type_def Let_def split_def effects)

lemma engine_get_value_ok:
  "engine_ok (env_hash \<epsilon>) e \<Longrightarrow> fst (engine_get \<epsilon> k e) = Some v \<Longrightarrow> value_ok v"
  by (auto simp: engine_results intro: engine_view_value_ok)

lemma confined_rename [effects]:
  assumes "confined \<epsilon> K e e1" and "\<not> isl (fst (rename \<epsilon> src dst e1)) \<Longrightarrow> src \<in> K \<and> dst \<in> K"
  shows "confined \<epsilon> K e (snd (rename \<epsilon> src dst e1))"
proof (cases "engine_ok (env_hash \<epsilon>) e")
  case True
  then have "value_ok v" if "fst (engine_get \<epsilon> src e1) = Some v" for v
    using that engine_get_value_ok confined_ok [OF assms(1)] by blast
  with assms show ?thesis
    by (auto simp: rename_def Let_def split_def intro!: effects
        split: option.splits ttl_status.splits)
qed (simp add: confined_def)

lemma confined_renamenx [effects]:
  assumes "confined \<epsilon> K e e1" and "\<not> isl (fst (renamenx \<epsilon> src dst e1)) \<Longrightarrow> src \<in> K \<and> dst \<in> K"
  shows "confined \<epsilon> K e (snd (renamenx \<epsilon> src dst e1))"
proof (cases "engine_ok (env_hash \<epsilon>) e")
  case True
  then have "value_ok v" if "fst (engine_get \<epsilon> src e1) = Some v" for v
    using that engine_get_value_ok confined_ok [OF assms(1)] by blast
  with assms show ?thesis
    by (auto simp: renamenx_def Let_def split_def intro!: effects
        split: option.splits ttl_status.splits)
qed (simp add: confined_def)

end
