(* ===== verification/Rm_Access.thy ===== *)
theory Rm_Access
  imports Rm_Dispatch Rm_Effects
begin

text \<open>
  What dispatching a frame may touch: the confinement of every arm of the dispatcher, put together.
  A write command touches at most the keys that the key table of the dispatcher attributes to it, a
  command outside the table of write commands touches none, and a command that is answered with an
  error touches none. The keys the cluster router, the access-control gate and the log act on are
  thus the keys the engine acts on.
\<close>

section \<open>Handled commands\<close>

named_theorems handling \<open>rules that derive the confinement of an arm's result\<close>

fun is_error :: "frame \<Rightarrow> bool" where
  "is_error (FError _) = True"
| "is_error _ = False"

definition handled ::
  "env \<Rightarrow> bytes set \<Rightarrow> 'f::linorder engine \<Rightarrow> (frame \<times> 'f engine) option \<Rightarrow> bool" where
  "handled \<epsilon> K e r \<longleftrightarrow>
     (case r of None \<Rightarrow> True | Some (fr, e') \<Rightarrow> confined \<epsilon> (if is_error fr then {} else K) e e')"

lemma handled_None [handling]: "handled \<epsilon> K e None"
  by (simp add: handled_def)

lemma handled_Some [handling]:
  "confined \<epsilon> (if is_error fr then {} else K) e e' \<Longrightarrow> handled \<epsilon> K e (Some (fr, e'))"
  by (simp add: handled_def)

lemma handled_require [handling]:
  "(n \<le> length rest \<Longrightarrow> handled \<epsilon> K e body) \<Longrightarrow> handled \<epsilon> K e (require_args rest n name e body)"
  by (simp add: require_args_def handled_def)

lemma handled_int_arg [handling]:
  "(\<And>n. handled \<epsilon> K e (body n)) \<Longrightarrow> handled \<epsilon> K e (int_arg b e body)"
  by (auto simp: int_arg_def intro: handled_Some split: option.split)

lemma handled_range_args [handling]:
  "(\<And>i j. handled \<epsilon> K e (body i j)) \<Longrightarrow> handled \<epsilon> K e (range_args a b e body)"
  by (auto simp: range_args_def intro: handled_Some split: option.split)

lemma handled_scan_args [handling]:
  "(\<And>opts. handled \<epsilon> K e (body opts)) \<Longrightarrow> handled \<epsilon> K e (scan_args rest e body)"
  by (auto simp: scan_args_def intro: handled_Some split: sum.split)

lemma handled_list_ends [handling]:
  "(\<And>a b. handled \<epsilon> K e (body a b)) \<Longrightarrow> handled \<epsilon> K e (list_ends x y e body)"
  by (auto simp: list_ends_def intro: handled_Some split: option.split)

lemma handled_timeout_arg [handling]:
  "handled \<epsilon> K e body \<Longrightarrow> handled \<epsilon> K e (timeout_arg F b e body)"
  by (auto simp: timeout_arg_def intro: handled_Some split: sum.split)

lemma handled_score_arg [handling]:
  "(\<And>x. handled \<epsilon> K e (body x)) \<Longrightarrow> handled \<epsilon> K e (score_arg F b e body)"
  by (auto simp: score_arg_def intro: handled_Some split: sum.split)

lemma handled_reply [handling]:
  assumes "confined \<epsilon> (if isl (fst p) then {} else K) e (snd p)" and "\<And>r. \<not> is_error (ok r)"
  shows "handled \<epsilon> K e (reply ok p)"
  using assms by (cases "fst p") (simp_all add: handled_def reply_def engine_error_to_frame_def)

lemma is_error_replies [simp]:
  "\<not> is_error (bulk_or_null r)" "\<not> is_error (bulks bs)" "\<not> is_error (count_reply n)"
  "\<not> is_error (bool_reply b)" "\<not> is_error (ok_reply x)" "\<not> is_error (popped_reply p)"
  "\<not> is_error (ttl_reply u st)"
  by (cases r; simp add: bulks_def count_reply_def bool_reply_def ok_reply_def popped_reply_def
      ttl_reply_def split: option.split ttl_status.split)+

section \<open>The arms that only read\<close>

lemma handled_string_reads:
  "handled \<epsilon> K e (arm_get \<epsilon> rest e)"
  "handled \<epsilon> K e (arm_strlen \<epsilon> rest e)"
  "handled \<epsilon> K e (arm_getrange \<epsilon> rest e)"
  "handled \<epsilon> K e (arm_mget \<epsilon> rest e)"
  unfolding arm_get_def arm_strlen_def arm_getrange_def arm_mget_def Let_def split_def
  by (intro handling effects; simp)+

lemma handled_hash_reads:
  "handled \<epsilon> K e (arm_hget \<epsilon> rest e)"
  "handled \<epsilon> K e (arm_hgetall \<epsilon> rest e)"
  "handled \<epsilon> K e (arm_hscan \<epsilon> rest e)"
  "handled \<epsilon> K e (arm_hexists \<epsilon> rest e)"
  "handled \<epsilon> K e (arm_hlen \<epsilon> rest e)"
  "handled \<epsilon> K e (arm_hkeys \<epsilon> rest e)"
  "handled \<epsilon> K e (arm_hvals \<epsilon> rest e)"
  "handled \<epsilon> K e (arm_hmget \<epsilon> rest e)"
  unfolding arm_hget_def arm_hgetall_def arm_hscan_def arm_hexists_def arm_hlen_def arm_hkeys_def
    arm_hvals_def arm_hmget_def
  by (intro handling effects; simp)+

lemma handled_list_reads:
  "handled \<epsilon> K e (arm_llen \<epsilon> rest e)"
  "handled \<epsilon> K e (arm_lrange \<epsilon> rest e)"
  "handled \<epsilon> K e (arm_lindex \<epsilon> rest e)"
  unfolding arm_llen_def arm_lrange_def arm_lindex_def by (intro handling effects; simp)+

lemma handled_set_reads:
  "handled \<epsilon> K e (arm_smembers \<epsilon> rest e)"
  "handled \<epsilon> K e (arm_sscan \<epsilon> rest e)"
  "handled \<epsilon> K e (arm_sismember \<epsilon> rest e)"
  "handled \<epsilon> K e (arm_scard \<epsilon> rest e)"
  "handled \<epsilon> K e (arm_sinter \<epsilon> rest e)"
  "handled \<epsilon> K e (arm_sunion \<epsilon> rest e)"
  "handled \<epsilon> K e (arm_sdiff \<epsilon> rest e)"
  "handled \<epsilon> K e (arm_srandmember \<epsilon> rest e)"
  unfolding arm_smembers_def arm_sscan_def arm_sismember_def arm_scard_def arm_sinter_def
    arm_sunion_def arm_sdiff_def arm_srandmember_def
  by (intro handling effects; simp)+

lemma handled_zset_reads:
  "handled \<epsilon> K e (arm_zscore F \<epsilon> rest e)"
  "handled \<epsilon> K e (arm_zcard \<epsilon> rest e)"
  "handled \<epsilon> K e (arm_zrange \<epsilon> rest e)"
  "handled \<epsilon> K e (arm_zrank \<epsilon> rest e)"
  unfolding arm_zscore_def arm_zcard_def arm_zrange_def arm_zrank_def
  by (intro handling effects; simp split: option.split)+

lemma confined_count_existing [effects]:
  "confined \<epsilon> K e e1 \<Longrightarrow> confined \<epsilon> K e (snd (count_existing \<epsilon> keys e1))"
  by (induction keys arbitrary: e1) (simp_all add: Let_def split_def effects)

lemma confined_filter_type [effects]:
  "confined \<epsilon> K e e1 \<Longrightarrow> confined \<epsilon> K e (snd (filter_type \<epsilon> t keys e1))"
  by (induction keys arbitrary: e1) (simp_all add: Let_def split_def effects)

lemma handled_scan: "handled \<epsilon> K e (arm_scan \<epsilon> rest e)"
  unfolding arm_scan_def Let_def split_def
  by (auto intro!: handling effects split: option.split sum.split)

lemma handled_key_reads:
  "handled \<epsilon> K e (arm_exists \<epsilon> rest e)"
  "handled \<epsilon> K e (arm_type \<epsilon> rest e)"
  "handled \<epsilon> K e (arm_keys \<epsilon> rest e)"
  "handled \<epsilon> K e (arm_randomkey \<epsilon> rest e)"
  "handled \<epsilon> K e (arm_dbsize \<epsilon> rest e)"
  "handled \<epsilon> K e (arm_ttl \<epsilon> rest e)"
  "handled \<epsilon> K e (arm_pttl \<epsilon> rest e)"
  unfolding arm_exists_def arm_type_def arm_keys_def arm_randomkey_def arm_dbsize_def arm_ttl_def
    arm_pttl_def Let_def split_def
  by (intro handling effects)+

lemma handled_server_reads:
  "handled \<epsilon> K e (arm_ping rest e)"
  "handled \<epsilon> K e (arm_echo rest e)"
  "handled \<epsilon> K e (arm_select rest e)"
  "handled \<epsilon> K e (arm_command rest e)"
  "handled \<epsilon> K e (arm_memory \<epsilon> rest e)"
  "handled \<epsilon> K e (arm_object \<epsilon> rest e)"
  "handled \<epsilon> K e (arm_debug F rest e)"
  unfolding arm_ping_def arm_echo_def arm_select_def arm_command_def arm_memory_def arm_object_def
    arm_debug_def Let_def split_def
  by (auto intro!: handling effects)

section \<open>The arms that write\<close>

lemma handled_incrs:
  assumes "1 \<le> length rest \<Longrightarrow> rest ! 0 \<in> K"
  shows "handled \<epsilon> K e (arm_incr \<epsilon> rest e)"
    and "handled \<epsilon> K e (arm_decr \<epsilon> rest e)"
    and "handled \<epsilon> K e (arm_incrby \<epsilon> rest e)"
    and "handled \<epsilon> K e (arm_append \<epsilon> rest e)"
    and "handled \<epsilon> K e (arm_getset \<epsilon> rest e)"
  unfolding arm_incr_def arm_decr_def arm_incrby_def arm_append_def arm_getset_def
  by (intro handling effects; use assms in simp)+

lemma confined_set_apply [effects]:
  "confined \<epsilon> K e e1 \<Longrightarrow> key \<in> K \<Longrightarrow> confined \<epsilon> K e (snd (set_apply \<epsilon> flags key b e1))"
  by (simp add: set_apply_def effects)

lemma set_ttl_error: "set_ttl rest = Inl err \<Longrightarrow> is_error err"
  by (auto simp: set_ttl_def split: option.splits)

lemma handled_set:
  assumes "1 \<le> length rest \<Longrightarrow> rest ! 0 \<in> K"
  shows "handled \<epsilon> K e (arm_set \<epsilon> rest e)"
  using assms unfolding arm_set_def Let_def split_def
  by (auto intro!: handling effects split: option.split sum.split)

lemma handled_setrange:
  assumes "1 \<le> length rest \<Longrightarrow> rest ! 0 \<in> K"
  shows "handled \<epsilon> K e (arm_setrange \<epsilon> rest e)"
proof -
  have "handled \<epsilon> K e (case setrange \<epsilon> (rest ! 0) n (rest ! 2) e of
      (None, e1) \<Rightarrow> None | (Some r, e1) \<Rightarrow> reply count_reply (r, e1))"
    if "rest ! 0 \<in> K" for n
  proof (cases "fst (setrange \<epsilon> (rest ! 0) n (rest ! 2) e)")
    case None
    then show ?thesis by (simp add: split_def handled_None)
  next
    case (Some r)
    have "confined \<epsilon> (if isl r then {} else K) e (snd (setrange \<epsilon> (rest ! 0) n (rest ! 2) e))"
      using Some that by (intro effects) (cases r; simp)
    with Some show ?thesis
      by (simp add: split_def handled_reply)
  qed
  with assms show ?thesis
    unfolding arm_setrange_def by (auto intro!: handling)
qed

lemma confined_del_keys [effects]:
  "confined \<epsilon> K e e1 \<Longrightarrow> set keys \<subseteq> K \<Longrightarrow> confined \<epsilon> K e (snd (del_keys \<epsilon> keys e1))"
  by (induction keys arbitrary: e1) (simp_all add: Let_def split_def effects)

lemma chunks2_keys: "(a, b) \<in> set (chunks2 xs) \<Longrightarrow> a \<in> set (every_other xs)"
  by (induction xs rule: chunks2.induct) auto

lemma handled_msets:
  assumes "set (every_other rest) \<subseteq> K"
  shows "handled \<epsilon> K e (arm_mset \<epsilon> rest e)" and "handled \<epsilon> K e (arm_msetnx \<epsilon> rest e)"
  using assms unfolding arm_mset_def arm_msetnx_def Let_def split_def
  by (auto intro!: handling effects simp: wrong_args_def dest: chunks2_keys)

lemma handled_del: "set rest \<subseteq> K \<Longrightarrow> handled \<epsilon> K e (arm_del \<epsilon> rest e)"
  unfolding arm_del_def Let_def split_def by (intro handling effects) simp_all

text \<open>\<open>HSET\<close> of several fields can only fail at the first one.\<close>

lemma hset_pairs_hashy:
  assumes "engine_ok (env_hash \<epsilon>) e" and "hashy (live \<epsilon> e) key"
  shows "\<not> isl (fst (hset_pairs \<epsilon> key pairs n e))"
  using assms
proof (induction \<epsilon> key pairs n e rule: hset_pairs.induct)
  case (2 \<epsilon> key f v pairs n e)
  note ok = "2.prems"
  have next_ok: "engine_ok (env_hash \<epsilon>) (snd (hset \<epsilon> key f v e))"
    by (rule confined_ok [where K = UNIV, OF _ ok(1)]) (simp add: effects)
  from ok(2) obtain b where b: "fst (hset \<epsilon> key f v e) = Inr b"
    using hset_isl [of \<epsilon> key f v e] by (cases "fst (hset \<epsilon> key f v e)") auto
  show ?case
    using "2.IH" [OF refl _ _ _ next_ok hset_keeps_hashy [OF ok]] b
    by (cases b) (auto simp: Let_def split_def prod_eq_iff)
qed simp

lemma confined_hset_pairs_key:
  assumes "confined \<epsilon> K e e1" and "key \<in> K"
  shows "confined \<epsilon> K e (snd (hset_pairs \<epsilon> key pairs n e1))"
  using assms(1)
proof (induction pairs arbitrary: n e1)
  case (Cons p pairs)
  obtain f v where p: "p = (f, v)" by (cases p)
  have "confined \<epsilon> K e (snd (hset \<epsilon> key f v e1))"
    using Cons.prems assms(2) by (simp add: effects)
  with Cons.IH show ?case by (simp add: p Let_def split_def split: sum.split bool.split)
qed simp

lemma confined_hset_pairs [effects]:
  assumes "confined \<epsilon> K e e1" and "\<not> isl (fst (hset_pairs \<epsilon> key pairs n e1)) \<Longrightarrow> key \<in> K"
  shows "confined \<epsilon> K e (snd (hset_pairs \<epsilon> key pairs n e1))"
proof (cases "engine_ok (env_hash \<epsilon>) e1 \<and> hashy (live \<epsilon> e1) key")
  case True
  then have "key \<in> K" using assms(2) hset_pairs_hashy by blast
  with assms(1) show ?thesis by (rule confined_hset_pairs_key)
next
  case False
  show ?thesis
  proof (cases "engine_ok (env_hash \<epsilon>) e")
    case True
    with False confined_ok [OF assms(1)] have "isl (fst (hset \<epsilon> key f v e1))" for f v
      by (simp add: hset_isl)
    then have "confined \<epsilon> K e (snd (hset \<epsilon> key f v e1)) \<and> (\<exists>err. fst (hset \<epsilon> key f v e1) = Inl err)"
      for f v
      using assms(1) by (auto simp: isl_def intro!: effects)
    note first = this
    show ?thesis
    proof (cases pairs)
      case (Cons p ps)
      with first [of "fst p" "snd p"] show ?thesis by (cases p) (auto simp: Let_def split_def)
    qed (simp add: assms(1))
  qed (simp add: confined_def)
qed

lemma handled_hash_writes:
  assumes "1 \<le> length rest \<Longrightarrow> rest ! 0 \<in> K"
  shows "handled \<epsilon> K e (arm_hset \<epsilon> rest e)"
    and "handled \<epsilon> K e (arm_hdel \<epsilon> rest e)"
    and "handled \<epsilon> K e (arm_hincrby \<epsilon> rest e)"
    and "handled \<epsilon> K e (arm_hsetnx \<epsilon> rest e)"
proof -
  show "handled \<epsilon> K e (arm_hset \<epsilon> rest e)"
    using assms unfolding arm_hset_def wrong_args_def by (auto intro!: handling effects)
  show "handled \<epsilon> K e (arm_hdel \<epsilon> rest e)" "handled \<epsilon> K e (arm_hincrby \<epsilon> rest e)"
    "handled \<epsilon> K e (arm_hsetnx \<epsilon> rest e)"
    unfolding arm_hdel_def arm_hincrby_def arm_hsetnx_def
    by (intro handling effects; use assms in simp)+
qed

lemma handled_list_writes:
  assumes "1 \<le> length rest \<Longrightarrow> rest ! 0 \<in> K"
  shows "handled \<epsilon> K e (arm_rpush \<epsilon> rest e)"
    and "handled \<epsilon> K e (arm_lpush \<epsilon> rest e)"
    and "handled \<epsilon> K e (arm_rpop \<epsilon> rest e)"
    and "handled \<epsilon> K e (arm_lpop \<epsilon> rest e)"
    and "handled \<epsilon> K e (arm_lset \<epsilon> rest e)"
    and "handled \<epsilon> K e (arm_ltrim \<epsilon> rest e)"
    and "handled \<epsilon> K e (arm_lrem \<epsilon> rest e)"
    and "handled \<epsilon> K e (arm_linsert \<epsilon> rest e)"
proof -
  show "handled \<epsilon> K e (arm_linsert \<epsilon> rest e)"
    using assms unfolding arm_linsert_def Let_def by (auto intro!: handling effects)
  show "handled \<epsilon> K e (arm_rpush \<epsilon> rest e)" "handled \<epsilon> K e (arm_lpush \<epsilon> rest e)"
    "handled \<epsilon> K e (arm_rpop \<epsilon> rest e)" "handled \<epsilon> K e (arm_lpop \<epsilon> rest e)"
    "handled \<epsilon> K e (arm_lset \<epsilon> rest e)" "handled \<epsilon> K e (arm_ltrim \<epsilon> rest e)"
    "handled \<epsilon> K e (arm_lrem \<epsilon> rest e)"
    unfolding arm_rpush_def arm_lpush_def arm_rpop_def arm_lpop_def arm_lset_def arm_ltrim_def
      arm_lrem_def
    by (intro handling effects; use assms in simp)+
qed

lemma handled_moves:
  assumes "2 \<le> length rest \<Longrightarrow> rest ! 0 \<in> K \<and> rest ! 1 \<in> K"
  shows "handled \<epsilon> K e (arm_lmove \<epsilon> rest e)"
    and "handled \<epsilon> K e (arm_rpoplpush \<epsilon> rest e)"
  unfolding arm_lmove_def arm_rpoplpush_def by (intro handling effects; use assms in simp)+

lemma handled_blocking_moves:
  assumes "2 \<le> length rest \<Longrightarrow> rest ! 0 \<in> K \<and> rest ! 1 \<in> K"
  shows "handled \<epsilon> K e (arm_blmove F \<epsilon> rest e)"
    and "handled \<epsilon> K e (arm_brpoplpush F \<epsilon> rest e)"
  unfolding arm_blmove_def arm_brpoplpush_def by (intro handling effects; use assms in simp)+

text \<open>The scan of \<open>BLPOP\<close> stops at the first pop or failure; the keys before it had nothing to pop.\<close>

lemma pop_nothing:
  assumes "engine_ok (env_hash \<epsilon>) e"
    and "fst (engine_with_mut_delta \<epsilon> key (pop_mut fin) (Inr None) e) = Inr None"
  shows "confined \<epsilon> {} e (snd (engine_with_mut_delta \<epsilon> key (pop_mut fin) (Inr None) e))"
proof (rule confined_mut_le [OF confined_refl])
  have "live \<epsilon> e key = None"
  proof (rule ccontr)
    assume "live \<epsilon> e key \<noteq> None"
    then obtain v x where v: "live \<epsilon> e key = Some (v, x)" by auto
    with engine_view_value_ok [OF assms(1) v] assms(2) show False
      by (cases v; cases fin)
        (auto simp: engine_results pop_end_def pop_back_def Let_def split_def neq_Nil_conv)
  qed
  then show "ks_mutate key (\<lambda>v. snd (snd (pop_mut fin v))) (live \<epsilon> e) k' = live \<epsilon> e k'" for k'
    by (simp add: ks_mutate_def)
qed simp

lemma pop_nothing_pops:
  assumes "engine_ok (env_hash \<epsilon>) e"
  shows "fst (lpop \<epsilon> key e) = Inr None \<Longrightarrow> confined \<epsilon> {} e (snd (lpop \<epsilon> key e))"
    and "fst (rpop \<epsilon> key e) = Inr None \<Longrightarrow> confined \<epsilon> {} e (snd (rpop \<epsilon> key e))"
  using pop_nothing [OF assms] by (simp_all add: lpop_def rpop_def)

lemma confined_first_available_pop [effects]:
  assumes "confined \<epsilon> K e e1"
    and "\<not> isl (fst (first_available_pop \<epsilon> keys fin e1)) \<Longrightarrow> set keys \<subseteq> K"
  shows "confined \<epsilon> K e (snd (first_available_pop \<epsilon> keys fin e1))"
proof (cases "engine_ok (env_hash \<epsilon>) e")
  case True
  from assms show ?thesis
  proof (induction keys arbitrary: e1)
    case (Cons k keys)
    define p where "p = (case fin of ListLeft \<Rightarrow> lpop \<epsilon> k e1 | ListRight \<Rightarrow> rpop \<epsilon> k e1)"
    have unfold: "first_available_pop \<epsilon> (k # keys) fin e1 =
      (case fst p of
         Inl err \<Rightarrow> (Inl err, snd p)
       | Inr (Some val) \<Rightarrow> (Inr (Some (k, val)), snd p)
       | Inr None \<Rightarrow> first_available_pop \<epsilon> keys fin (snd p))"
      unfolding first_available_pop.simps p_def Let_def split_def by (rule refl)
    show ?case
    proof (cases "fst p = Inr None")
      case None: True
      have "confined \<epsilon> {} e1 (snd p)"
        using None pop_nothing_pops [OF confined_ok [OF Cons.prems(1) True]]
        by (cases fin) (simp_all add: p_def)
      then have "confined \<epsilon> K e (snd p)"
        using Cons.prems(1) by (blast intro: confined_trans confined_mono)
      with Cons.IH [of "snd p"] Cons.prems(2) None show ?thesis
        by (simp add: unfold del: first_available_pop.simps)
    next
      case False
      have "confined \<epsilon> K e (snd p)"
        using Cons.prems False
        unfolding unfold
        by (cases fin; cases "fst p") (auto simp: p_def intro!: effects split: option.splits)
      with False show ?thesis unfolding unfold by (auto split: sum.split option.split)
    qed
  qed simp
qed (simp add: confined_def)

lemma handled_blocking_pops:
  assumes "set (take (length rest - 1) rest) \<subseteq> K"
  shows "handled \<epsilon> K e (arm_blpop F \<epsilon> rest e)" and "handled \<epsilon> K e (arm_brpop F \<epsilon> rest e)"
  unfolding arm_blpop_def arm_brpop_def
  by (intro handling effects; use assms in \<open>simp add: butlast_conv_take\<close>)+

lemma handled_set_writes:
  assumes "1 \<le> length rest \<Longrightarrow> rest ! 0 \<in> K"
  shows "handled \<epsilon> K e (arm_sadd \<epsilon> rest e)"
    and "handled \<epsilon> K e (arm_srem \<epsilon> rest e)"
    and "handled \<epsilon> K e (arm_sinterstore \<epsilon> rest e)"
    and "handled \<epsilon> K e (arm_sunionstore \<epsilon> rest e)"
    and "handled \<epsilon> K e (arm_sdiffstore \<epsilon> rest e)"
    and "rand_in_range \<epsilon> \<Longrightarrow> handled \<epsilon> K e (arm_spop \<epsilon> rest e)"
  unfolding arm_sadd_def arm_srem_def arm_sinterstore_def arm_sunionstore_def arm_sdiffstore_def
    arm_spop_def
  by (intro handling effects; use assms in simp)+

lemma handled_zset_writes:
  assumes "1 \<le> length rest \<Longrightarrow> rest ! 0 \<in> K"
  shows "handled \<epsilon> K e (arm_zadd F \<epsilon> rest e)" and "handled \<epsilon> K e (arm_zrem \<epsilon> rest e)"
  unfolding arm_zadd_def arm_zrem_def by (intro handling effects; use assms in simp)+

lemma handled_zincrby:
  assumes "1 \<le> length rest \<Longrightarrow> rest ! 0 \<in> K"
  shows "handled \<epsilon> K e (arm_zincrby F \<epsilon> rest e)"
  unfolding arm_zincrby_def by (intro handling effects; use assms in simp)

lemma handled_renames:
  assumes "2 \<le> length rest \<Longrightarrow> rest ! 0 \<in> K \<and> rest ! 1 \<in> K"
  shows "handled \<epsilon> K e (arm_rename \<epsilon> rest e)" and "handled \<epsilon> K e (arm_renamenx \<epsilon> rest e)"
  unfolding arm_rename_def arm_renamenx_def by (intro handling effects; use assms in simp)+

lemma handled_deadlines:
  assumes "1 \<le> length rest \<Longrightarrow> rest ! 0 \<in> K"
  shows "handled \<epsilon> K e (arm_expire \<epsilon> name rest e)"
    and "handled \<epsilon> K e (arm_expireat \<epsilon> name rest e)"
    and "handled \<epsilon> K e (arm_persist \<epsilon> rest e)"
  using assms unfolding arm_expire_def arm_expireat_def arm_persist_def Let_def split_def
  by (auto intro!: handling effects split: option.split)

section \<open>Dispatch\<close>

lemma key_spec_writes:
  "map key_spec WRITE_COMMANDS =
   map (\<lambda>n. if n \<in> set [''MSET'', ''MSETNX''] then KeysEveryOther
            else if n \<in> set [''DEL'', ''RENAME'', ''RENAMENX'', ''SINTERSTORE'', ''SUNIONSTORE'', ''SDIFFSTORE'']
              then KeysAll
            else if n \<in> set [''LMOVE'', ''RPOPLPUSH'', ''BLMOVE'', ''BRPOPLPUSH''] then KeysFirstTwo
            else if n \<in> set [''BLPOP'', ''BRPOP''] then KeysAllButLast
            else KeysFirst) WRITE_COMMANDS"
  by code_simp

text \<open>The keys a command may change: none unless it is a write command.\<close>

definition written_keys :: "bytes \<Rightarrow> bytes list \<Rightarrow> bytes set" where
  "written_keys name rest =
     (if name \<in> set WRITE_COMMANDS then set (select_keys (key_spec name) rest) else {})"

lemmas write_specs = key_spec_writes [unfolded map_eq_conv, rule_format]

lemma written_first:
  assumes "name \<in> set WRITE_COMMANDS"
    and "name \<notin> set [''MSET'', ''MSETNX'', ''DEL'', ''RENAME'', ''RENAMENX'', ''SINTERSTORE'', ''SUNIONSTORE'',
      ''SDIFFSTORE'', ''LMOVE'', ''RPOPLPUSH'', ''BLMOVE'', ''BRPOPLPUSH'', ''BLPOP'', ''BRPOP'']"
    and "1 \<le> length rest"
  shows "rest ! 0 \<in> written_keys name rest"
  using assms write_specs [OF assms(1)] by (cases rest) (simp_all add: written_keys_def)

lemma written_second:
  assumes "name \<in> set WRITE_COMMANDS"
    and "name \<in> set [''DEL'', ''RENAME'', ''RENAMENX'', ''SINTERSTORE'', ''SUNIONSTORE'', ''SDIFFSTORE'',
      ''LMOVE'', ''RPOPLPUSH'', ''BLMOVE'', ''BRPOPLPUSH'']"
    and "2 \<le> length rest"
  shows "rest ! 0 \<in> written_keys name rest \<and> rest ! 1 \<in> written_keys name rest"
proof -
  from assms(3) obtain a b r where "rest = a # b # r"
    by (metis Suc_le_length_iff numeral_2_eq_2)
  with assms(1,2) write_specs [OF assms(1)] show ?thesis
    by (auto simp: written_keys_def)
qed

lemma written_others:
  "set (every_other rest) \<subseteq> written_keys ''MSET'' rest"
  "set (every_other rest) \<subseteq> written_keys ''MSETNX'' rest"
  "set rest \<subseteq> written_keys ''DEL'' rest"
  "set (take (length rest - 1) rest) \<subseteq> written_keys ''BLPOP'' rest"
  "set (take (length rest - 1) rest) \<subseteq> written_keys ''BRPOP'' rest"
  "1 \<le> length rest \<Longrightarrow> rest ! 0 \<in> written_keys ''SINTERSTORE'' rest"
  "1 \<le> length rest \<Longrightarrow> rest ! 0 \<in> written_keys ''SUNIONSTORE'' rest"
  "1 \<le> length rest \<Longrightarrow> rest ! 0 \<in> written_keys ''SDIFFSTORE'' rest"
  using write_specs [of "''MSET''"] write_specs [of "''MSETNX''"] write_specs [of "''DEL''"]
    write_specs [of "''BLPOP''"] write_specs [of "''BRPOP''"] write_specs [of "''SINTERSTORE''"]
    write_specs [of "''SUNIONSTORE''"] write_specs [of "''SDIFFSTORE''"]
  by (simp_all add: written_keys_def WRITE_COMMANDS_def Suc_le_eq)

lemmas handled_reads = handled_string_reads handled_hash_reads handled_list_reads handled_set_reads
  handled_zset_reads handled_scan handled_key_reads handled_server_reads

lemmas handled_writes = handled_incrs handled_set handled_setrange handled_hash_writes
  handled_list_writes handled_set_writes handled_zset_writes handled_zincrby handled_deadlines

lemmas handled_moving_writes = handled_moves handled_blocking_moves handled_renames

lemma arms_handled:
  assumes "rand_in_range \<epsilon>"
  shows "list_all (\<lambda>(name, arm). \<forall>rest e. handled \<epsilon> (written_keys name rest) e (arm rest e)) (arms F \<epsilon>)"
proof -
  have spop: "handled \<epsilon> (written_keys ''SPOP'' rest) e (arm_spop \<epsilon> rest e)" for rest and e :: "'a engine"
    by (rule handled_set_writes(6), rule written_first) (simp_all add: WRITE_COMMANDS_def assms)
  show ?thesis
    unfolding arms_def list.pred_inject(2) prod.case
    by (intro conjI allI list.pred_inject(1);
        ((rule handled_reads)
         | (rule spop)
         | (rule handled_writes, (rule written_first; (simp add: WRITE_COMMANDS_def; fail)))
         | (rule handled_moving_writes, (rule written_second; (simp add: WRITE_COMMANDS_def; fail)))
         | (rule handled_msets handled_del handled_blocking_pops, rule written_others)
         | (rule handled_set_writes, (rule written_others; assumption))))
qed

lemma those_bulk_bytes: "those (map bulk_bytes items) = Some args \<longleftrightarrow> items = map FBulk args"
proof (induction items arbitrary: args)
  case (Cons i items)
  then show ?case by (cases i) (auto split: option.split)
qed auto

lemma those_FBulk [simp]: "those (map (bulk_bytes \<circ> FBulk) args) = Some args"
  by (induction args) auto

lemma frame_to_args_Inr: "frame_to_args frame = Inr args \<Longrightarrow> frame = FArray (map FBulk args)"
  by (cases frame) (auto simp: those_bulk_bytes split: option.splits)

lemma map_filter_FBulk [simp]: "List.map_filter bulk_bytes (map FBulk bs) = bs"
  by (induction bs) (simp_all add: map_filter_simps)

lemma command_of_args:
  "command_keys (FArray (map FBulk (n # rest))) =
     (case upper_name n of None \<Rightarrow> [] | Some name \<Rightarrow> select_keys (key_spec name) rest)"
  "command_name_upper (FArray (map FBulk (n # rest))) = upper_name n"
  by (simp_all split: option.split)

text \<open>The keys a frame may change, as the server's own tables give them.\<close>

definition frame_writes :: "frame \<Rightarrow> bytes set" where
  "frame_writes frame =
     (if extract_write_command_name frame = None then {} else set (command_keys frame))"

lemma frame_error_confined: "is_error fr \<Longrightarrow> confined \<epsilon> (if is_error fr then {} else K) e e"
  by simp

lemma dispatch_handled:
  assumes "rand_in_range \<epsilon>"
  shows "handled \<epsilon> (frame_writes frame) e (dispatch F \<epsilon> frame e)"
proof (cases "frame_to_args frame")
  case (Inl err)
  then show ?thesis by (simp add: dispatch_def handled_Some)
next
  case (Inr args)
  show ?thesis
  proof (cases args)
    case Nil
    with Inr show ?thesis by (simp add: dispatch_def handled_Some)
  next
    case (Cons n rest)
    show ?thesis
    proof (cases "upper_name n")
      case None
      with Inr Cons show ?thesis by (simp add: dispatch_def handled_Some)
    next
      case (Some name)
      have frame: "frame = FArray (map FBulk (n # rest))"
        using frame_to_args_Inr [OF Inr] Cons by simp
      then have writes: "frame_writes frame = written_keys name rest"
        by (simp only: frame_writes_def written_keys_def extract_write_command_name_def
            command_of_args Some) simp
      show ?thesis
      proof (cases "map_of (arms F \<epsilon>) name")
        case None
        with Inr Cons Some show ?thesis by (simp add: dispatch_def handled_Some)
      next
        case arm: (Some arm)
        then have "handled \<epsilon> (written_keys name rest) e (arm rest e)"
          using arms_handled [OF assms, of F] map_of_SomeD [OF arm] by (fastforce simp: list_all_iff)
        with Inr Cons Some arm show ?thesis by (simp add: dispatch_def writes)
      qed
    qed
  qed
qed

lemma dispatch_confined:
  assumes "rand_in_range \<epsilon>" and "dispatch F \<epsilon> frame e = Some (r, e')"
  shows "confined \<epsilon> (if is_error r then {} else frame_writes frame) e e'"
  using dispatch_handled [OF assms(1), of frame e F] assms(2) by (simp add: handled_def)

text \<open>A number type for concrete runs: scores are naturals, written in decimal.\<close>

definition sample_floats :: "nat float_ops" where
  "sample_floats =
     \<lparr>f_parse = (\<lambda>b. map_option nat (parse_i64 b)), f_finite = (\<lambda>_. True), f_integral = (\<lambda>_. True),
      f_as_i64 = int, f_show = (\<lambda>n. show_int (int n)), f_max_sleep = 10\<rparr>"

section \<open>What dispatching guarantees\<close>

text \<open>The engines that serving frames, at any times and with any random choices, can lead to.\<close>

inductive served ::
  "('f::{linorder,plus,zero}) float_ops \<Rightarrow> (bytes \<Rightarrow> u64) \<Rightarrow> 'f engine \<Rightarrow> 'f engine \<Rightarrow> bool" for F h where
  served_start: "served F h e e"
| served_frame: "served F h e e1 \<Longrightarrow> env_hash \<epsilon> = h \<Longrightarrow> rand_in_range \<epsilon> \<Longrightarrow>
    dispatch F \<epsilon> frame e1 = Some (r, e2) \<Longrightarrow> served F h e e2"

lemma served_ok: "served F h e e' \<Longrightarrow> engine_ok h e \<Longrightarrow> engine_ok h e'"
proof (induction rule: served.induct)
  case (served_frame e e1 \<epsilon> frame r e2)
  then show ?case using confined_ok [OF dispatch_confined] by blast
qed

text \<open>A first \<open>SET\<close> on a fresh engine, for concrete runs.\<close>

abbreviation sample_command :: "bytes list \<Rightarrow> frame" where
  "sample_command args \<equiv> FArray (map FBulk args)"

lemma sample_env_rand: "rand_in_range sample_env"
  by (simp add: rand_in_range_def sample_env_def)

lemma sample_names: "upper_name ''set'' = Some ''SET''" "upper_name ''strlen'' = Some ''STRLEN''"
  by code_simp+

lemma dispatch_set_plain:
  "dispatch F \<epsilon> (sample_command [''set'', k, v]) e = Some (FSimple ''OK'', engine_set \<epsilon> k (VString v) e)"
  by (simp add: dispatch_def sample_names arms_def arm_set_def require_args_def set_ttl_def
      set_flags_def set_apply_def)

text \<open>
  C35: Every value the server stores has its type's shape. Whatever frames a fresh engine has served,
  with or without a memory ceiling, every key lies in the shard its hash selects, no shard holds a
  key twice, the byte counters are exact, and every value that can be read is well-formed: hashes
  have distinct fields, sets distinct members, sorted sets agree with their order, and no emptied
  collection is left behind.
\<close>

theorem served_well_typed:
  assumes "served F h e0 e"
    and "e0 = engine_new \<epsilon> \<or> e0 = engine_with_maxmemory \<epsilon> limit"
  shows "engine_ok h e \<and> (\<forall>t k v x. engine_view h t e k = Some (v, x) \<longrightarrow> value_ok v)"
proof -
  have "engine_ok h e0" using assms(2) engine_ok_new engine_ok_with_maxmemory by metis
  with assms(1) have "engine_ok h e" by (rule served_ok)
  then show ?thesis by (meson engine_view_value_ok)
qed

theorem served_well_typed_witness:
  "engine_ok (env_hash sample_env)
     (engine_set sample_env ''k'' (VString ''v'') (engine_new sample_env) :: nat engine)
   \<and> value_ok (VString ''v'' :: nat kvalue)"
proof -
  have "served sample_floats (env_hash sample_env) (engine_new sample_env)
      (engine_set sample_env ''k'' (VString ''v'') (engine_new sample_env))"
    by (rule served_frame [OF served_start refl sample_env_rand dispatch_set_plain])
  from served_well_typed [OF this disjI1 [OF refl]]
    first_set(2) [of "VString ''v''" sample_env "''k''" sample_env]
  show ?thesis by (simp add: value_ok_def)
qed

text \<open>
  C33: A command changes only the keys it names. Whatever the frame and the answer, a key outside the
  list that the command's key specification selects from the arguments - the list that cluster
  routing and access control look at - holds what it held before, or was evicted by a memory ceiling;
  without a ceiling it holds what it held.
\<close>

theorem dispatch_changes_only_its_keys:
  assumes "dispatch F \<epsilon> frame e = Some (r, e')" and "rand_in_range \<epsilon>"
    and "engine_ok (env_hash \<epsilon>) e" and "k \<notin> set (command_keys frame)"
  shows "(live \<epsilon> e' k = live \<epsilon> e k \<or> live \<epsilon> e' k = None)
    \<and> (maxmemory e = None \<longrightarrow> live \<epsilon> e' k = live \<epsilon> e k)"
proof -
  have "k \<notin> (if is_error r then {} else frame_writes frame)"
    using assms(4) by (simp add: frame_writes_def)
  with confined_outside [OF dispatch_confined [OF assms(2,1)] assms(3)] show ?thesis by simp
qed

theorem dispatch_changes_only_its_keys_witness:
  "live sample_env
     (engine_set sample_env ''k'' (VString ''v'') (engine_new sample_env) :: nat engine) ''other'' =
   live sample_env (engine_new sample_env :: nat engine) ''other''"
proof -
  have "command_keys (sample_command [''set'', ''k'', ''v'']) = [''k'']" by code_simp
  then show ?thesis
    using dispatch_changes_only_its_keys [OF dispatch_set_plain [of sample_floats] sample_env_rand,
        of "engine_new sample_env" "''other''" "''k''" "''v''"]
    by (simp add: engine_ok_new engine_new_unlimited)
qed



end
