(* ===== verification/Rm_Answer.thy ===== *)
theory Rm_Answer
  imports Rm_Access
begin

text \<open>
  Which commands are answered. A handler that runs into a panic of the language has no result; the
  lemmas go through the arms of the dispatcher and show that all of them answer every call, except
  \<open>EXPIRE\<close> and \<open>SETRANGE\<close>, whose panics are characterised exactly.
\<close>

lemma require_args_None [simp]:
  "require_args rest n name e body = None \<longleftrightarrow> n \<le> length rest \<and> body = None"
  by (simp add: require_args_def not_less)

lemma reply_None [simp]: "reply ok p \<noteq> None"
  by (simp add: reply_def)

lemma int_arg_None [simp]:
  "int_arg b e body = None \<longleftrightarrow> (\<exists>n. parse_i64_arg b = Some n \<and> body n = None)"
  by (simp add: int_arg_def split: option.split)

lemma range_args_None [simp]:
  "range_args a b e body = None \<longleftrightarrow>
   (\<exists>i j. parse_i64_arg a = Some i \<and> parse_i64_arg b = Some j \<and> body i j = None)"
  by (simp add: range_args_def split: option.split)

lemma scan_args_None [simp]:
  "(\<And>opts. body opts \<noteq> None) \<Longrightarrow> scan_args rest e body \<noteq> None"
  by (simp add: scan_args_def split: sum.split)

lemma list_ends_None [simp]:
  "list_ends x y e body = None \<longleftrightarrow>
   (\<exists>a b. parse_list_end x = Some a \<and> parse_list_end y = Some b \<and> body a b = None)"
  by (simp add: list_ends_def split: option.split)

lemma timeout_arg_None [simp]:
  "timeout_arg F b e body = None \<longleftrightarrow> \<not> isl (parse_timeout_secs F b) \<and> body = None"
  by (simp add: timeout_arg_def split: sum.split)

lemma score_arg_None [simp]:
  "score_arg F b e body = None \<longleftrightarrow> (\<exists>x. parse_score F b = Inr x \<and> body x = None)"
  by (simp add: score_arg_def split: sum.split)

text \<open>A clock below half the range of an \<open>Instant\<close> can be moved by any number of milliseconds.\<close>

lemma instant_add_millis:
  assumes "env_now \<epsilon> < 2 ^ 62 * nanos_per_sec" and "in_i64 ms"
  shows "instant_add (env_now \<epsilon>) (nat (max ms 0) * nanos_per_milli) \<noteq> None"
proof -
  have "nat (max ms 0) < 2 ^ 63" using assms(2) by (auto simp: in_i64_def)
  then have "nat (max ms 0) * nanos_per_milli \<le> 2 ^ 62 * nanos_per_sec" by simp
  with assms(1) have "env_now \<epsilon> + nat (max ms 0) * nanos_per_milli < 2 ^ 63 * nanos_per_sec" by simp
  then show ?thesis by (simp add: instant_add_def less_mult_imp_div_less)
qed

lemma set_ttl_range: "set_ttl rest = Inr (Some ms) \<Longrightarrow> in_i64 ms"
  by (auto simp: set_ttl_def get_int_def saturating_mul_i64_def in_i64_def
      dest: parse_i64_arg_range [unfolded in_i64_def] split: option.splits if_splits)

lemma arm_set_answers:
  assumes "env_now \<epsilon> < 2 ^ 62 * nanos_per_sec"
  shows "arm_set \<epsilon> rest e \<noteq> None"
  by (auto simp: arm_set_def split_def Let_def
      dest: instant_add_millis [OF assms set_ttl_range] split: sum.splits option.splits)

lemma arm_pexpire_answers:
  assumes "env_now \<epsilon> < 2 ^ 62 * nanos_per_sec"
  shows "arm_expire \<epsilon> ''PEXPIRE'' rest e \<noteq> None"
  by (auto simp: arm_expire_def split_def Let_def
      dest: instant_add_millis [OF assms parse_i64_arg_range] split: option.splits)

lemma arm_expire_None:
  "arm_expire \<epsilon> ''EXPIRE'' rest e = None \<longleftrightarrow>
   2 \<le> length rest \<and> (\<exists>secs. parse_i64_arg (rest ! 1) = Some secs
     \<and> instant_add (env_now \<epsilon>) (nat (max secs 0) * nanos_per_sec) = None)"
  by (auto simp: arm_expire_def split_def Let_def split: option.splits)

lemma setrange_None:
  "fst (setrange \<epsilon> key offset val e) = None \<longleftrightarrow>
    val \<noteq> [] \<and> isize_max < offset + length val
    \<and> (case live \<epsilon> e key of Some (v, _) \<Rightarrow> type_name v = ''string'' | None \<Rightarrow> True)"
proof (cases "live \<epsilon> e key")
  case None
  then show ?thesis by (simp add: setrange_def engine_results Let_def split_def)
next
  case (Some p)
  then show ?thesis
    by (cases p, cases "fst p") (simp_all add: setrange_def engine_results Let_def split_def)
qed

lemma arm_setrange_None:
  "arm_setrange \<epsilon> rest e = None \<longleftrightarrow>
   3 \<le> length rest \<and> (\<exists>offset. parse_i64_arg (rest ! 1) = Some offset \<and> 0 \<le> offset
     \<and> rest ! 2 \<noteq> [] \<and> isize_max < nat offset + length (rest ! 2)
     \<and> (case live \<epsilon> e (rest ! 0) of Some (v, _) \<Rightarrow> type_name v = ''string'' | None \<Rightarrow> True))"
proof -
  have "(case p of (None, e1) \<Rightarrow> None | (Some r, e1) \<Rightarrow> reply count_reply (r, e1)) = None
      \<longleftrightarrow> fst p = None" for p :: "(engine_error + nat) option \<times> 'a engine"
    by (cases p) (simp split: option.split)
  then show ?thesis by (auto simp: arm_setrange_def setrange_None not_less)
qed

lemmas answering_arms =
  arm_get_def arm_del_def arm_exists_def arm_append_def arm_strlen_def arm_getrange_def
  arm_incr_def arm_decr_def arm_incrby_def arm_getset_def arm_mset_def arm_mget_def
  arm_msetnx_def arm_hset_def arm_hget_def arm_hdel_def arm_hgetall_def arm_hscan_def
  arm_hexists_def arm_hlen_def arm_hincrby_def arm_hkeys_def arm_hvals_def arm_hmget_def
  arm_hsetnx_def arm_rpush_def arm_lpush_def arm_rpop_def arm_lpop_def arm_lmove_def
  arm_rpoplpush_def arm_blmove_def arm_brpoplpush_def arm_blpop_def arm_brpop_def arm_llen_def
  arm_lrange_def arm_lindex_def arm_lset_def arm_ltrim_def arm_lrem_def arm_linsert_def
  arm_sadd_def arm_srem_def arm_smembers_def arm_sscan_def arm_sismember_def arm_scard_def
  arm_sinter_def arm_sunion_def arm_sdiff_def arm_sinterstore_def arm_sunionstore_def
  arm_sdiffstore_def arm_spop_def arm_srandmember_def arm_zadd_def arm_zscore_def arm_zrem_def
  arm_zcard_def arm_zincrby_def arm_zrange_def arm_zrank_def arm_rename_def arm_renamenx_def
  arm_type_def arm_keys_def arm_scan_def arm_randomkey_def arm_dbsize_def arm_expireat_def
  arm_ttl_def arm_pttl_def arm_persist_def arm_ping_def arm_echo_def arm_select_def
  arm_command_def arm_memory_def arm_object_def arm_debug_def

lemma arms_answer:
  assumes "env_now \<epsilon> < 2 ^ 62 * nanos_per_sec"
  shows "list_all (\<lambda>(name, arm). name = ''EXPIRE'' \<or> name = ''SETRANGE'' \<or> (\<forall>rest e. arm rest e \<noteq> None))
    (arms F \<epsilon>)"
  unfolding arms_def list.pred_inject(2) prod.case
  by (intro conjI list.pred_inject(1);
      ((simp; fail)
       | (rule disjI2, rule disjI2, intro allI,
          (rule arm_set_answers [OF assms] arm_pexpire_answers [OF assms]
           | (simp add: answering_arms Let_def split_def del: not_None_eq
                split: option.split sum.split; fail)))))

lemma dispatch_None:
  "dispatch F \<epsilon> frame e = None \<longleftrightarrow>
   (\<exists>n rest name arm. frame = FArray (map FBulk (n # rest)) \<and> upper_name n = Some name
      \<and> map_of (arms F \<epsilon>) name = Some arm \<and> arm rest e = None)"
proof (cases "frame_to_args frame")
  case (Inl err)
  then have "frame \<noteq> FArray (map FBulk (n # rest))" for n rest by auto
  with Inl show ?thesis by (simp add: dispatch_def)
next
  case (Inr args)
  then have frame: "frame = FArray (map FBulk args)" by (rule frame_to_args_Inr)
  have inj: "map FBulk args = map FBulk xs \<longleftrightarrow> args = xs" for xs
    by (simp add: inj_map_eq_map inj_on_def)
  show ?thesis
    unfolding frame frame.inject inj using Inr frame
    by (auto simp: dispatch_def split: list.split option.splits)
qed

lemma panicking_arms:
  "map_of (arms F \<epsilon>) ''EXPIRE'' = Some (arm_expire \<epsilon> ''EXPIRE'')"
  "map_of (arms F \<epsilon>) ''SETRANGE'' = Some (arm_setrange \<epsilon>)"
  by (simp_all add: arms_def)

lemma panicking_names:
  assumes "env_now \<epsilon> < 2 ^ 62 * nanos_per_sec" and "map_of (arms F \<epsilon>) name = Some arm"
    and "arm rest e = None"
  shows "name = ''EXPIRE'' \<or> name = ''SETRANGE''"
  using arms_answer [OF assms(1), of F, unfolded list_all_iff] map_of_SomeD [OF assms(2)] assms(3)
  by blast

lemma dispatch_panics:
  assumes "env_now \<epsilon> < 2 ^ 62 * nanos_per_sec"
  shows "dispatch F \<epsilon> frame e = None \<longleftrightarrow>
    (\<exists>n rest. frame = FArray (map FBulk (n # rest)) \<and>
       (upper_name n = Some ''EXPIRE'' \<and> arm_expire \<epsilon> ''EXPIRE'' rest e = None
        \<or> upper_name n = Some ''SETRANGE'' \<and> arm_setrange \<epsilon> rest e = None))"
    (is "_ \<longleftrightarrow> ?panic")
proof
  assume "dispatch F \<epsilon> frame e = None"
  then obtain n rest name arm where "frame = FArray (map FBulk (n # rest))"
    and "upper_name n = Some name" and "map_of (arms F \<epsilon>) name = Some arm" and "arm rest e = None"
    unfolding dispatch_None by blast
  then show ?panic using panicking_names [OF assms] panicking_arms [of F \<epsilon>] by fastforce
next
  assume ?panic
  then show "dispatch F \<epsilon> frame e = None"
    unfolding dispatch_None using panicking_arms [of F \<epsilon>] by blast
qed



end
