(* ===== verification/Rm_Log.thy ===== *)
theory Rm_Log
  imports Rm_Dispatch Rm_Snapshot Rm_Cluster
begin

text \<open>
  The append-only log: what \<open>dispatch_and_log_gated\<close> of \<open>crates/server/src/dispatcher.rs\<close> appends for
  a command, the grouping of the logged frames into transactions
  (\<open>crates/server/src/transaction_grouping.rs\<close>), and the replay and the recovery of
  \<open>crates/server/src/aof.rs\<close>. A file is its bytes, and the file system a partial function from paths
  to files; an error of the operating system other than a missing file is left out. The clock is
  read once for every replayed command. A replay that does not return, because a handler panics, is
  \<^term>\<open>None\<close>.
\<close>

section \<open>What a command logs\<close>

definition saturating_add_i64 :: "int \<Rightarrow> int \<Rightarrow> int" where
  "saturating_add_i64 a b = max (- (2 ^ 63)) (min (2 ^ 63 - 1) (a + b))"

definition pexpireat_frame :: "bytes \<Rightarrow> int \<Rightarrow> frame" where
  "pexpireat_frame key target_unix_ms = FArray [FBulk ''PEXPIREAT'', FBulk key, FBulk (show_int target_unix_ms)]"

fun rewrite_expire_family_to_pexpireat :: "env \<Rightarrow> frame list \<Rightarrow> frame option" where
  "rewrite_expire_family_to_pexpireat \<epsilon> (FBulk name # FBulk key # FBulk arg # _) =
     (case parse_i64_arg arg of
        None \<Rightarrow> None
      | Some n \<Rightarrow>
          (let name_upper = ascii_uppercase (utf8_lossy name);
               now_ms = now_unix_ms \<epsilon>
           in if name_upper = ''EXPIRE'' then
                Some (pexpireat_frame key (saturating_add_i64 now_ms (saturating_mul_i64 n 1000)))
              else if name_upper = ''PEXPIRE'' then
                Some (pexpireat_frame key (saturating_add_i64 now_ms n))
              else if name_upper = ''EXPIREAT'' then
                Some (pexpireat_frame key (saturating_mul_i64 n 1000))
              else if name_upper = ''PEXPIREAT'' then Some (pexpireat_frame key n)
              else None))"
| "rewrite_expire_family_to_pexpireat \<epsilon> _ = None"

text \<open>
  The first two passes over the flags of \<open>SET\<close>: the argument of the first flag of that name, if
  there is one; the outer \<^term>\<open>None\<close> is the early return on a malformed argument.
\<close>

fun find_ttl :: "bytes \<Rightarrow> frame list \<Rightarrow> int option option" where
  "find_ttl flag [] = Some None"
| "find_ttl flag (FBulk raw # rest) =
     (if ascii_uppercase (utf8_lossy raw) = flag then
        (case rest of
           FBulk v # _ \<Rightarrow> (case parse_i64_arg v of None \<Rightarrow> None | Some n \<Rightarrow> Some (Some n))
         | _ \<Rightarrow> None)
      else find_ttl flag rest)"
| "find_ttl flag (_ # rest) = find_ttl flag rest"

text \<open>The third pass: the command without its expiry flags and their arguments.\<close>

fun keep_flags :: "frame list \<Rightarrow> frame list" where
  "keep_flags [] = []"
| "keep_flags (FBulk raw # rest) =
     (if ascii_uppercase (utf8_lossy raw) = ''EX'' \<or> ascii_uppercase (utf8_lossy raw) = ''PX''
      then keep_flags (drop 1 rest) else FBulk raw # keep_flags rest)"
| "keep_flags (f # rest) = f # keep_flags rest"

definition rewrite_set_ttl_to_pexpireat :: "env \<Rightarrow> frame list \<Rightarrow> frame list option" where
  "rewrite_set_ttl_to_pexpireat \<epsilon> items =
     (if length items < 3 then None
      else case items ! 1 of
          FBulk key \<Rightarrow>
            (case find_ttl ''EX'' (drop 3 items) of
               None \<Rightarrow> None
             | Some ex \<Rightarrow>
                 (case (case ex of
                          Some n \<Rightarrow> Some (Some (saturating_mul_i64 n 1000))
                        | None \<Rightarrow> find_ttl ''PX'' (drop 3 items)) of
                    None \<Rightarrow> None
                  | Some None \<Rightarrow> None
                  | Some (Some ttl_ms) \<Rightarrow>
                      Some [FArray (take 3 items @ keep_flags (drop 3 items)),
                            pexpireat_frame key (saturating_add_i64 (now_unix_ms \<epsilon>) ttl_ms)]))
        | _ \<Rightarrow> None)"

definition to_log :: "env \<Rightarrow> bytes \<Rightarrow> frame list \<Rightarrow> frame \<Rightarrow> frame list" where
  "to_log \<epsilon> name items answer =
     (let original_frame = FArray items
      in if name = ''SPOP'' then
           (case (answer, items) of
              (FBulk member, _ # key # _) \<Rightarrow> [FArray [FBulk ''SREM'', key, FBulk member]]
            | _ \<Rightarrow> [])
         else if name \<in> set [''EXPIRE'', ''PEXPIRE'', ''EXPIREAT'', ''PEXPIREAT''] then
           (if answer = FInteger 1
            then (case rewrite_expire_family_to_pexpireat \<epsilon> items of Some f \<Rightarrow> [f] | None \<Rightarrow> [])
            else [])
         else if name = ''SET'' then
           (case answer of
              FSimple _ \<Rightarrow>
                (case rewrite_set_ttl_to_pexpireat \<epsilon> items of Some fs \<Rightarrow> fs | None \<Rightarrow> [original_frame])
            | _ \<Rightarrow> [original_frame])
         else if name \<in> set [''BLMOVE'', ''BRPOPLPUSH'', ''BLPOP'', ''BRPOP''] then
           (if answer = FNull then [] else [original_frame])
         else [original_frame])"

text \<open>
  The write path of \<open>dispatch_and_log_gated\<close>, after every interception: dispatch the frame, and
  unless the reply is an error or the command is no write, the frames to append and to broadcast.
\<close>

definition dispatch_write_path ::
  "('f::{linorder,plus,zero}) float_ops \<Rightarrow> env \<Rightarrow> frame \<Rightarrow> 'f engine
   \<Rightarrow> (frame \<times> frame list \<times> 'f engine) option" where
  "dispatch_write_path F \<epsilon> frame e =
     (case dispatch F \<epsilon> frame e of
        None \<Rightarrow> None
      | Some (answer, e') \<Rightarrow>
          Some (answer,
                (case (answer, extract_write_command_name frame, frame) of
                   (FError _, _, _) \<Rightarrow> []
                 | (_, Some name, FArray items) \<Rightarrow> to_log \<epsilon> name items answer
                 | _ \<Rightarrow> []), e'))"

section \<open>Grouping\<close>

fun marker :: "frame \<Rightarrow> bytes option" where
  "marker (FArray [FBulk name_bytes]) =
     (case upper_name name_bytes of
        Some name \<Rightarrow> if name = ''MULTI'' \<or> name = ''EXEC'' then Some name else None
      | None \<Rightarrow> None)"
| "marker _ = None"

record transaction_grouper =
  grp_buffer :: "frame list option"

definition grouper_new :: transaction_grouper where
  "grouper_new = \<lparr>grp_buffer = None\<rparr>"

definition is_mid_transaction :: "transaction_grouper \<Rightarrow> bool" where
  "is_mid_transaction g \<longleftrightarrow> grp_buffer g \<noteq> None"

definition feed :: "frame \<Rightarrow> transaction_grouper \<Rightarrow> (string + frame list) \<times> transaction_grouper" where
  "feed frame g =
     (if marker frame = Some ''MULTI'' then
        (if grp_buffer g \<noteq> None then (Inl ''MULTI seen while already buffering a transaction'', g)
         else (Inr [], g\<lparr>grp_buffer := Some []\<rparr>))
      else if marker frame = Some ''EXEC'' then
        (case grp_buffer g of
           Some b \<Rightarrow> (Inr b, g\<lparr>grp_buffer := None\<rparr>)
         | None \<Rightarrow> (Inl ''EXEC seen with no matching MULTI'', g))
      else
        (case grp_buffer g of
           Some b \<Rightarrow> (Inr [], g\<lparr>grp_buffer := Some (b @ [frame])\<rparr>)
         | None \<Rightarrow> (Inr [frame], g)))"

section \<open>Replay\<close>

record 'f replay_state =
  rp_engine :: "'f engine"
  rp_grouper :: transaction_grouper
  rp_consumed :: nat
  rp_valid :: nat
  rp_commands :: nat

fun replay_apply ::
  "('f::{linorder,plus,zero}) float_ops \<Rightarrow> (nat \<Rightarrow> env) \<Rightarrow> frame list \<Rightarrow> 'f replay_state
   \<Rightarrow> 'f replay_state option" where
  "replay_apply F clk [] s = Some s"
| "replay_apply F clk (f # fs) s =
     (case dispatch F (clk (rp_commands s)) f (rp_engine s) of
        None \<Rightarrow> None
      | Some (_, e') \<Rightarrow>
          replay_apply F clk fs (s\<lparr>rp_engine := e', rp_commands := rp_commands s + 1\<rparr>))"

partial_function (option) replay_loop ::
  "('f::{linorder,plus,zero}) float_ops \<Rightarrow> (nat \<Rightarrow> env) \<Rightarrow> bytes \<Rightarrow> 'f replay_state
   \<Rightarrow> ('f replay_state \<times> string) option" where
  "replay_loop F clk buf s =
     (case resp_decode buf of
        (Done (Some frame), rest) \<Rightarrow>
          (let s1 = s\<lparr>rp_consumed := rp_consumed s + (length buf - length rest)\<rparr>
           in case feed frame (rp_grouper s1) of
                (Inl reason, g) \<Rightarrow> Some (s1\<lparr>rp_grouper := g\<rparr>, ''corrupt'')
              | (Inr to_apply, g) \<Rightarrow>
                  (let s2 = s1\<lparr>rp_grouper := g,
                               rp_valid := (if \<not> is_mid_transaction g then rp_consumed s1 else rp_valid s1)\<rparr>
                   in case replay_apply F clk to_apply s2 of
                        None \<Rightarrow> None
                      | Some s3 \<Rightarrow> replay_loop F clk rest s3))
      | (Done None, rest) \<Rightarrow> Some (s, ''incomplete'')
      | (Failed _, rest) \<Rightarrow> Some (s, ''corrupt'')
      | (Panicked, rest) \<Rightarrow> None)"

record replay_stats =
  st_commands :: nat
  st_bytes :: nat

text \<open>The statistics, the engine after the replay, and the file, cut to its last complete record.\<close>

definition replay_with_stats ::
  "('f::{linorder,plus,zero}) float_ops \<Rightarrow> (nat \<Rightarrow> env) \<Rightarrow> bytes option \<Rightarrow> nat \<Rightarrow> 'f engine
   \<Rightarrow> (replay_stats \<times> 'f engine \<times> bytes option) option" where
  "replay_with_stats F clk file start_at e =
     (case file of
        None \<Rightarrow> Some (\<lparr>st_commands = 0, st_bytes = 0\<rparr>, e, None)
      | Some raw \<Rightarrow>
          (let start = min start_at (length raw)
           in case replay_loop F clk (drop start raw)
                     \<lparr>rp_engine = e, rp_grouper = grouper_new, rp_consumed = start, rp_valid = start,
                      rp_commands = 0\<rparr> of
                None \<Rightarrow> None
              | Some (s, _) \<Rightarrow>
                  Some (\<lparr>st_commands = rp_commands s, st_bytes = rp_valid s - start\<rparr>, rp_engine s,
                        Some (if rp_valid s < length raw then take (rp_valid s) raw else raw))))"

section \<open>Generations and recovery\<close>

type_synonym path = string
type_synonym filesystem = "path \<Rightarrow> bytes option"

definition manifest_path :: "path \<Rightarrow> path" where
  "manifest_path snapshot_path = snapshot_path @ ''.manifest''"

definition generation_path :: "path \<Rightarrow> nat \<Rightarrow> path" where
  "generation_path base gen = (if gen = 0 then base else base @ ''.'' @ show_nat gen)"

definition read_generation :: "filesystem \<Rightarrow> path \<Rightarrow> string + nat" where
  "read_generation fs snapshot_path =
     (case fs (manifest_path snapshot_path) of
        None \<Rightarrow> Inr 0
      | Some contents \<Rightarrow>
          if \<not> utf8_valid contents then Inl ''stream did not contain valid UTF-8''
          else case parse_u64 (trim contents) of
              None \<Rightarrow> Inl ''invalid digit found in string''
            | Some gen \<Rightarrow> Inr gen)"

definition recover ::
  "('f::{linorder,plus,zero}) float_ops \<Rightarrow> (bytes \<Rightarrow> string + 'f serializable_entry list) \<Rightarrow> env
   \<Rightarrow> (nat \<Rightarrow> env) \<Rightarrow> filesystem \<Rightarrow> path \<Rightarrow> path \<Rightarrow> (string + 'f engine \<times> filesystem) option" where
  "recover F dec \<epsilon> clk fs aof_path snapshot_path =
     (case read_generation fs snapshot_path of
        Inl err \<Rightarrow> Some (Inl err)
      | Inr gen \<Rightarrow>
          (let aof = generation_path aof_path gen;
               snap = generation_path snapshot_path gen;
               replay = (\<lambda>e start_at.
                 case replay_with_stats F clk (fs aof) start_at e of
                   None \<Rightarrow> None
                 | Some (_, e', file) \<Rightarrow> Some (Inr (e', fs(aof := file))))
           in case fs snap of
                None \<Rightarrow> replay (engine_new \<epsilon>) 0
              | Some blob \<Rightarrow>
                  (case engine_load_snapshot dec \<epsilon> blob (engine_new \<epsilon>) of
                     (Inr offset, e1) \<Rightarrow>
                       (case fs aof of
                          None \<Rightarrow> Some (Inr (e1, fs))
                        | Some raw \<Rightarrow>
                            if unat offset > length raw then replay (engine_new \<epsilon>) 0
                            else replay e1 (unat offset))
                   | (Inl _, e1) \<Rightarrow> replay e1 0)))"

text \<open>
  \<open>BGREWRITEAOF\<close> as the changes it makes on disk, one at a time: the new log is created (or kept, if
  an earlier rewrite left one), the snapshot and the manifest are each written to a temporary file
  that is renamed over its target, and the files of the old generation are removed. The writer
  appends to the new log from the first change on.
\<close>

definition rename_file :: "path \<Rightarrow> path \<Rightarrow> filesystem \<Rightarrow> filesystem" where
  "rename_file tmp target fs = fs(target := fs tmp, tmp := None)"

definition rotate_to :: "path \<Rightarrow> filesystem \<Rightarrow> filesystem" where
  "rotate_to new_path fs = fs(new_path := Some (case fs new_path of None \<Rightarrow> [] | Some b \<Rightarrow> b))"

definition append_encoded :: "path \<Rightarrow> bytes \<Rightarrow> filesystem \<Rightarrow> filesystem" where
  "append_encoded p b fs = fs(p := Some ((case fs p of None \<Rightarrow> [] | Some old \<Rightarrow> old) @ b))"

definition write_tmp :: "path \<Rightarrow> bytes \<Rightarrow> filesystem \<Rightarrow> filesystem" where
  "write_tmp target b fs = fs(target @ ''.tmp'' := Some b)"

definition commit_tmp :: "path \<Rightarrow> filesystem \<Rightarrow> filesystem" where
  "commit_tmp target fs = rename_file (target @ ''.tmp'') target fs"

definition rewrite_steps ::
  "path \<Rightarrow> path \<Rightarrow> nat \<Rightarrow> bytes \<Rightarrow> (filesystem \<Rightarrow> filesystem) list" where
  "rewrite_steps aof_path snapshot_path current_gen blob =
     (let next_gen = current_gen + 1;
          new_snapshot = generation_path snapshot_path next_gen;
          manifest = manifest_path snapshot_path
      in [rotate_to (generation_path aof_path next_gen),
          write_tmp new_snapshot blob, commit_tmp new_snapshot,
          write_tmp manifest (show_nat next_gen), commit_tmp manifest,
          (\<lambda>fs. fs(generation_path aof_path current_gen := None)),
          (\<lambda>fs. fs(generation_path snapshot_path current_gen := None))])"

end
