(* ===== verification/Rm_Recover.thy ===== *)
theory Rm_Recover
  imports Rm_Log Rm_Answer "HOL-Library.Sublist"
begin

text \<open>
  What a restart recovers. The replay of a log that was cut anywhere applies the commands of the
  frames that survived in full, with the commands of a transaction applied all together once its
  end marker survived, and not at all otherwise.
\<close>

section \<open>The replay of frames\<close>

text \<open>The frames that lie entirely within the first \<open>n\<close> bytes of the log.\<close>

fun whole :: "nat \<Rightarrow> frame list \<Rightarrow> frame list" where
  "whole n [] = []"
| "whole n (f # fs) = (if length (enc f) \<le> n then f # whole (n - length (enc f)) fs else [])"

lemma prefix_whole: "prefix (whole n fs) fs"
  by (induction n fs rule: whole.induct) auto

lemma whole_all: "length (concat (map enc fs)) \<le> n \<Longrightarrow> whole n fs = fs"
  by (induction n fs rule: whole.induct) auto

lemma prefix_enc_whole: "prefix (concat (map enc (whole n fs))) (take n (concat (map enc fs)))"
  by (induction n fs rule: whole.induct) auto

text \<open>The commands of the closed units: what stands outside transactions or in one that ended.\<close>

fun committed_from :: "frame list option \<Rightarrow> frame list \<Rightarrow> frame list" where
  "committed_from b [] = []"
| "committed_from None (f # fs) =
     (if marker f = Some ''MULTI'' then committed_from (Some []) fs
      else if marker f = Some ''EXEC'' then [] else f # committed_from None fs)"
| "committed_from (Some b) (f # fs) =
     (if marker f = Some ''MULTI'' then []
      else if marker f = Some ''EXEC'' then b @ committed_from None fs
      else committed_from (Some (b @ [f])) fs)"

definition committed :: "frame list \<Rightarrow> frame list" where
  "committed = committed_from None"

lemma committed_from_prefix: "prefix fs' fs \<Longrightarrow> prefix (committed_from b fs') (committed_from b fs)"
proof (induction b fs arbitrary: fs' rule: committed_from.induct)
  case (2 f fs)
  then show ?case by (cases fs') auto
next
  case (3 b f fs)
  then show ?case by (cases fs') auto
qed simp

text \<open>The frames of the closed units, with their markers; the first argument is the open unit.\<close>

fun settled_from :: "frame list option \<Rightarrow> frame list \<Rightarrow> frame list" where
  "settled_from u [] = []"
| "settled_from None (f # fs) =
     (if marker f = Some ''MULTI'' then settled_from (Some [f]) fs
      else if marker f = Some ''EXEC'' then [] else f # settled_from None fs)"
| "settled_from (Some u) (f # fs) =
     (if marker f = Some ''MULTI'' then []
      else if marker f = Some ''EXEC'' then u @ f # settled_from None fs
      else settled_from (Some (u @ [f])) fs)"

definition settled :: "frame list \<Rightarrow> frame list" where
  "settled = settled_from None"

abbreviation open_unit :: "frame list option \<Rightarrow> frame list" where
  "open_unit u \<equiv> (case u of None \<Rightarrow> [] | Some u' \<Rightarrow> u')"

lemma prefix_settled_from: "prefix (settled_from u fs) (open_unit u @ fs)"
  by (induction u fs rule: settled_from.induct) auto

lemma marker_cases: "marker f = None \<or> marker f = Some ''MULTI'' \<or> marker f = Some ''EXEC''"
  by (cases f rule: marker.cases) (auto split: option.split)

lemma committed_settled:
  "committed_from (map_option (filter (\<lambda>f. marker f = None)) u) fs =
     filter (\<lambda>f. marker f = None) (settled_from u fs)"
proof (induction u fs rule: settled_from.induct)
  case (2 f fs)
  then show ?case using marker_cases [of f] by auto
next
  case (3 u f fs)
  then show ?case using marker_cases [of f] by auto
qed simp

text \<open>Commands dispatched one after the other, the clock being read for each.\<close>

fun apply_commands ::
  "('f::{linorder,plus,zero}) float_ops \<Rightarrow> (nat \<Rightarrow> env) \<Rightarrow> nat \<Rightarrow> frame list \<Rightarrow> 'f engine \<Rightarrow> 'f engine option" where
  "apply_commands F clk i [] e = Some e"
| "apply_commands F clk i (f # fs) e =
     (case dispatch F (clk i) f e of None \<Rightarrow> None | Some (_, e') \<Rightarrow> apply_commands F clk (Suc i) fs e')"

lemma apply_commands_append:
  "apply_commands F clk i (fs @ gs) e =
     (case apply_commands F clk i fs e of
        None \<Rightarrow> None | Some e' \<Rightarrow> apply_commands F clk (i + length fs) gs e')"
  by (induction fs arbitrary: i e) (auto split: option.split)

lemma replay_apply_commands:
  "replay_apply F clk fs s =
     map_option (\<lambda>e'. s\<lparr>rp_engine := e', rp_commands := rp_commands s + length fs\<rparr>)
       (apply_commands F clk (rp_commands s) fs (rp_engine s))"
  by (induction fs arbitrary: s) (auto split: option.split)

text \<open>The loop of the replay on the frames of the log.\<close>

fun replay_frames ::
  "('f::{linorder,plus,zero}) float_ops \<Rightarrow> (nat \<Rightarrow> env) \<Rightarrow> frame list \<Rightarrow> 'f replay_state
   \<Rightarrow> ('f replay_state \<times> string) option" where
  "replay_frames F clk [] s = Some (s, ''incomplete'')"
| "replay_frames F clk (f # fs) s =
     (let s1 = s\<lparr>rp_consumed := rp_consumed s + length (enc f)\<rparr>
      in case feed f (rp_grouper s1) of
           (Inl reason, g) \<Rightarrow> Some (s1\<lparr>rp_grouper := g\<rparr>, ''corrupt'')
         | (Inr to_apply, g) \<Rightarrow>
             (let s2 = s1\<lparr>rp_grouper := g,
                          rp_valid := (if \<not> is_mid_transaction g then rp_consumed s1 else rp_valid s1)\<rparr>
              in case replay_apply F clk to_apply s2 of
                   None \<Rightarrow> None
                 | Some s3 \<Rightarrow> replay_frames F clk fs s3))"

definition loggable :: "frame \<Rightarrow> bool" where
  "loggable f \<longleftrightarrow> sendable f \<and> resp2_view f = f"

lemma loggable_bulks [simp]: "loggable (FArray (map FBulk args))"
  by (auto simp: loggable_def)

lemma decode_loggable:
  assumes "loggable f" and "buffered (enc f @ r)"
  shows "resp_decode (enc f @ r) = (Done (Some f), r)"
  using sendable_reads_back [of f] assms by (simp add: loggable_def reads_back_def resp_decode_def)

lemma decode_cut:
  assumes "loggable f" and "buffered (enc f)" and "n < length (enc f)"
  shows "resp_decode (take n (enc f)) = (Done None, take n (enc f))"
  using sendable_reads_back [of f] assms by (simp add: loggable_def reads_back_def resp_decode_def)

lemma replay_loop_frames:
  assumes "\<forall>f \<in> set fs. loggable f" and "buffered (concat (map enc fs))"
  shows "replay_loop F clk (take n (concat (map enc fs))) s = replay_frames F clk (whole n fs) s"
  using assms
proof (induction fs arbitrary: n s)
  case Nil
  then show ?case by (subst replay_loop.simps) (simp add: resp_decode_def)
next
  case (Cons f fs)
  show ?case
  proof (cases "length (enc f) \<le> n")
    case True
    define r where "r = take (n - length (enc f)) (concat (map enc fs))"
    have "resp_decode (enc f @ r) = (Done (Some f), r)"
      using Cons.prems unfolding r_def by (intro decode_loggable) auto
    moreover have "take n (concat (map enc (f # fs))) = enc f @ r" using True by (simp add: r_def)
    moreover have "replay_loop F clk r s' = replay_frames F clk (whole (n - length (enc f)) fs) s'" for s'
      using Cons.prems unfolding r_def by (intro Cons.IH) auto
    ultimately show ?thesis
      using True by (subst replay_loop.simps) (simp add: Let_def split: prod.split sum.split option.split)
  next
    case False
    then have "resp_decode (take n (enc f)) = (Done None, take n (enc f))"
      using Cons.prems by (intro decode_cut) auto
    with False show ?thesis by (subst replay_loop.simps) simp
  qed
qed

lemma replay_frames_committed:
  "map_option (\<lambda>(s', _). (rp_engine s', rp_commands s')) (replay_frames F clk fs s) =
   (let cs = committed_from (grp_buffer (rp_grouper s)) fs
    in map_option (\<lambda>e'. (e', rp_commands s + length cs))
         (apply_commands F clk (rp_commands s) cs (rp_engine s)))"
proof (induction fs arbitrary: s)
  case Nil
  then show ?case by simp
next
  case (Cons f fs)
  show ?case
    by (cases "grp_buffer (rp_grouper s)")
      (auto simp: Let_def feed_def replay_apply_commands apply_commands_append Cons.IH add.assoc
        split: option.split)
qed

lemma replay_frames_valid:
  assumes "replay_frames F clk fs s = Some (s', r)" and "grp_buffer (rp_grouper s) = None \<longleftrightarrow> u = None"
    and "rp_consumed s = rp_valid s + length (concat (map enc (open_unit u)))"
  shows "rp_valid s' = rp_valid s + length (concat (map enc (settled_from u fs)))"
  using assms
proof (induction fs arbitrary: s u)
  case (Cons f fs)
  obtain to_apply g where feed: "feed f (rp_grouper s) = (to_apply, g)" by force
  show ?case
  proof (cases to_apply)
    case (Inl err)
    with feed Cons.prems show ?thesis
      by (cases u) (auto simp: feed_def split: if_splits option.splits)
  next
    case (Inr cs)
    define s2 where "s2 = s\<lparr>rp_consumed := rp_consumed s + length (enc f), rp_grouper := g,
      rp_valid := (if \<not> is_mid_transaction g then rp_consumed s + length (enc f) else rp_valid s)\<rparr>"
    obtain s3 where s3: "replay_apply F clk cs s2 = Some s3" and run: "replay_frames F clk fs s3 = Some (s', r)"
      using Cons.prems(1) feed Inr by (auto simp: s2_def Let_def cong: if_cong split: option.splits)
    then have eqs: "rp_grouper s3 = g" "rp_consumed s3 = rp_consumed s2" "rp_valid s3 = rp_valid s2"
      by (auto simp: replay_apply_commands s2_def)
    define u' where "u' = (if is_mid_transaction g then Some (open_unit u @ [f]) else None)"
    have "rp_valid s' = rp_valid s3 + length (concat (map enc (settled_from u' fs)))"
      using Cons.prems(3) by (intro Cons.IH [OF run])
        (auto simp: eqs s2_def u'_def is_mid_transaction_def split: option.splits)
    moreover have "length (concat (map enc (settled_from u (f # fs)))) =
        (if is_mid_transaction g then 0 else length (concat (map enc (open_unit u))) + length (enc f))
        + length (concat (map enc (settled_from u' fs)))"
      using feed Inr Cons.prems(2)
      by (cases u) (auto simp: feed_def u'_def is_mid_transaction_def split: if_splits option.splits)
    ultimately show ?thesis using Cons.prems(3) by (simp add: eqs s2_def)
  qed
qed simp

lemma replay_log_prefix:
  assumes "\<forall>f \<in> set fs. loggable f" and "buffered (concat (map enc fs))"
    and "apply_commands F clk 0 (committed (whole n fs)) e = Some e'"
  shows "replay_with_stats F clk (Some (take n (concat (map enc fs)))) 0 e =
    Some (\<lparr>st_commands = length (committed (whole n fs)),
           st_bytes = length (concat (map enc (settled (whole n fs))))\<rparr>,
          e', Some (concat (map enc (settled (whole n fs)))))"
proof -
  let ?raw = "take n (concat (map enc fs))" and ?kept = "concat (map enc (settled (whole n fs)))"
  let ?s = "\<lparr>rp_engine = e, rp_grouper = grouper_new, rp_consumed = 0, rp_valid = 0, rp_commands = 0\<rparr>"
  have "map_option (\<lambda>(s', _). (rp_engine s', rp_commands s')) (replay_frames F clk (whole n fs) ?s) =
      Some (e', length (committed (whole n fs)))"
    using assms(3) unfolding replay_frames_committed
    by (simp add: grouper_new_def committed_def)
  then obtain s' r where run: "replay_frames F clk (whole n fs) ?s = Some (s', r)"
    and s': "rp_engine s' = e'" "rp_commands s' = length (committed (whole n fs))"
    by auto
  have valid: "rp_valid s' = length ?kept"
    using replay_frames_valid [OF run, of None] by (simp add: grouper_new_def settled_def)
  have "prefix (settled (whole n fs)) (whole n fs)"
    using prefix_settled_from [of None "whole n fs"] by (simp add: settled_def)
  then have "prefix ?kept (concat (map enc (whole n fs)))" by (metis prefix_def concat_append map_append)
  then obtain rest where raw: "?raw = ?kept @ rest" using prefix_enc_whole [of n fs] by (auto simp: prefix_def)
  then have cut: "(if rp_valid s' < length ?raw then take (rp_valid s') ?raw else ?raw) = ?kept"
    unfolding valid raw by simp
  show ?thesis
    using run s' valid cut by (simp add: replay_with_stats_def replay_loop_frames [OF assms(1,2)])
qed

section \<open>A restart after a crash\<close>

text \<open>
  C38: A restart recovers a prefix of what was logged, and transactions are all or nothing. If a
  crash cuts the log after any number of bytes, the replay returns, cuts the file back to the frames
  of the units that are complete before the cut (a command, or a transaction with both its markers),
  and leaves the engine that the commands of these units lead to. These commands are a prefix of
  those of the full log, and all of them when nothing was cut off.
\<close>

theorem replay_recovers_prefix:
  assumes "\<forall>f \<in> set fs. loggable f" and "length (concat (map (resp_encode Resp2) fs)) < 2 ^ 62"
    and "apply_commands F clk 0 (committed (whole n fs)) e = Some e'"
  shows "(let kept = concat (map (resp_encode Resp2) (settled (whole n fs)))
     in replay_with_stats F clk (Some (take n (concat (map (resp_encode Resp2) fs)))) 0 e =
          Some (\<lparr>st_commands = length (committed (whole n fs)), st_bytes = length kept\<rparr>, e', Some kept))
    \<and> committed (whole n fs) = filter (\<lambda>f. marker f = None) (settled (whole n fs))
    \<and> prefix (settled (whole n fs)) (whole n fs)
    \<and> prefix (committed (whole n fs)) (committed fs)
    \<and> (length (concat (map (resp_encode Resp2) fs)) \<le> n \<longrightarrow> whole n fs = fs)"
  using replay_log_prefix [OF assms] committed_settled [of None] prefix_settled_from [of None]
    committed_from_prefix [OF prefix_whole, of None n fs] whole_all [of fs n]
  by (simp add: Let_def committed_def settled_def)

text \<open>A log of a plain command and of a transaction whose end marker was cut off.\<close>

theorem replay_recovers_prefix_witness:
  "let fs = map sample_command [[''set'', ''a'', ''1''], [''MULTI''], [''set'', ''b'', ''2''], [''EXEC'']];
       log = concat (map (resp_encode Resp2) fs)
   in \<exists>stats file. replay_with_stats sample_floats (\<lambda>_. sample_env) (Some (take 60 log)) 0
            (engine_new sample_env) =
          Some (stats, engine_set sample_env ''a'' (VString ''1'') (engine_new sample_env), Some file)
        \<and> st_commands stats = 1"
proof -
  let ?fs = "map sample_command [[''set'', ''a'', ''1''], [''MULTI''], [''set'', ''b'', ''2''], [''EXEC'']]"
  have c: "committed (whole 60 ?fs) = [sample_command [''set'', ''a'', ''1'']]" by code_simp
  have "length (concat (map (resp_encode Resp2) ?fs)) = 83" by code_simp
  then have len: "length (concat (map (resp_encode Resp2) ?fs)) < 2 ^ 62" by (simp only:) simp
  have run: "apply_commands sample_floats (\<lambda>_. sample_env) 0 (committed (whole 60 ?fs))
      (engine_new sample_env) = Some (engine_set sample_env ''a'' (VString ''1'') (engine_new sample_env))"
    unfolding c by (simp add: dispatch_set_plain del: list.map)
  have log: "\<forall>f \<in> set ?fs. loggable f" by (simp add: loggable_def)
  from replay_recovers_prefix [OF log len run] show ?thesis
    unfolding Let_def c by (auto simp del: list.map)
qed

section \<open>The replay of any file\<close>

lemma decode_rest:
  assumes "buffered buf" and "resp_decode buf = (Done (Some f), rest)"
  shows "\<exists>n > 0. n \<le> length buf \<and> rest = drop n buf"
proof -
  obtain n where n: "parse_frame buf = Done (Some (f, n))" "rest = drop n buf"
    using assms(2) by (auto simp: resp_decode_def split: outcome.splits option.splits)
  with parse_consumed(1) [OF assms(1) n(1)] show ?thesis by (auto intro!: exI [of _ n])
qed

lemma feed_frames:
  assumes "feed f g = (Inr cs, g')"
  shows "set cs \<union> set (open_unit (grp_buffer g')) \<subseteq> insert f (set (open_unit (grp_buffer g)))"
  using assms by (auto simp: feed_def split: if_splits option.splits)

definition answered :: "('f::{linorder,plus,zero}) float_ops \<Rightarrow> (nat \<Rightarrow> env) \<Rightarrow> frame \<Rightarrow> bool" where
  "answered F clk f \<longleftrightarrow> (\<forall>i e. dispatch F (clk i) f e \<noteq> None)"

lemma apply_commands_returns:
  "\<forall>f \<in> set fs. answered F clk f \<Longrightarrow> \<exists>e'. apply_commands F clk i fs e = Some e'"
proof (induction fs arbitrary: i e)
  case (Cons f fs)
  then obtain r e1 where "dispatch F (clk i) f e = Some (r, e1)" by (fastforce simp: answered_def)
  with Cons show ?case by simp
qed simp

text \<open>Every frame that can be read from some position on is one that the dispatcher answers.\<close>

definition replayable :: "('f::{linorder,plus,zero}) float_ops \<Rightarrow> (nat \<Rightarrow> env) \<Rightarrow> bytes \<Rightarrow> bool" where
  "replayable F clk buf \<longleftrightarrow>
     (\<forall>k. case fst (resp_decode (drop k buf)) of
        Done (Some f) \<Rightarrow> answered F clk f
      | Panicked \<Rightarrow> False
      | _ \<Rightarrow> True)"

lemma replayable_drop: "replayable F clk buf \<Longrightarrow> replayable F clk (drop n buf)"
  by (simp add: replayable_def)

lemma replayable_here:
  assumes "replayable F clk buf"
  shows "case fst (resp_decode buf) of
      Done (Some f) \<Rightarrow> answered F clk f | Panicked \<Rightarrow> False | _ \<Rightarrow> True"
  using assms unfolding replayable_def by (metis drop0)

lemma replay_loop_returns:
  assumes "buffered buf" and "replayable F clk buf" and "rp_valid s \<le> rp_consumed s"
    and "\<forall>f \<in> set (open_unit (grp_buffer (rp_grouper s))). answered F clk f"
  shows "\<exists>s' why. replay_loop F clk buf s = Some (s', why) \<and> rp_valid s \<le> rp_valid s'
    \<and> rp_valid s' \<le> rp_consumed s + length buf"
  using assms
proof (induction "length buf" arbitrary: buf s rule: less_induct)
  case less
  note here = replayable_here [OF less.prems(2)]
  show ?case
  proof (cases "\<exists>f rest. resp_decode buf = (Done (Some f), rest)")
    case False
    with here less.prems(3) show ?thesis
      by (subst replay_loop.simps) (auto split: prod.split outcome.splits option.splits)
  next
    case True
    then obtain f rest where dec: "resp_decode buf = (Done (Some f), rest)" by blast
    obtain n where n: "0 < n" "n \<le> length buf" "rest = drop n buf"
      using decode_rest [OF less.prems(1) dec] by blast
    define s1 where "s1 = s\<lparr>rp_consumed := rp_consumed s + (length buf - length rest)\<rparr>"
    obtain r g where feed: "feed f (rp_grouper s1) = (r, g)" by fastforce
    show ?thesis
    proof (cases r)
      case (Inl err)
      with dec feed less.prems(3) show ?thesis by (subst replay_loop.simps) (simp add: s1_def)
    next
      case (Inr cs)
      define s2 where "s2 = s1\<lparr>rp_grouper := g,
        rp_valid := (if \<not> is_mid_transaction g then rp_consumed s1 else rp_valid s1)\<rparr>"
      have fine: "\<forall>f \<in> set cs \<union> set (open_unit (grp_buffer g)). answered F clk f"
        using feed_frames [OF feed [unfolded Inr]] less.prems(4) here dec
        by (simp add: s1_def del: Un_subset_iff) blast
      then obtain e' where "apply_commands F clk (rp_commands s2) cs (rp_engine s2) = Some e'"
        using apply_commands_returns by blast
      then obtain s3 where s3: "replay_apply F clk cs s2 = Some s3"
        and same: "rp_grouper s3 = g" "rp_valid s3 = rp_valid s2" "rp_consumed s3 = rp_consumed s1"
        by (simp add: replay_apply_commands s2_def)
      have "\<exists>s' why. replay_loop F clk rest s3 = Some (s', why) \<and> rp_valid s3 \<le> rp_valid s'
          \<and> rp_valid s' \<le> rp_consumed s3 + length rest"
        using n less.prems fine
        by (intro less.hyps) (auto simp: same s2_def s1_def replayable_drop)
      moreover have "rp_valid s \<le> rp_valid s3" "rp_consumed s3 + length rest = rp_consumed s + length buf"
        using less.prems(3) n by (simp_all add: same s2_def s1_def)
      moreover have "replay_loop F clk buf s = replay_loop F clk rest s3"
        using dec feed Inr s3 by (subst replay_loop.simps) (simp add: Let_def s1_def s2_def cong: if_cong)
      ultimately show ?thesis by fastforce
    qed
  qed
qed


lemma answered_unless:
  assumes "\<forall>i. env_now (clk i) < 2 ^ 62 * nanos_per_sec"
    and "command_name_upper f \<notin> {Some ''EXPIRE'', Some ''SETRANGE''}"
  shows "answered F clk f"
  using assms by (auto simp: answered_def dispatch_panics simp del: not_None_eq)


end
