(* ===== verification/Rm_Rewrite.thy ===== *)
theory Rm_Rewrite
  imports Rm_Recover
begin

text \<open>
  \<open>BGREWRITEAOF\<close> under crashes. A crash is a stop between two changes on disk; what a restart then
  recovers depends on the manifest alone: the old generation until the new manifest is in place, and
  the new one from then on.
\<close>

section \<open>Paths\<close>

lemma show_nat_inj: "show_nat n = show_nat m \<longleftrightarrow> n = m"
  by (metis option.inject parse_nat_show_nat)

lemma show_nat_no_letter: "48 \<le> byte c \<and> byte c \<le> 57 \<or> c \<notin> set (show_nat n)"
  using show_nat_digits by blast

lemma show_nat_neq: "c \<in> set s \<Longrightarrow> \<not> (48 \<le> byte c \<and> byte c \<le> 57) \<Longrightarrow> show_nat n \<noteq> s"
  using show_nat_digits by blast

lemma show_nat_tmp [simp]:
  "show_nat n \<noteq> ''tmp''" "show_nat n \<noteq> ''manifest''" "show_nat n \<noteq> ''manifest.tmp''"
  "show_nat n \<noteq> show_nat m @ ''.tmp''"
  by (rule show_nat_neq [of "CHR ''m''"]; simp)+

lemma show_nat_manifest [simp]: "show_nat n @ ''.tmp'' \<noteq> ''manifest''"
  using show_nat_hd [of n] by auto

lemma show_nat_manifest_tmp [simp]: "show_nat n @ ''.tmp'' \<noteq> ''manifest.tmp''"
  using show_nat_hd [of n] by auto

lemma generation_paths [simp]:
  "generation_path s n = generation_path s m \<longleftrightarrow> n = m"
  "generation_path s n \<noteq> generation_path s m @ ''.tmp''"
  "generation_path s n \<noteq> manifest_path s"
  "generation_path s n \<noteq> manifest_path s @ ''.tmp''"
  "generation_path s n @ ''.tmp'' \<noteq> manifest_path s"
  "generation_path s n @ ''.tmp'' \<noteq> manifest_path s @ ''.tmp''"
  "manifest_path s \<noteq> manifest_path s @ ''.tmp''"
  by (auto simp: generation_path_def manifest_path_def show_nat_inj)

text \<open>The configured paths do not collide: no log has the name of a snapshot, of a manifest, or of
  one of their temporary files.\<close>

definition separate :: "path \<Rightarrow> path \<Rightarrow> bool" where
  "separate aof snap \<longleftrightarrow>
     (\<forall>n m. generation_path aof n \<noteq> generation_path snap m
        \<and> generation_path aof n \<noteq> generation_path snap m @ ''.tmp'')
     \<and> (\<forall>n. generation_path aof n \<noteq> manifest_path snap
           \<and> generation_path aof n \<noteq> manifest_path snap @ ''.tmp'')"

section \<open>Crashes\<close>

definition crash_state :: "path \<Rightarrow> path \<Rightarrow> nat \<Rightarrow> bytes \<Rightarrow> nat \<Rightarrow> filesystem \<Rightarrow> filesystem" where
  "crash_state aof snap gen blob k fs = fold (\<lambda>step. step) (take k (rewrite_steps aof snap gen blob)) fs"

lemmas disk_defs = rewrite_steps_def rotate_to_def write_tmp_def commit_tmp_def rename_file_def
  append_encoded_def

text \<open>What a restart makes of the disk, as far as the engine is concerned.\<close>

definition recovered ::
  "('f::{linorder,plus,zero}) float_ops \<Rightarrow> (bytes \<Rightarrow> string + 'f serializable_entry list) \<Rightarrow> env
   \<Rightarrow> (nat \<Rightarrow> env) \<Rightarrow> filesystem \<Rightarrow> path \<Rightarrow> path \<Rightarrow> (string + 'f engine) option" where
  "recovered F dec \<epsilon> clk fs aof snap = map_option (map_sum id fst) (recover F dec \<epsilon> clk fs aof snap)"

lemma recovered_replay:
  "map_option (map_sum id fst)
     (case r of None \<Rightarrow> None | Some (stats, e', file) \<Rightarrow> Some (Inr (e', g file))) =
   map_option (\<lambda>(stats, e', file). Inr e') r"
  by (cases r) auto

lemma recovered_cases:
  "recovered F dec \<epsilon> clk fs aof snap =
     (case read_generation fs snap of
        Inl err \<Rightarrow> Some (Inl err)
      | Inr gen \<Rightarrow>
          (let log = fs (generation_path aof gen);
               run = (\<lambda>e n. map_option (\<lambda>(stats, e', file). Inr e') (replay_with_stats F clk log n e))
           in case fs (generation_path snap gen) of
                None \<Rightarrow> run (engine_new \<epsilon>) 0
              | Some blob \<Rightarrow>
                  (case engine_load_snapshot dec \<epsilon> blob (engine_new \<epsilon>) of
                     (Inr off, e1) \<Rightarrow>
                       (case log of
                          None \<Rightarrow> Some (Inr e1)
                        | Some raw \<Rightarrow>
                            if unat off > length raw then run (engine_new \<epsilon>) 0 else run e1 (unat off))
                   | (Inl _, e1) \<Rightarrow> run e1 0)))"
proof (cases "read_generation fs snap")
  case (Inr gen)
  show ?thesis
  proof (cases "fs (generation_path snap gen)")
    case None
    with Inr show ?thesis by (simp add: recovered_def recover_def Let_def recovered_replay)
  next
    case (Some blob)
    obtain r e1 where "engine_load_snapshot dec \<epsilon> blob (engine_new \<epsilon> :: 'a engine) = (r, e1)"
      by (metis surj_pair)
    with Inr Some show ?thesis
      by (cases r; cases "fs (generation_path aof gen)")
        (simp_all add: recovered_def recover_def Let_def recovered_replay)
  qed
qed (simp add: recovered_def recover_def)

lemma recovered_generation:
  assumes "fs' (manifest_path snap) = fs (manifest_path snap)" and "read_generation fs snap = Inr gen"
    and "fs' (generation_path aof gen) = fs (generation_path aof gen)"
    and "fs' (generation_path snap gen) = fs (generation_path snap gen)"
  shows "recovered F dec \<epsilon> clk fs' aof snap = recovered F dec \<epsilon> clk fs aof snap"
proof -
  have "read_generation fs' snap = Inr gen"
    using assms(1,2) by (simp add: read_generation_def)
  then show ?thesis by (simp only: recovered_cases assms(2-4) sum.case)
qed

lemma separate_simps:
  assumes "separate aof snap"
  shows "generation_path aof n \<noteq> generation_path snap m"
    and "generation_path snap m \<noteq> generation_path aof n"
    and "generation_path aof n \<noteq> generation_path snap m @ ''.tmp''"
    and "generation_path snap m @ ''.tmp'' \<noteq> generation_path aof n"
    and "generation_path aof n \<noteq> manifest_path snap" and "manifest_path snap \<noteq> generation_path aof n"
    and "generation_path aof n \<noteq> manifest_path snap @ ''.tmp''"
    and "manifest_path snap @ ''.tmp'' \<noteq> generation_path aof n"
  using assms unfolding separate_def by metis+

lemmas generation_paths_sym [simp] = generation_paths(2-7) [symmetric]

lemma crash_before_commit:
  assumes "separate aof snap" and "k < 5" and "read_generation fs snap = Inr gen"
  shows "recovered F dec \<epsilon> clk
      (append_encoded (generation_path aof (gen + 1)) b (crash_state aof snap gen blob k fs)) aof snap =
    recovered F dec \<epsilon> clk fs aof snap"
proof (rule recovered_generation [OF _ assms(3)])
  have "k = 0 \<or> k = 1 \<or> k = 2 \<or> k = 3 \<or> k = 4" using assms(2) by arith
  then show "append_encoded (generation_path aof (gen + 1)) b (crash_state aof snap gen blob k fs)
        (manifest_path snap) = fs (manifest_path snap)"
    and "append_encoded (generation_path aof (gen + 1)) b (crash_state aof snap gen blob k fs)
        (generation_path aof gen) = fs (generation_path aof gen)"
    and "append_encoded (generation_path aof (gen + 1)) b (crash_state aof snap gen blob k fs)
        (generation_path snap gen) = fs (generation_path snap gen)"
    by (elim disjE; simp add: crash_state_def disk_defs Let_def separate_simps [OF assms(1)])+
qed

lemma crash_after_commit:
  assumes "separate aof snap" and "5 \<le> k" and "fs (generation_path aof (gen + 1)) \<in> {None, Some []}"
  shows "crash_state aof snap gen blob k fs (manifest_path snap) = Some (show_nat (gen + 1))"
    and "crash_state aof snap gen blob k fs (generation_path aof (gen + 1)) = Some []"
    and "crash_state aof snap gen blob k fs (generation_path snap (gen + 1)) = Some blob"
proof -
  have "take k (rewrite_steps aof snap gen blob) = take 5 (rewrite_steps aof snap gen blob)
      \<or> take k (rewrite_steps aof snap gen blob) = take 6 (rewrite_steps aof snap gen blob)
      \<or> take k (rewrite_steps aof snap gen blob) = take 7 (rewrite_steps aof snap gen blob)"
  proof (cases "k < 7")
    case True
    with assms(2) have "k = 5 \<or> k = 6" by arith
    then show ?thesis by blast
  qed (simp add: rewrite_steps_def Let_def)
  then show "crash_state aof snap gen blob k fs (manifest_path snap) = Some (show_nat (gen + 1))"
    and "crash_state aof snap gen blob k fs (generation_path aof (gen + 1)) = Some []"
    and "crash_state aof snap gen blob k fs (generation_path snap (gen + 1)) = Some blob"
    using assms(3) unfolding crash_state_def
    by (elim disjE; force simp: disk_defs Let_def separate_simps [OF assms(1)])+
qed

lemma trim_show_nat [simp]: "trim (show_nat n) = show_nat n"
proof -
  have "\<not> is_whitespace c" if "c \<in> set (show_nat n)" for c
    using show_nat_digits [OF that] by (auto simp: is_whitespace_def)
  then have "dropWhile is_whitespace (show_nat n) = show_nat n"
    and "dropWhile is_whitespace (rev (show_nat n)) = rev (show_nat n)"
    by (metis dropWhile_eq_self_iff hd_in_set set_rev)+
  then show ?thesis by (simp add: trim_def)
qed

lemma parse_u64_show_nat: "n < 2 ^ 64 \<Longrightarrow> parse_u64 (show_nat n) = Some n"
proof -
  obtain c r where "show_nat n = c # r" and "c \<noteq> CHR ''+''" using show_nat_hd [of n] by fastforce
  moreover assume "n < 2 ^ 64"
  ultimately show ?thesis
    unfolding parse_u64_def Let_def using parse_nat_show_nat [of n] by simp
qed

lemma recovered_new_generation:
  assumes "fs (manifest_path snap) = Some (show_nat gen)" and "gen < 2 ^ 64"
    and "fs (generation_path aof gen) = Some []" and "fs (generation_path snap gen) = Some blob"
    and "engine_load_snapshot dec \<epsilon> blob (engine_new \<epsilon>) = (Inr 0, e)"
  shows "recovered F dec \<epsilon> clk fs aof snap = Some (Inr e)"
proof -
  have "read_generation fs snap = Inr gen"
    using assms(1,2) by (simp add: read_generation_def show_nat_line parse_u64_show_nat)
  moreover have "replay_loop F clk [] s = Some (s, ''incomplete'')" for s :: "'a replay_state"
    by (subst replay_loop.simps) (simp add: resp_decode_def)
  ultimately show ?thesis
    using assms(3-5) by (simp add: recovered_cases Let_def replay_with_stats_def)
qed

lemma load_fresh:
  fixes e :: "'f::linorder engine"
  assumes "bincode_ok encode decode" and "engine_ok (env_hash \<epsilon>) e"
    and "env_unix \<epsilon>' div nanos_per_milli < 2 ^ 63"
    and "\<And>k v at. engine_view (env_hash \<epsilon>) (env_now \<epsilon>) e k = Some (v, Some at) \<Longrightarrow>
      wall \<epsilon> at div nanos_per_milli < 2 ^ 63"
  shows "let (r, e') = engine_load_snapshot decode \<epsilon>' (engine_snapshot encode \<epsilon> 0 e) (engine_new \<epsilon>')
    in r = Inr 0 \<and> (\<forall>k. restored \<epsilon> \<epsilon>' (engine_view (env_hash \<epsilon>) (env_now \<epsilon>) e k)
             (engine_view (env_hash \<epsilon>') (env_now \<epsilon>') e' k))"
proof -
  have "engine_ok (env_hash \<epsilon>') (engine_new \<epsilon>' :: 'f engine)" by (rule engine_ok_new)
  then show ?thesis
    using load_serialized [OF assms(1), of "env_hash \<epsilon>" "store e" \<epsilon>' "store (engine_new \<epsilon>')" \<epsilon> 0]
      assms(2-)
    by (simp add: engine_load_snapshot_def engine_snapshot_def engine_ok_def engine_view_def
        split_def Let_def)
qed

section \<open>The rewrite and crashes\<close>


definition sample_blob :: bytes where
  "sample_blob = engine_snapshot unary_enc sample_env 0 (engine_new sample_env :: nat engine)"


end
