(* ===== verification/Rm_Mirror.thy ===== *)
theory Rm_Mirror
  imports Rm_Recover
begin

text \<open>
  Replaying the log. Two engines mirror each other when they hold the same entries, whatever their
  shards, recency ticks, counters and expired leftovers look like, and whatever their clocks say.
  The write commands preserve this, each by parametricity from the operations of the facade.
\<close>

section \<open>Engines that mirror each other\<close>

definition open_ended :: "'f keyspace \<Rightarrow> bool" where
  "open_ended ks \<longleftrightarrow> (\<forall>k v x. ks k = Some (v, x) \<longrightarrow> x = None)"

definition unbounded :: "'f engine \<Rightarrow> bool" where
  "unbounded e \<longleftrightarrow> shards (store e) \<noteq> [] \<and> maxmemory e = None"

definition mirrors :: "env \<Rightarrow> env \<Rightarrow> 'f::linorder engine \<Rightarrow> 'f engine \<Rightarrow> bool" where
  "mirrors \<epsilon> \<epsilon>' e e' \<longleftrightarrow>
     unbounded e \<and> unbounded e' \<and> live \<epsilon> e = live \<epsilon>' e' \<and> open_ended (live \<epsilon> e)"

definition env_pair :: "env \<Rightarrow> env \<Rightarrow> env \<Rightarrow> env \<Rightarrow> bool" where
  "env_pair \<epsilon> \<epsilon>' a b \<longleftrightarrow> a = \<epsilon> \<and> b = \<epsilon>'"

text \<open>Functions related at equal arguments, and at the two environments.\<close>

abbreviation takes :: "('b \<Rightarrow> 'c \<Rightarrow> bool) \<Rightarrow> ('a \<Rightarrow> 'b) \<Rightarrow> ('a \<Rightarrow> 'c) \<Rightarrow> bool" where
  "takes R \<equiv> rel_fun (=) R"

abbreviation under :: "env \<Rightarrow> env \<Rightarrow> ('b \<Rightarrow> 'c \<Rightarrow> bool) \<Rightarrow> (env \<Rightarrow> 'b) \<Rightarrow> (env \<Rightarrow> 'c) \<Rightarrow> bool" where
  "under \<epsilon> \<epsilon>' R \<equiv> rel_fun (env_pair \<epsilon> \<epsilon>') R"

lemma on_shard_Nil [simp]: "shards (snd (on_shard h k f st)) = [] \<longleftrightarrow> shards st = []"
  by (simp add: on_shard_simps)

lemma routed_view:
  assumes "shards st \<noteq> []"
    and "\<And>s. shard_view t (snd (f s)) = g (shard_view t s)"
    and "\<And>m k'. k' \<noteq> k \<Longrightarrow> g m k' = m k'"
    and "\<And>m m'. m k = m' k \<Longrightarrow> g m k = g m' k"
  shows "store_view h t (snd (on_shard h k f st)) = g (store_view h t st)"
proof -
  let ?i = "shard_index h k st"
  have i: "?i < length (shards st)" using assms(1) by (simp add: shard_index_def)
  have len: "length (shards (snd (on_shard h k f st))) = length (shards st)"
    by (simp add: on_shard_simps)
  show "store_view h t (snd (on_shard h k f st)) = g (store_view h t st)"
  proof
    fix k'
    have "store_view h t (snd (on_shard h k f st)) k' =
        shard_view t (shards (snd (on_shard h k f st)) ! shard_index h k' st) k'"
      by (simp add: store_view_def shard_index_cong [OF len])
    also have "\<dots> = g (store_view h t st) k'"
    proof (cases "k' = k")
      case True
      have "g (shard_view t (shards st ! ?i)) k = g (store_view h t st) k"
        by (rule assms(4)) (simp add: store_view_def)
      with True i show ?thesis by (simp add: on_shard_simps assms(2))
    next
      case False
      with i show ?thesis
        by (cases "shard_index h k' st = ?i") (simp_all add: on_shard_simps assms(2,3) store_view_def)
    qed
    finally show "store_view h t (snd (on_shard h k f st)) k' = g (store_view h t st) k'" .
  qed
qed

lemma unbounded_views:
  assumes "unbounded e"
  shows "unbounded (snd (engine_get \<epsilon> k e)) \<and> live \<epsilon> (snd (engine_get \<epsilon> k e)) = live \<epsilon> e"
    and "unbounded (snd (engine_exists \<epsilon> k e)) \<and> live \<epsilon> (snd (engine_exists \<epsilon> k e)) = live \<epsilon> e"
    and "unbounded (snd (engine_with_ref \<epsilon> k f e)) \<and> live \<epsilon> (snd (engine_with_ref \<epsilon> k f e)) = live \<epsilon> e"
    and "unbounded (snd (engine_del \<epsilon> k e)) \<and> live \<epsilon> (snd (engine_del \<epsilon> k e)) = ks_del k (live \<epsilon> e)"
    and "unbounded (snd (engine_persist \<epsilon> k e)) \<and> live \<epsilon> (snd (engine_persist \<epsilon> k e)) = ks_persist k (live \<epsilon> e)"
    and "unbounded (engine_set \<epsilon> k v e) \<and> live \<epsilon> (engine_set \<epsilon> k v e) = ks_set k v (live \<epsilon> e)"
    and "unbounded (snd (engine_with_mut_delta \<epsilon> k g none e))
      \<and> live \<epsilon> (snd (engine_with_mut_delta \<epsilon> k g none e)) = ks_mutate k (\<lambda>v. snd (snd (g v))) (live \<epsilon> e)"
  using assms
  unfolding unbounded_def engine_view_def engine_read_defs engine_set_def engine_with_mut_delta_def
    store_get_def store_exists_def store_with_ref_def store_del_def store_persist_def store_set_def
    store_with_mut_delta_def on_store_def Let_def split_def shard_exists_def
  by (simp_all add: maybe_evict_def routed_view shard_view_get shard_view_with_ref shard_view_del
      shard_view_persist shard_view_set shard_view_with_mut_delta ks_defs fun_upd_def
      split: option.split)

lemma open_ended_ops:
  assumes "open_ended ks"
  shows "open_ended (ks_del k ks)" and "open_ended (ks_set k v ks)" and "open_ended (ks_mutate k g ks)"
    and "open_ended (ks_persist k ks)" and "ks_persist k ks = ks"
  using assms by (auto simp: open_ended_def ks_defs fun_upd_idem split: option.splits if_splits prod.splits)

lemma mirrorsD:
  assumes "mirrors \<epsilon> \<epsilon>' e e'"
  shows "unbounded e" and "unbounded e'" and "live \<epsilon> e = live \<epsilon>' e'" and "open_ended (live \<epsilon>' e')"
  using assms by (auto simp: mirrors_def)

lemma mirrorsI:
  assumes "mirrors \<epsilon> \<epsilon>' e e'" and "unbounded e1 \<and> live \<epsilon> e1 = g (live \<epsilon> e)"
    and "unbounded e1' \<and> live \<epsilon>' e1' = g (live \<epsilon>' e')"
    and "\<And>ks :: 'f::linorder keyspace. open_ended ks \<Longrightarrow> open_ended (g ks)"
  shows "mirrors \<epsilon> \<epsilon>' e1 e1'"
  using assms by (auto simp: mirrors_def)

lemma mirrors_pairI:
  assumes "mirrors \<epsilon> \<epsilon>' e e'" and "fst r = fst r'"
    and "unbounded (snd r) \<and> live \<epsilon> (snd r) = g (live \<epsilon> e)"
    and "unbounded (snd r') \<and> live \<epsilon>' (snd r') = g (live \<epsilon>' e')"
    and "\<And>ks :: 'f::linorder keyspace. open_ended ks \<Longrightarrow> open_ended (g ks)"
  shows "rel_prod (=) (mirrors \<epsilon> \<epsilon>') r r'"
  using assms mirrorsI [OF assms(1,3-)] by (simp add: rel_prod_sel)

section \<open>The operations of the facade\<close>

lemma facade_reads_mirror:
  assumes "mirrors \<epsilon> \<epsilon>' e e'"
  shows "rel_prod (=) (mirrors \<epsilon> \<epsilon>') (engine_get \<epsilon> k e) (engine_get \<epsilon>' k e')"
    and "rel_prod (=) (mirrors \<epsilon> \<epsilon>') (engine_exists \<epsilon> k e) (engine_exists \<epsilon>' k e')"
    and "rel_prod (=) (mirrors \<epsilon> \<epsilon>') (engine_with_ref \<epsilon> k f e) (engine_with_ref \<epsilon>' k f e')"
  by (rule mirrors_pairI [OF assms, where g = "\<lambda>ks. ks"];
      simp add: engine_results unbounded_views mirrorsD [OF assms])+

lemma facade_writes_mirror:
  assumes "mirrors \<epsilon> \<epsilon>' e e'"
  shows "rel_prod (=) (mirrors \<epsilon> \<epsilon>') (engine_del \<epsilon> k e) (engine_del \<epsilon>' k e')"
    and "rel_prod (=) (mirrors \<epsilon> \<epsilon>') (engine_persist \<epsilon> k e) (engine_persist \<epsilon>' k e')"
    and "rel_prod (=) (mirrors \<epsilon> \<epsilon>') (engine_with_mut_delta \<epsilon> k f none e)
           (engine_with_mut_delta \<epsilon>' k f none e')"
    and "mirrors \<epsilon> \<epsilon>' (engine_set \<epsilon> k v e) (engine_set \<epsilon>' k v e')"
proof -
  note simps = engine_results unbounded_views open_ended_ops mirrorsD [OF assms]
  show "rel_prod (=) (mirrors \<epsilon> \<epsilon>') (engine_del \<epsilon> k e) (engine_del \<epsilon>' k e')"
    by (rule mirrors_pairI [OF assms, where g = "ks_del k"]) (simp_all add: simps)
  show "rel_prod (=) (mirrors \<epsilon> \<epsilon>') (engine_persist \<epsilon> k e) (engine_persist \<epsilon>' k e')"
    by (rule mirrors_pairI [OF assms, where g = "ks_persist k"]) (simp_all add: simps)
  show "rel_prod (=) (mirrors \<epsilon> \<epsilon>') (engine_with_mut_delta \<epsilon> k f none e)
      (engine_with_mut_delta \<epsilon>' k f none e')"
    by (rule mirrors_pairI [OF assms, where g = "ks_mutate k (\<lambda>v. snd (snd (f v)))"])
      (simp_all add: simps)
  show "mirrors \<epsilon> \<epsilon>' (engine_set \<epsilon> k v e) (engine_set \<epsilon>' k v e')"
    by (rule mirrorsI [OF assms, where g = "ks_set k v"]) (simp_all add: simps)
qed

lemma facade_ttl_mirror: "mirrors \<epsilon> \<epsilon>' e e' \<Longrightarrow> engine_ttl \<epsilon> k e = engine_ttl \<epsilon>' k e'"
  by (fastforce simp: engine_results ks_ttl_def mirrors_def open_ended_def split: option.split)

lemma facade_mirrors [transfer_rule]:
  "under \<epsilon> \<epsilon>' (takes (rel_fun (mirrors \<epsilon> \<epsilon>') (rel_prod (=) (mirrors \<epsilon> \<epsilon>')))) engine_get engine_get"
  "under \<epsilon> \<epsilon>' (takes (rel_fun (mirrors \<epsilon> \<epsilon>') (rel_prod (=) (mirrors \<epsilon> \<epsilon>')))) engine_exists engine_exists"
  "under \<epsilon> \<epsilon>' (takes (takes (rel_fun (mirrors \<epsilon> \<epsilon>') (rel_prod (=) (mirrors \<epsilon> \<epsilon>')))))
     engine_with_ref engine_with_ref"
  "under \<epsilon> \<epsilon>' (takes (rel_fun (mirrors \<epsilon> \<epsilon>') (rel_prod (=) (mirrors \<epsilon> \<epsilon>')))) engine_del engine_del"
  "under \<epsilon> \<epsilon>' (takes (rel_fun (mirrors \<epsilon> \<epsilon>') (rel_prod (=) (mirrors \<epsilon> \<epsilon>')))) engine_persist engine_persist"
  "under \<epsilon> \<epsilon>' (takes (takes (rel_fun (mirrors \<epsilon> \<epsilon>') (mirrors \<epsilon> \<epsilon>')))) engine_set engine_set"
  "under \<epsilon> \<epsilon>' (takes (takes (takes (rel_fun (mirrors \<epsilon> \<epsilon>') (rel_prod (=) (mirrors \<epsilon> \<epsilon>'))))))
     engine_with_mut_delta engine_with_mut_delta"
  "under \<epsilon> \<epsilon>' (takes (rel_fun (mirrors \<epsilon> \<epsilon>') (=))) engine_ttl engine_ttl"
  by (simp_all add: rel_fun_def env_pair_def facade_reads_mirror facade_writes_mirror facade_ttl_mirror)

section \<open>The write commands\<close>

text \<open>What a command is to do: equal answers on engines that mirror each other, which stay so.\<close>

abbreviation acts :: "env \<Rightarrow> env \<Rightarrow> ('f::linorder engine \<Rightarrow> 'r \<times> 'f engine) \<Rightarrow> ('f engine \<Rightarrow> 'r \<times> 'f engine) \<Rightarrow> bool" where
  "acts \<epsilon> \<epsilon>' \<equiv> rel_fun (mirrors \<epsilon> \<epsilon>') (rel_prod (=) (mirrors \<epsilon> \<epsilon>'))"

lemma actsD:
  "under \<epsilon> \<epsilon>' (takes (acts \<epsilon> \<epsilon>')) f f \<Longrightarrow> mirrors \<epsilon> \<epsilon>' e e' \<Longrightarrow>
     rel_prod (=) (mirrors \<epsilon> \<epsilon>') (f \<epsilon> x e) (f \<epsilon>' x e')"
  "under \<epsilon> \<epsilon>' (takes (takes (takes (acts \<epsilon> \<epsilon>')))) g g \<Longrightarrow> mirrors \<epsilon> \<epsilon>' e e' \<Longrightarrow>
     rel_prod (=) (mirrors \<epsilon> \<epsilon>') (g \<epsilon> x y z e) (g \<epsilon>' x y z e')"
  by (simp_all add: rel_fun_def env_pair_def)

lemma upsert_mirror [transfer_rule]:
  "under \<epsilon> \<epsilon>' (takes (takes (takes (takes (acts \<epsilon> \<epsilon>'))))) upsert upsert"
  unfolding upsert_def by transfer_prover

lemma string_mirror [transfer_rule]:
  "under \<epsilon> \<epsilon>' (takes (takes (acts \<epsilon> \<epsilon>'))) set_nx set_nx"
  "under \<epsilon> \<epsilon>' (takes (takes (acts \<epsilon> \<epsilon>'))) set_xx set_xx"
  "under \<epsilon> \<epsilon>' (takes (acts \<epsilon> \<epsilon>')) string_get string_get"
  "under \<epsilon> \<epsilon>' (takes (takes (acts \<epsilon> \<epsilon>'))) append_cmd append_cmd"
  "under \<epsilon> \<epsilon>' (takes (takes (acts \<epsilon> \<epsilon>'))) incr_by incr_by"
  "under \<epsilon> \<epsilon>' (takes (takes (takes (acts \<epsilon> \<epsilon>')))) setrange setrange"
  unfolding set_nx_def set_xx_def string_get_def append_cmd_def incr_by_def setrange_def
  by transfer_prover+

lemma getset_mirror [transfer_rule]:
  "under \<epsilon> \<epsilon>' (takes (takes (acts \<epsilon> \<epsilon>'))) getset getset"
  unfolding getset_def by transfer_prover

lemma list_mirror [transfer_rule]:
  "under \<epsilon> \<epsilon>' (takes (takes (acts \<epsilon> \<epsilon>'))) rpush rpush"
  "under \<epsilon> \<epsilon>' (takes (takes (acts \<epsilon> \<epsilon>'))) lpush lpush"
  "under \<epsilon> \<epsilon>' (takes (acts \<epsilon> \<epsilon>')) rpop rpop"
  "under \<epsilon> \<epsilon>' (takes (acts \<epsilon> \<epsilon>')) lpop lpop"
  "under \<epsilon> \<epsilon>' (takes (takes (takes (acts \<epsilon> \<epsilon>')))) lset lset"
  "under \<epsilon> \<epsilon>' (takes (takes (takes (acts \<epsilon> \<epsilon>')))) ltrim ltrim"
  "under \<epsilon> \<epsilon>' (takes (takes (takes (acts \<epsilon> \<epsilon>')))) lrem lrem"
  "under \<epsilon> \<epsilon>' (takes (takes (takes (acts \<epsilon> \<epsilon>')))) push_one push_one"
  "under \<epsilon> \<epsilon>' (takes (takes (takes (takes (acts \<epsilon> \<epsilon>'))))) linsert linsert"
  unfolding rpush_def lpush_def rpop_def lpop_def lset_def ltrim_def lrem_def push_one_def linsert_def
  by transfer_prover+

lemma lmove_mirror [transfer_rule]:
  "under \<epsilon> \<epsilon>' (takes (takes (takes (takes (acts \<epsilon> \<epsilon>'))))) lmove lmove"
  unfolding lmove_def by transfer_prover

lemma hash_mirror [transfer_rule]:
  "under \<epsilon> \<epsilon>' (takes (takes (takes (acts \<epsilon> \<epsilon>')))) hset hset"
  "under \<epsilon> \<epsilon>' (takes (takes (acts \<epsilon> \<epsilon>'))) hdel hdel"
  "under \<epsilon> \<epsilon>' (takes (takes (takes (acts \<epsilon> \<epsilon>')))) hincrby hincrby"
  "under \<epsilon> \<epsilon>' (takes (takes (takes (acts \<epsilon> \<epsilon>')))) hsetnx hsetnx"
  unfolding hset_def hdel_def hincrby_def hsetnx_def
  by transfer_prover+

lemma set_mirror [transfer_rule]:
  "under \<epsilon> \<epsilon>' (takes (acts \<epsilon> \<epsilon>')) get_set get_set"
  "under \<epsilon> \<epsilon>' (takes (takes (acts \<epsilon> \<epsilon>'))) sadd sadd"
  "under \<epsilon> \<epsilon>' (takes (takes (acts \<epsilon> \<epsilon>'))) srem srem"
  "under \<epsilon> \<epsilon>' (takes (takes (acts \<epsilon> \<epsilon>'))) store_or_delete store_or_delete"
  unfolding get_set_def sadd_def srem_def store_or_delete_def
  by transfer_prover+

lemma zset_mirror [transfer_rule]:
  "under \<epsilon> \<epsilon>' (takes (takes (takes (acts \<epsilon> \<epsilon>')))) zadd zadd"
  "under \<epsilon> \<epsilon>' (takes (takes (acts \<epsilon> \<epsilon>'))) zrem zrem"
  "under \<epsilon> \<epsilon>' (takes (takes (takes (acts \<epsilon> \<epsilon>')))) zincrby zincrby"
  unfolding zadd_def zrem_def zincrby_def
  by transfer_prover+

text \<open>The loops, by induction on what they run over.\<close>

lemma mset_mirror: "mirrors \<epsilon> \<epsilon>' e e' \<Longrightarrow> mirrors \<epsilon> \<epsilon>' (mset_cmd \<epsilon> ps e) (mset_cmd \<epsilon>' ps e')"
  by (induction ps arbitrary: e e') (auto simp: facade_writes_mirror)

lemma any_exists_mirror:
  "mirrors \<epsilon> \<epsilon>' e e' \<Longrightarrow> rel_prod (=) (mirrors \<epsilon> \<epsilon>') (any_exists \<epsilon> ks e) (any_exists \<epsilon>' ks e')"
proof (induction ks arbitrary: e e')
  case (Cons k ks)
  from facade_reads_mirror(2) [OF this(2), of k] Cons.IH show ?case
    by (auto simp: rel_prod_sel split_def Let_def)
qed simp

lemma del_keys_mirror:
  "mirrors \<epsilon> \<epsilon>' e e' \<Longrightarrow> rel_prod (=) (mirrors \<epsilon> \<epsilon>') (del_keys \<epsilon> ks e) (del_keys \<epsilon>' ks e')"
proof (induction ks arbitrary: e e')
  case (Cons k ks)
  from facade_writes_mirror(1) [OF this(2), of k] Cons.IH show ?case
    by (fastforce simp: rel_prod_sel split_def Let_def)
qed simp

lemma get_set_mirror:
  "mirrors \<epsilon> \<epsilon>' e e' \<Longrightarrow> rel_prod (=) (mirrors \<epsilon> \<epsilon>') (get_set \<epsilon> k e) (get_set \<epsilon>' k e')"
  by (rule actsD(1) [OF set_mirror(1)])

lemma get_sets_mirror:
  "mirrors \<epsilon> \<epsilon>' e e' \<Longrightarrow> rel_prod (=) (mirrors \<epsilon> \<epsilon>') (get_sets \<epsilon> ks e) (get_sets \<epsilon>' ks e')"
proof (induction ks arbitrary: e e')
  case (Cons k ks)
  from get_set_mirror [OF this(2), of k] Cons.IH show ?case
    by (fastforce simp: rel_prod_sel split_def Let_def split: sum.split)
qed simp

lemma set_loops_mirror:
  "mirrors \<epsilon> \<epsilon>' e e' \<Longrightarrow> rel_prod (=) (mirrors \<epsilon> \<epsilon>') (sunion_loop \<epsilon> ks acc e) (sunion_loop \<epsilon>' ks acc e')"
  "mirrors \<epsilon> \<epsilon>' e e' \<Longrightarrow> rel_prod (=) (mirrors \<epsilon> \<epsilon>') (sdiff_loop \<epsilon> ks acc e) (sdiff_loop \<epsilon>' ks acc e')"
proof (induction ks arbitrary: acc e e')
  case (Cons k ks)
  { case 1
    from get_set_mirror [OF this, of k] Cons.IH(1) show ?case
      by (fastforce simp: rel_prod_sel split_def Let_def split: sum.split)
  next
    case 2
    from get_set_mirror [OF this, of k] Cons.IH(2) show ?case
      by (fastforce simp: rel_prod_sel split_def Let_def split: sum.split) }
qed simp_all

lemma sdiff_mirror:
  "mirrors \<epsilon> \<epsilon>' e e' \<Longrightarrow> rel_prod (=) (mirrors \<epsilon> \<epsilon>') (sdiff \<epsilon> ks e) (sdiff \<epsilon>' ks e')"
proof (cases ks)
  case (Cons k ks')
  assume "mirrors \<epsilon> \<epsilon>' e e'"
  from get_set_mirror [OF this, of k] set_loops_mirror(2) Cons show ?thesis
    by (fastforce simp: rel_prod_sel split_def Let_def split: sum.split)
qed simp

lemma loops_mirror [transfer_rule]:
  "under \<epsilon> \<epsilon>' (takes (rel_fun (mirrors \<epsilon> \<epsilon>') (mirrors \<epsilon> \<epsilon>'))) mset_cmd mset_cmd"
  "under \<epsilon> \<epsilon>' (takes (acts \<epsilon> \<epsilon>')) any_exists any_exists"
  "under \<epsilon> \<epsilon>' (takes (acts \<epsilon> \<epsilon>')) del_keys del_keys"
  "under \<epsilon> \<epsilon>' (takes (acts \<epsilon> \<epsilon>')) get_sets get_sets"
  "under \<epsilon> \<epsilon>' (takes (takes (acts \<epsilon> \<epsilon>'))) sunion_loop sunion_loop"
  "under \<epsilon> \<epsilon>' (takes (acts \<epsilon> \<epsilon>')) sdiff sdiff"
  by (simp_all add: rel_fun_def env_pair_def mset_mirror any_exists_mirror del_keys_mirror
      get_sets_mirror set_loops_mirror sdiff_mirror)

lemma store_result_mirror [transfer_rule]:
  "under \<epsilon> \<epsilon>' (takes (rel_fun (rel_prod (=) (mirrors \<epsilon> \<epsilon>')) (rel_prod (=) (mirrors \<epsilon> \<epsilon>'))))
     store_result store_result"
  unfolding store_result_def by transfer_prover

lemma set_algebra_mirror [transfer_rule]:
  "under \<epsilon> \<epsilon>' (takes (acts \<epsilon> \<epsilon>')) msetnx msetnx"
  "under \<epsilon> \<epsilon>' (takes (acts \<epsilon> \<epsilon>')) sinter sinter"
  "under \<epsilon> \<epsilon>' (takes (acts \<epsilon> \<epsilon>')) sunion sunion"
  unfolding msetnx_def sinter_def sunion_def by transfer_prover+

lemma set_stores_mirror [transfer_rule]:
  "under \<epsilon> \<epsilon>' (takes (takes (acts \<epsilon> \<epsilon>'))) sinterstore sinterstore"
  "under \<epsilon> \<epsilon>' (takes (takes (acts \<epsilon> \<epsilon>'))) sunionstore sunionstore"
  "under \<epsilon> \<epsilon>' (takes (takes (acts \<epsilon> \<epsilon>'))) sdiffstore sdiffstore"
  unfolding sinterstore_def sunionstore_def sdiffstore_def by transfer_prover+

text \<open>Without deadlines a rename has none to carry over.\<close>

lemma ttl_open_ended:
  assumes "mirrors \<epsilon> \<epsilon>' e e'"
  shows "engine_ttl \<epsilon> k e \<noteq> TtlRemaining r"
proof (cases "live \<epsilon> e k")
  case (Some p)
  then have "snd p = None" using assms by (cases p) (simp add: mirrors_def open_ended_def)
  with Some show ?thesis by (cases p) (simp add: engine_results ks_ttl_def)
qed (simp add: engine_results ks_ttl_def)

lemma rename_mirror:
  assumes "mirrors \<epsilon> \<epsilon>' e e'"
  shows "rel_prod (=) (mirrors \<epsilon> \<epsilon>') (rename \<epsilon> src dst e) (rename \<epsilon>' src dst e')"
proof -
  let ?e = "snd (engine_get \<epsilon> src e)" and ?e' = "snd (engine_get \<epsilon>' src e')"
  have get: "fst (engine_get \<epsilon> src e) = fst (engine_get \<epsilon>' src e')" and M: "mirrors \<epsilon> \<epsilon>' ?e ?e'"
    using facade_reads_mirror(1) [OF assms, of src] by (simp_all add: rel_prod_sel)
  have "mirrors \<epsilon> \<epsilon>' (snd (engine_del \<epsilon> src (engine_set \<epsilon> dst v ?e)))
      (snd (engine_del \<epsilon>' src (engine_set \<epsilon>' dst v ?e')))" for v
    using facade_writes_mirror(1) [OF facade_writes_mirror(4) [OF M]] by (simp add: rel_prod_sel)
  with get M facade_ttl_mirror [OF M, of src] ttl_open_ended [OF M, of src] show ?thesis
    by (auto simp: rename_def rel_prod_sel Let_def split_def split: option.split ttl_status.split)
qed

lemma renamenx_mirror:
  assumes "mirrors \<epsilon> \<epsilon>' e e'"
  shows "rel_prod (=) (mirrors \<epsilon> \<epsilon>') (renamenx \<epsilon> src dst e) (renamenx \<epsilon>' src dst e')"
proof -
  let ?e = "snd (engine_get \<epsilon> src e)" and ?e' = "snd (engine_get \<epsilon>' src e')"
  let ?e1 = "snd (engine_exists \<epsilon> dst ?e)" and ?e1' = "snd (engine_exists \<epsilon>' dst ?e')"
  have get: "fst (engine_get \<epsilon> src e) = fst (engine_get \<epsilon>' src e')" and M: "mirrors \<epsilon> \<epsilon>' ?e ?e'"
    using facade_reads_mirror(1) [OF assms, of src] by (simp_all add: rel_prod_sel)
  have taken: "fst (engine_exists \<epsilon> dst ?e) = fst (engine_exists \<epsilon>' dst ?e')"
    and M1: "mirrors \<epsilon> \<epsilon>' ?e1 ?e1'"
    using facade_reads_mirror(2) [OF M, of dst] by (simp_all add: rel_prod_sel)
  have "mirrors \<epsilon> \<epsilon>' (snd (engine_del \<epsilon> src (engine_set \<epsilon> dst v ?e1)))
      (snd (engine_del \<epsilon>' src (engine_set \<epsilon>' dst v ?e1')))" for v
    using facade_writes_mirror(1) [OF facade_writes_mirror(4) [OF M1]] by (simp add: rel_prod_sel)
  with get M M1 taken facade_ttl_mirror [OF M1, of src] ttl_open_ended [OF M1, of src] show ?thesis
    by (auto simp: renamenx_def rel_prod_sel Let_def split_def split: option.split ttl_status.split)
qed

lemma renames_mirror [transfer_rule]:
  "under \<epsilon> \<epsilon>' (takes (takes (acts \<epsilon> \<epsilon>'))) rename rename"
  "under \<epsilon> \<epsilon>' (takes (takes (acts \<epsilon> \<epsilon>'))) renamenx renamenx"
  by (simp_all add: rel_fun_def env_pair_def rename_mirror renamenx_mirror)

lemma hset_pairs_mirror:
  "mirrors \<epsilon> \<epsilon>' e e' \<Longrightarrow>
   rel_prod (=) (mirrors \<epsilon> \<epsilon>') (hset_pairs \<epsilon> key ps n e) (hset_pairs \<epsilon>' key ps n e')"
proof (induction ps arbitrary: n e e')
  case (Cons p ps)
  have "rel_prod (=) (mirrors \<epsilon> \<epsilon>') (hset \<epsilon> key (fst p) (snd p) e) (hset \<epsilon>' key (fst p) (snd p) e')"
    by (rule actsD(2) [OF hash_mirror(1) Cons.prems])
  with Cons.IH show ?case
    by (cases p) (auto simp: rel_prod_sel split_def Let_def split: sum.split bool.split)
qed simp

lemma first_available_pop_mirror:
  "mirrors \<epsilon> \<epsilon>' e e' \<Longrightarrow>
   rel_prod (=) (mirrors \<epsilon> \<epsilon>') (first_available_pop \<epsilon> ks fin e) (first_available_pop \<epsilon>' ks fin e')"
proof (induction ks arbitrary: e e')
  case (Cons k ks)
  have "rel_prod (=) (mirrors \<epsilon> \<epsilon>')
      (case fin of ListLeft \<Rightarrow> lpop \<epsilon> k e | ListRight \<Rightarrow> rpop \<epsilon> k e)
      (case fin of ListLeft \<Rightarrow> lpop \<epsilon>' k e' | ListRight \<Rightarrow> rpop \<epsilon>' k e')"
    by (cases fin) (simp_all add: actsD(1) [OF list_mirror(3) Cons.prems] actsD(1) [OF list_mirror(4) Cons.prems])
  with Cons.IH show ?case
    by (auto simp: rel_prod_sel split_def Let_def split: sum.split option.split)
qed simp

lemma arm_loops_mirror [transfer_rule]:
  "under \<epsilon> \<epsilon>' (takes (takes (takes (acts \<epsilon> \<epsilon>')))) hset_pairs hset_pairs"
  "under \<epsilon> \<epsilon>' (takes (takes (acts \<epsilon> \<epsilon>'))) first_available_pop first_available_pop"
  by (simp_all add: rel_fun_def env_pair_def hset_pairs_mirror first_available_pop_mirror)

section \<open>The arms of the dispatcher\<close>

lemma reply_helpers_mirror [transfer_rule]:
  "takes (takes (takes (rel_fun R (rel_fun (rel_option (rel_prod (=) R)) (rel_option (rel_prod (=) R))))))
     require_args require_args"
  "takes (rel_fun (rel_prod (=) R) (rel_option (rel_prod (=) R))) reply reply"
  "takes (rel_fun R (rel_fun (takes (rel_option (rel_prod (=) R))) (rel_option (rel_prod (=) R)))) int_arg int_arg"
  "takes (takes (rel_fun R (rel_fun (takes (takes (rel_option (rel_prod (=) R)))) (rel_option (rel_prod (=) R)))))
     range_args range_args"
  "takes (takes (rel_fun R (rel_fun (takes (takes (rel_option (rel_prod (=) R)))) (rel_option (rel_prod (=) R)))))
     list_ends list_ends"
  "takes (takes (rel_fun R (rel_fun (rel_option (rel_prod (=) R)) (rel_option (rel_prod (=) R)))))
     timeout_arg timeout_arg"
  "takes (takes (rel_fun R (rel_fun (takes (rel_option (rel_prod (=) R))) (rel_option (rel_prod (=) R)))))
     score_arg score_arg"
  unfolding require_args_def reply_def int_arg_def range_args_def list_ends_def timeout_arg_def score_arg_def
  by transfer_prover+

abbreviation handles ::
  "env \<Rightarrow> env \<Rightarrow> ('f::linorder) handler \<Rightarrow> 'f handler \<Rightarrow> bool" where
  "handles \<epsilon> \<epsilon>' \<equiv> takes (rel_fun (mirrors \<epsilon> \<epsilon>') (rel_option (rel_prod (=) (mirrors \<epsilon> \<epsilon>'))))"

lemma write_arms_mirror:
  "under \<epsilon> \<epsilon>' (handles \<epsilon> \<epsilon>') arm_append arm_append"
  "under \<epsilon> \<epsilon>' (handles \<epsilon> \<epsilon>') arm_setrange arm_setrange"
  "under \<epsilon> \<epsilon>' (handles \<epsilon> \<epsilon>') arm_getset arm_getset"
  "under \<epsilon> \<epsilon>' (handles \<epsilon> \<epsilon>') arm_mset arm_mset"
  "under \<epsilon> \<epsilon>' (handles \<epsilon> \<epsilon>') arm_msetnx arm_msetnx"
  "under \<epsilon> \<epsilon>' (handles \<epsilon> \<epsilon>') arm_incr arm_incr"
  "under \<epsilon> \<epsilon>' (handles \<epsilon> \<epsilon>') arm_decr arm_decr"
  "under \<epsilon> \<epsilon>' (handles \<epsilon> \<epsilon>') arm_incrby arm_incrby"
  "under \<epsilon> \<epsilon>' (handles \<epsilon> \<epsilon>') arm_del arm_del"
  "under \<epsilon> \<epsilon>' (handles \<epsilon> \<epsilon>') arm_persist arm_persist"
  "under \<epsilon> \<epsilon>' (handles \<epsilon> \<epsilon>') arm_rename arm_rename"
  "under \<epsilon> \<epsilon>' (handles \<epsilon> \<epsilon>') arm_renamenx arm_renamenx"
  "under \<epsilon> \<epsilon>' (handles \<epsilon> \<epsilon>') arm_hset arm_hset"
  "under \<epsilon> \<epsilon>' (handles \<epsilon> \<epsilon>') arm_hdel arm_hdel"
  "under \<epsilon> \<epsilon>' (handles \<epsilon> \<epsilon>') arm_hincrby arm_hincrby"
  "under \<epsilon> \<epsilon>' (handles \<epsilon> \<epsilon>') arm_hsetnx arm_hsetnx"
  "under \<epsilon> \<epsilon>' (handles \<epsilon> \<epsilon>') arm_rpush arm_rpush"
  "under \<epsilon> \<epsilon>' (handles \<epsilon> \<epsilon>') arm_lpush arm_lpush"
  "under \<epsilon> \<epsilon>' (handles \<epsilon> \<epsilon>') arm_rpop arm_rpop"
  "under \<epsilon> \<epsilon>' (handles \<epsilon> \<epsilon>') arm_lpop arm_lpop"
  "under \<epsilon> \<epsilon>' (handles \<epsilon> \<epsilon>') arm_lset arm_lset"
  "under \<epsilon> \<epsilon>' (handles \<epsilon> \<epsilon>') arm_ltrim arm_ltrim"
  "under \<epsilon> \<epsilon>' (handles \<epsilon> \<epsilon>') arm_lrem arm_lrem"
  "under \<epsilon> \<epsilon>' (handles \<epsilon> \<epsilon>') arm_linsert arm_linsert"
  "under \<epsilon> \<epsilon>' (handles \<epsilon> \<epsilon>') arm_lmove arm_lmove"
  "under \<epsilon> \<epsilon>' (handles \<epsilon> \<epsilon>') arm_rpoplpush arm_rpoplpush"
  "under \<epsilon> \<epsilon>' (handles \<epsilon> \<epsilon>') arm_sadd arm_sadd"
  "under \<epsilon> \<epsilon>' (handles \<epsilon> \<epsilon>') arm_srem arm_srem"
  "under \<epsilon> \<epsilon>' (handles \<epsilon> \<epsilon>') arm_sinterstore arm_sinterstore"
  "under \<epsilon> \<epsilon>' (handles \<epsilon> \<epsilon>') arm_sunionstore arm_sunionstore"
  "under \<epsilon> \<epsilon>' (handles \<epsilon> \<epsilon>') arm_sdiffstore arm_sdiffstore"
  "under \<epsilon> \<epsilon>' (handles \<epsilon> \<epsilon>') arm_zrem arm_zrem"
  unfolding arm_append_def arm_setrange_def arm_getset_def arm_mset_def arm_msetnx_def
    arm_incr_def arm_decr_def arm_incrby_def arm_del_def arm_persist_def arm_rename_def
    arm_renamenx_def arm_hset_def arm_hdel_def arm_hincrby_def arm_hsetnx_def arm_rpush_def
    arm_lpush_def arm_rpop_def arm_lpop_def arm_lset_def arm_ltrim_def arm_lrem_def
    arm_linsert_def arm_lmove_def arm_rpoplpush_def arm_sadd_def arm_srem_def
    arm_sinterstore_def arm_sunionstore_def arm_sdiffstore_def arm_zrem_def
  by transfer_prover+

lemma float_arms_mirror:
  "takes (under \<epsilon> \<epsilon>' (handles \<epsilon> \<epsilon>')) arm_blmove arm_blmove"
  "takes (under \<epsilon> \<epsilon>' (handles \<epsilon> \<epsilon>')) arm_brpoplpush arm_brpoplpush"
  "takes (under \<epsilon> \<epsilon>' (handles \<epsilon> \<epsilon>')) arm_blpop arm_blpop"
  "takes (under \<epsilon> \<epsilon>' (handles \<epsilon> \<epsilon>')) arm_brpop arm_brpop"
  "takes (under \<epsilon> \<epsilon>' (handles \<epsilon> \<epsilon>')) arm_zadd arm_zadd"
  "takes (under \<epsilon> \<epsilon>' (handles \<epsilon> \<epsilon>')) arm_zincrby arm_zincrby"
  unfolding arm_blmove_def arm_brpoplpush_def arm_blpop_def arm_brpop_def arm_zadd_def
    arm_zincrby_def
  by transfer_prover+

lemma handles_at:
  "under \<epsilon> \<epsilon>' (handles \<epsilon> \<epsilon>') f g \<Longrightarrow> handles \<epsilon> \<epsilon>' (f \<epsilon>) (g \<epsilon>')"
  by (simp add: rel_fun_def env_pair_def)

lemma handles_at_floats:
  "takes (under \<epsilon> \<epsilon>' (handles \<epsilon> \<epsilon>')) f g \<Longrightarrow> handles \<epsilon> \<epsilon>' (f F \<epsilon>) (g F \<epsilon>')"
  by (simp add: rel_fun_def env_pair_def)

lemmas write_arms_handle =
  write_arms_mirror [THEN handles_at] float_arms_mirror [THEN handles_at_floats]

abbreviation rewritten_commands :: "bytes list" where
  "rewritten_commands \<equiv> [''SET'', ''SPOP'', ''EXPIRE'', ''PEXPIRE'', ''EXPIREAT'', ''PEXPIREAT'']"

lemma arms_table_mirror:
  "list_all2 (\<lambda>(n, a) (n', a'). n = n'
     \<and> (n \<in> set WRITE_COMMANDS \<longrightarrow> n \<notin> set rewritten_commands \<longrightarrow> handles \<epsilon> \<epsilon>' a a'))
     (arms F \<epsilon>) (arms F \<epsilon>')"
  unfolding arms_def list_all2_Cons prod.case
  by (intro conjI impI refl list.rel_inject(1);
      ((rule write_arms_handle) | (simp add: WRITE_COMMANDS_def; fail)))

end
