(* ===== verification/Rm_Replay.thy ===== *)
theory Rm_Replay
  imports Rm_Mirror
begin

text \<open>
  What the log is good for. A command is logged as itself or as a deterministic equivalent, and what
  is not logged changed nothing; so replaying the log, in another process and at another time, leads
  to an engine that mirrors the one that wrote it.
\<close>

section \<open>One command\<close>

lemma map_of_list_all2:
  "list_all2 (\<lambda>(n, a) (n', a'). n = n' \<and> P n a a') xs ys \<Longrightarrow> map_of xs n = Some a \<Longrightarrow>
   \<exists>a'. map_of ys n = Some a' \<and> P n a a'"
  by (induction xs ys rule: list_all2_induct) (auto split: if_splits)

lemma dispatch_mirror:
  assumes "upper_name n = Some name" and "name \<in> set WRITE_COMMANDS" and "name \<notin> set rewritten_commands"
    and "mirrors \<epsilon> \<epsilon>' e f" and "dispatch F \<epsilon> (FArray (map FBulk (n # rest))) e = Some (r, e1)"
  shows "\<exists>f1. dispatch F \<epsilon>' (FArray (map FBulk (n # rest))) f = Some (r, f1) \<and> mirrors \<epsilon> \<epsilon>' e1 f1"
proof -
  have args: "frame_to_args (FArray (map FBulk (n # rest))) = Inr (n # rest)" by simp
  show ?thesis
  proof (cases "map_of (arms F \<epsilon>) name")
    case None
    moreover from this have "map_of (arms F \<epsilon>') name = None"
      by (metis (no_types, lifting) map_of_list_all2 [OF arms_table_mirror] not_None_eq)
    ultimately show ?thesis using assms(1,4,5) args by (auto simp: dispatch_def simp del: list.map)
  next
    case (Some a)
    then obtain a' where a': "map_of (arms F \<epsilon>') name = Some a'" and "handles \<epsilon> \<epsilon>' a a'"
      using map_of_list_all2 [OF arms_table_mirror] assms(2,3) by blast
    then have "rel_option (rel_prod (=) (mirrors \<epsilon> \<epsilon>')) (a rest e) (a' rest f)"
      using assms(4) by (simp add: rel_fun_def)
    then show ?thesis
      using assms(1,5) Some a' args
      by (auto simp: dispatch_def option_rel_Some1 rel_prod_conv simp del: list.map)
  qed
qed

lemma set_apply_mirror [transfer_rule]:
  "under \<epsilon> \<epsilon>' (takes (takes (takes (acts \<epsilon> \<epsilon>')))) set_apply set_apply"
  unfolding set_apply_def by transfer_prover

lemma arm_set_mirror:
  assumes "mirrors \<epsilon> \<epsilon>' e f" and "\<forall>ms. set_ttl rest \<noteq> Inr (Some ms)" and "arm_set \<epsilon> rest e = Some (r, e1)"
  shows "\<exists>f1. arm_set \<epsilon>' rest f = Some (r, f1) \<and> mirrors \<epsilon> \<epsilon>' e1 f1"
proof -
  have "rel_prod (=) (mirrors \<epsilon> \<epsilon>') (set_apply \<epsilon> (set_flags rest) (rest ! 0) (rest ! 1) e)
      (set_apply \<epsilon>' (set_flags rest) (rest ! 0) (rest ! 1) f)"
    by (rule actsD(2) [OF set_apply_mirror assms(1)])
  then show ?thesis
    using assms
    by (auto simp: arm_set_def require_args_def rel_prod_sel Let_def split_def
        split: sum.splits option.splits if_splits)
qed

text \<open>The popped member is what the logged \<open>SREM\<close> removes.\<close>

lemma ks_mutate_cong_at:
  assumes "\<And>v x. ks k = Some (v, x) \<Longrightarrow> g v = g' v"
  shows "ks_mutate k g ks = ks_mutate k g' ks"
  using assms by (auto simp: ks_defs split: option.split)

lemma spop_as_srem:
  assumes "mirrors \<epsilon> \<epsilon>' e f" and "spop \<epsilon> key e = (Inr (Some member), e1)" and "rand_in_range \<epsilon>"
  shows "\<exists>n f1. srem \<epsilon>' key [member] f = (Inr n, f1) \<and> mirrors \<epsilon> \<epsilon>' e1 f1"
proof -
  let ?pop = "\<lambda>v. snd (snd (spop_mut \<epsilon> v))" and ?rem = "\<lambda>v. snd (snd (srem_mut [member] v))"
  note f = mirrorsD [OF assms(1)]
  have e1: "e1 = snd (spop \<epsilon> key e)" using assms(2) by simp
  have "fst (spop \<epsilon> key e) = Inr (Some member)" using assms(2) by simp
  then obtain v x where v: "live \<epsilon> e key = Some (v, x)" and m: "fst (spop_mut \<epsilon> v) = Inr (Some member)"
    by (auto simp: spop_def engine_results split: option.splits)
  then obtain s where s: "v = VSet s" and c: "iter_choose \<epsilon> s = Some member"
    by (cases v) (auto split: option.splits)
  then have "member \<in> set s"
    using iter_choose_mem [OF assms(3), of s] by (auto simp: iter_choose_def split: if_splits)
  with s c have same: "?pop v = ?rem v" and n: "\<exists>n. fst (srem_mut [member] v) = Inr n"
    by (simp_all add: srem_mut.simps)
  have "live \<epsilon>' (snd (srem \<epsilon>' key [member] f)) = ks_mutate key ?rem (live \<epsilon> e)"
    using f by (simp add: srem_def unbounded_views)
  also have "\<dots> = ks_mutate key ?pop (live \<epsilon> e)"
    by (rule ks_mutate_cong_at) (use v same in simp)
  finally have "mirrors \<epsilon> \<epsilon>' e1 (snd (srem \<epsilon>' key [member] f))"
    using f by (simp add: mirrors_def e1 spop_def srem_def unbounded_views open_ended_ops)
  moreover have "\<exists>n. fst (srem \<epsilon>' key [member] f) = Inr n"
    using n v f by (simp add: srem_def engine_results)
  ultimately show ?thesis by (metis prod.collapse)
qed

text \<open>A blocking command that found nothing, and a pop from no set, are not logged: they change nothing.\<close>

lemma mutate_quiet:
  assumes "unlimited \<epsilon> e" and "fst (engine_with_mut_delta \<epsilon> key g (Inr None) e) = Inr None"
    and "\<And>v. value_ok v \<Longrightarrow> fst (g v) \<noteq> Inr None" and "delta_exact (\<lambda>v. snd (g v))"
  shows "live \<epsilon> (snd (engine_with_mut_delta \<epsilon> key g (Inr None) e)) = live \<epsilon> e"
proof (cases "live \<epsilon> e key")
  case None
  then show ?thesis using assms by (simp add: ks_defs)
next
  case (Some p)
  then have "value_ok (fst p)"
    using assms(1) engine_view_value_ok by (cases p) (auto simp: unlimited_def)
  with assms Some show ?thesis by (auto simp: engine_results split: prod.splits)
qed

lemma pop_mut_busy: "value_ok v \<Longrightarrow> fst (pop_mut fin v) \<noteq> Inr None"
  by (cases v; cases fin) (auto simp: value_ok_def pop_end_eq Let_def)

lemma spop_mut_busy: "value_ok v \<Longrightarrow> fst (spop_mut \<epsilon> v) \<noteq> Inr None"
  by (cases v) (auto simp: value_ok_def iter_choose_def split: option.splits)

lemma pop_quiet:
  assumes "unlimited \<epsilon> e" and "fst (engine_with_mut_delta \<epsilon> key (pop_mut fin) (Inr None) e) = Inr None"
  shows "live \<epsilon> (snd (engine_with_mut_delta \<epsilon> key (pop_mut fin) (Inr None) e)) = live \<epsilon> e"
  using assms by (intro mutate_quiet) (auto simp: pop_mut_busy)

lemma spop_quiet:
  assumes "unlimited \<epsilon> e" and "rand_in_range \<epsilon>" and "fst (spop \<epsilon> key e) = Inr None"
  shows "live \<epsilon> (snd (spop \<epsilon> key e)) = live \<epsilon> e"
  using assms unfolding spop_def by (intro mutate_quiet) (auto simp: spop_mut_busy)

lemma lmove_quiet:
  assumes "unlimited \<epsilon> e" and "fst (lmove \<epsilon> source destination a b e) = Inr None"
  shows "live \<epsilon> (snd (lmove \<epsilon> source destination a b e)) = live \<epsilon> e"
  using assms
  by (auto simp: lmove_def Let_def split_def pop_quiet simp del: live_ops
      split: if_splits sum.splits option.splits) simp

lemma first_available_pop_quiet:
  assumes "unlimited \<epsilon> e" and "fst (first_available_pop \<epsilon> keys fin e) = Inr None"
  shows "live \<epsilon> (snd (first_available_pop \<epsilon> keys fin e)) = live \<epsilon> e"
  using assms
proof (induction keys arbitrary: e)
  case (Cons key keys)
  let ?p = "engine_with_mut_delta \<epsilon> key (pop_mut fin) (Inr None) e"
  have pop: "(case fin of ListLeft \<Rightarrow> lpop \<epsilon> key e | ListRight \<Rightarrow> rpop \<epsilon> key e) = ?p"
    by (cases fin) (simp_all add: lpop_def rpop_def)
  have p: "fst ?p = Inr None" and rest: "first_available_pop \<epsilon> (key # keys) fin e =
      first_available_pop \<epsilon> keys fin (snd ?p)"
    using Cons.prems(2) unfolding first_available_pop.simps pop Let_def split_def
    by (auto split: sum.splits option.splits)
  have "live \<epsilon> (snd ?p) = live \<epsilon> e" by (rule pop_quiet [OF Cons.prems(1) p])
  moreover have "unlimited \<epsilon> (snd ?p)" using Cons.prems(1) by simp
  ultimately show ?case using Cons.IH [of "snd ?p"] Cons.prems(2) unfolding rest by simp
qed simp

lemma rewritten_arms:
  "map_of (arms F \<epsilon>) ''BLMOVE'' = Some (arm_blmove F \<epsilon>)"
  "map_of (arms F \<epsilon>) ''BRPOPLPUSH'' = Some (arm_brpoplpush F \<epsilon>)"
  "map_of (arms F \<epsilon>) ''BLPOP'' = Some (arm_blpop F \<epsilon>)"
  "map_of (arms F \<epsilon>) ''BRPOP'' = Some (arm_brpop F \<epsilon>)"
  "map_of (arms F \<epsilon>) ''SET'' = Some (arm_set \<epsilon>)"
  "map_of (arms F \<epsilon>) ''SPOP'' = Some (arm_spop \<epsilon>)"
  "map_of (arms F \<epsilon>) ''SREM'' = Some (arm_srem \<epsilon>)"
  by (simp_all add: arms_def)

lemma null_replies:
  "wrong_args name \<noteq> FNull" "engine_error_to_frame err \<noteq> FNull"
  "bulk_or_null r = FNull \<longleftrightarrow> r = None" "popped_reply p = FNull \<longleftrightarrow> p = None"
  by (cases r; auto simp: wrong_args_def engine_error_to_frame_def popped_reply_def split: option.split)+

lemma reply_null:
  "(\<And>r. ok r = FNull \<longleftrightarrow> r = None) \<Longrightarrow> reply ok p = Some (FNull, e1) \<longleftrightarrow> fst p = Inr None \<and> snd p = e1"
  by (auto simp: reply_def null_replies split: sum.splits)

lemma blocked_changes_nothing:
  assumes "unlimited \<epsilon> e" and "name \<in> set [''BLMOVE'', ''BRPOPLPUSH'', ''BLPOP'', ''BRPOP'']"
    and "map_of (arms F \<epsilon>) name = Some a" and "a rest e = Some (FNull, e1)"
  shows "live \<epsilon> e1 = live \<epsilon> e"
proof -
  have timeout: "parse_timeout_secs F raw \<noteq> Inl FNull" for raw
    by (auto simp: parse_timeout_secs_def split: option.split)
  have "a \<in> {arm_blmove F \<epsilon>, arm_brpoplpush F \<epsilon>, arm_blpop F \<epsilon>, arm_brpop F \<epsilon>}"
    using assms(2,3) by (auto simp: rewritten_arms)
  with assms(4) consider
      s d x y where "lmove \<epsilon> s d x y e = (Inr None, e1)"
    | ks fin where "first_available_pop \<epsilon> ks fin e = (Inr None, e1)"
    unfolding arm_blmove_def arm_brpoplpush_def arm_blpop_def arm_brpop_def
    by (auto simp: require_args_def timeout_arg_def list_ends_def null_replies timeout reply_null
        prod_eq_iff split: if_splits sum.splits option.splits)
  then show ?thesis
    using assms(1) by cases (metis lmove_quiet first_available_pop_quiet fst_conv snd_conv)+
qed

section \<open>What a command logs, replayed\<close>

text \<open>The commands that set no deadline.\<close>

definition timeless :: "frame \<Rightarrow> bool" where
  "timeless frame \<longleftrightarrow>
     (case frame_to_args frame of
        Inr (n # rest) \<Rightarrow>
          (case upper_name n of
             Some name \<Rightarrow>
               name \<notin> set [''EXPIRE'', ''PEXPIRE'', ''EXPIREAT'', ''PEXPIREAT'']
               \<and> (name = ''SET'' \<longrightarrow> (case set_ttl rest of Inr (Some _) \<Rightarrow> False | _ \<Rightarrow> True))
           | None \<Rightarrow> True)
      | _ \<Rightarrow> True)"

text \<open>Applied to \<open>f\<close>, the log (of at most one command) leads to an engine that mirrors \<open>e1\<close>.\<close>

definition relogs ::
  "('f::{linorder,plus,zero}) float_ops \<Rightarrow> env \<Rightarrow> env \<Rightarrow> frame list \<Rightarrow> 'f engine \<Rightarrow> 'f engine \<Rightarrow> bool" where
  "relogs F \<epsilon> \<epsilon>' log e1 f \<longleftrightarrow>
     (log = [] \<and> mirrors \<epsilon> \<epsilon>' e1 f)
     \<or> (\<exists>args r f1. log = [FArray (map FBulk args)] \<and> marker (FArray (map FBulk args)) = None
          \<and> dispatch F \<epsilon>' (FArray (map FBulk args)) f = Some (r, f1) \<and> mirrors \<epsilon> \<epsilon>' e1 f1)"

lemma relogs_quiet:
  "mirrors \<epsilon> \<epsilon>' e f \<Longrightarrow> unlimited \<epsilon> e1 \<Longrightarrow> live \<epsilon> e1 = live \<epsilon> e \<Longrightarrow> relogs F \<epsilon> \<epsilon>' [] e1 f"
  by (auto simp: relogs_def mirrors_def unbounded_def unlimited_def engine_ok_def store_ok_def)

lemma write_no_marker:
  "upper_name n = Some name \<Longrightarrow> name \<in> set WRITE_COMMANDS \<Longrightarrow> marker (FArray (map FBulk (n # rest))) = None"
  by (cases rest) (auto simp: WRITE_COMMANDS_def)

lemma relogs_verbatim:
  assumes "upper_name n = Some name" and "name \<in> set WRITE_COMMANDS"
    and "\<exists>f1. dispatch F \<epsilon>' (FArray (map FBulk (n # rest))) f = Some (r, f1) \<and> mirrors \<epsilon> \<epsilon>' e1 f1"
  shows "relogs F \<epsilon> \<epsilon>' [FArray (map FBulk (n # rest))] e1 f"
  unfolding relogs_def using assms write_no_marker [OF assms(1,2)] by blast

lemma dispatch_args:
  assumes "upper_name n = Some name" and "map_of (arms F \<epsilon>) name = Some arm"
  shows "dispatch F \<epsilon> (FArray (map FBulk (n # rest))) e = arm rest e"
proof -
  have "frame_to_args (FArray (map FBulk (n # rest))) = Inr (n # rest)" by simp
  then show ?thesis using assms by (simp add: dispatch_def del: list.map)
qed

lemma frame_to_args_Inl: "frame_to_args frame = Inl err \<Longrightarrow> is_error err"
  by (cases frame) (auto split: option.splits)

lemma find_ttl_absent:
  "position (\<lambda>f. f = flag) (map (\<lambda>b. ascii_uppercase (utf8_lossy b)) bs) = None \<Longrightarrow>
   find_ttl flag (map FBulk bs) = Some None"
  by (induction bs) (auto split: if_splits)

lemma set_logged_verbatim:
  assumes "set_ttl rest = Inr None"
  shows "rewrite_set_ttl_to_pexpireat \<epsilon> (map FBulk (n # rest)) = None"
proof -
  have "find_ttl ''EX'' (map FBulk (drop 2 rest)) = Some None"
    and "find_ttl ''PX'' (map FBulk (drop 2 rest)) = Some None"
    using assms by (auto simp: set_ttl_def set_flags_def intro!: find_ttl_absent split: option.splits)
  then show ?thesis
    by (auto simp: rewrite_set_ttl_to_pexpireat_def numeral_3_eq_3 numeral_2_eq_2 drop_map split: frame.split)
qed

lemma relogs_set:
  assumes "mirrors \<epsilon> \<epsilon>' e f" and "upper_name n = Some ''SET''" and "timeless (FArray (map FBulk (n # rest)))"
    and "dispatch F \<epsilon> (FArray (map FBulk (n # rest))) e = Some (r, e1)" and "\<not> is_error r"
  shows "relogs F \<epsilon> \<epsilon>' (to_log \<epsilon> ''SET'' (map FBulk (n # rest)) r) e1 f"
proof -
  have arm: "arm_set \<epsilon> rest e = Some (r, e1)"
    using assms(4) unfolding dispatch_args [OF assms(2) rewritten_arms(5)] .
  have no: "\<forall>ms. set_ttl rest \<noteq> Inr (Some ms)"
    using assms(2,3) by (auto simp: timeless_def)
  have "set_ttl rest = Inr None"
    using arm no assms(5)
    by (cases "set_ttl rest")
      (auto simp: arm_set_def require_args_def wrong_args_def dest: set_ttl_error split: if_splits option.splits)
  then have "to_log \<epsilon> ''SET'' (map FBulk (n # rest)) r = [FArray (map FBulk (n # rest))]"
    by (auto simp: to_log_def Let_def set_logged_verbatim simp del: list.map split: frame.split)
  moreover have "\<exists>f1. dispatch F \<epsilon>' (FArray (map FBulk (n # rest))) f = Some (r, f1) \<and> mirrors \<epsilon> \<epsilon>' e1 f1"
    unfolding dispatch_args [OF assms(2) rewritten_arms(5)] by (rule arm_set_mirror [OF assms(1) no arm])
  ultimately show ?thesis
    using relogs_verbatim [OF assms(2)] by (simp add: WRITE_COMMANDS_def del: list.map)
qed

lemma relogs_spop:
  assumes "mirrors \<epsilon> \<epsilon>' e f" and "unlimited \<epsilon> e" and "rand_in_range \<epsilon>"
    and "upper_name n = Some ''SPOP''" and "unlimited \<epsilon> e1"
    and "dispatch F \<epsilon> (FArray (map FBulk (n # rest))) e = Some (r, e1)" and "\<not> is_error r"
  shows "relogs F \<epsilon> \<epsilon>' (to_log \<epsilon> ''SPOP'' (map FBulk (n # rest)) r) e1 f"
proof -
  have "arm_spop \<epsilon> rest e = Some (r, e1)"
    using assms(6) unfolding dispatch_args [OF assms(4) rewritten_arms(6)] .
  then obtain key rest' where rest: "rest = key # rest'" and r: "reply bulk_or_null (spop \<epsilon> key e) = Some (r, e1)"
    using assms(7) by (cases rest) (auto simp: arm_spop_def require_args_def wrong_args_def)
  then obtain p where p: "spop \<epsilon> key e = (Inr p, e1)" and rp: "r = bulk_or_null p"
    using assms(7) by (cases "spop \<epsilon> key e") (auto simp: reply_def engine_error_to_frame_def split: sum.splits)
  show ?thesis
  proof (cases p)
    case None
    with p have "live \<epsilon> e1 = live \<epsilon> e" using spop_quiet [OF assms(2,3), of key] by simp
    with None rp relogs_quiet [OF assms(1,5)] show ?thesis by (simp add: to_log_def)
  next
    case (Some member)
    with p spop_as_srem [OF assms(1) _ assms(3)] obtain k f1
      where k: "srem \<epsilon>' key [member] f = (Inr k, f1)" "mirrors \<epsilon> \<epsilon>' e1 f1" by blast
    have "upper_name ''SREM'' = Some ''SREM''" by code_simp
    from dispatch_args [OF this rewritten_arms(7), of F \<epsilon>' "[key, member]" f] k
    have "\<exists>f1. dispatch F \<epsilon>' (FArray (map FBulk [''SREM'', key, member])) f = Some (FInteger k, f1)
        \<and> mirrors \<epsilon> \<epsilon>' e1 f1"
      by (simp add: arm_srem_def require_args_def reply_def)
    from relogs_verbatim [OF \<open>upper_name ''SREM'' = Some ''SREM''\<close> _ this] Some rp rest show ?thesis
      by (simp add: to_log_def WRITE_COMMANDS_def)
  qed
qed

lemma relogs_plain:
  assumes "mirrors \<epsilon> \<epsilon>' e f" and "unlimited \<epsilon> e" and "unlimited \<epsilon> e1"
    and "upper_name n = Some name" and "name \<in> set WRITE_COMMANDS" and "name \<notin> set rewritten_commands"
    and "dispatch F \<epsilon> (FArray (map FBulk (n # rest))) e = Some (r, e1)"
  shows "relogs F \<epsilon> \<epsilon>' (to_log \<epsilon> name (map FBulk (n # rest)) r) e1 f"
proof (cases "name \<in> set [''BLMOVE'', ''BRPOPLPUSH'', ''BLPOP'', ''BRPOP''] \<and> r = FNull")
  case True
  then obtain arm where arm: "map_of (arms F \<epsilon>) name = Some arm" by (auto simp: rewritten_arms)
  have "live \<epsilon> e1 = live \<epsilon> e"
    using blocked_changes_nothing [OF assms(2) _ arm] True assms(7)
    unfolding dispatch_args [OF assms(4) arm] by blast
  with True relogs_quiet [OF assms(1,3)] show ?thesis by (auto simp: to_log_def)
next
  case False
  then have "to_log \<epsilon> name (map FBulk (n # rest)) r = [FArray (map FBulk (n # rest))]"
    using assms(6) by (auto simp: to_log_def Let_def simp del: list.map)
  with relogs_verbatim [OF assms(4,5) dispatch_mirror [OF assms(4,5,6,1,7)]] show ?thesis by simp
qed

lemma relogs_step:
  assumes "mirrors \<epsilon> \<epsilon>' e f" and "unlimited \<epsilon> e" and "rand_in_range \<epsilon>" and "timeless frame"
    and "dispatch_write_path F \<epsilon> frame e = Some (r, log, e1)"
  shows "unlimited \<epsilon> e1 \<and> relogs F \<epsilon> \<epsilon>' log e1 f"
proof -
  have d: "dispatch F \<epsilon> frame e = Some (r, e1)"
    and log: "log = (case (r, extract_write_command_name frame, frame) of
       (FError _, _, _) \<Rightarrow> [] | (_, Some name, FArray items) \<Rightarrow> to_log \<epsilon> name items r | _ \<Rightarrow> [])"
    using assms(5) by (auto simp: dispatch_write_path_def split: option.splits)
  note conf = dispatch_confined [OF assms(3) d]
  have un: "unlimited \<epsilon> e1" by (rule confined_unlimited(1) [OF conf assms(2)])
  have "relogs F \<epsilon> \<epsilon>' log e1 f"
  proof (cases "is_error r \<or> extract_write_command_name frame = None")
    case True
    then have "log = []" by (cases r) (auto simp: log split: frame.splits option.splits)
    moreover have "live \<epsilon> e1 = live \<epsilon> e"
      using confined_unlimited(2) [OF conf assms(2)] True by (auto simp: frame_writes_def)
    ultimately show ?thesis using relogs_quiet [OF assms(1) un] by simp
  next
    case False
    then obtain n rest where fr: "frame = FArray (map FBulk (n # rest))"
      using d frame_to_args_Inr [of frame] frame_to_args_Inl [of frame]
      by (auto simp: dispatch_def simp del: list.map split: sum.splits list.splits)
    then have "extract_write_command_name frame =
        (case upper_name n of Some name \<Rightarrow> if name \<in> set WRITE_COMMANDS then Some name else None | None \<Rightarrow> None)"
      by (simp only: extract_write_command_name_def command_of_args)
    with False obtain name where name: "upper_name n = Some name" "name \<in> set WRITE_COMMANDS"
      and ex: "extract_write_command_name frame = Some name"
      by (auto split: option.splits if_splits)
    have l: "log = to_log \<epsilon> name (map FBulk (n # rest)) r"
      using False unfolding log ex by (cases r) (auto simp: fr)
    note ctx = assms(1,2,3) un name d [unfolded fr]
    consider "name = ''SET''" | "name = ''SPOP''" | "name \<notin> set rewritten_commands"
      using assms(4) name(1) unfolding fr timeless_def by auto
    then have "relogs F \<epsilon> \<epsilon>' (to_log \<epsilon> name (map FBulk (n # rest)) r) e1 f"
    proof cases
      case 1
      then show ?thesis using relogs_set [OF assms(1)] ctx False assms(4) fr by blast
    next
      case 2
      then show ?thesis using relogs_spop [OF assms(1,2,3)] ctx False by blast
    next
      case 3
      then show ?thesis using relogs_plain [OF assms(1,2) un] ctx by blast
    qed
    then show ?thesis by (simp only: l)
  qed
  with un show ?thesis by simp
qed

section \<open>Runs\<close>

text \<open>Frames served one after the other, and what they log.\<close>

fun logged_run ::
  "('f::{linorder,plus,zero}) float_ops \<Rightarrow> (nat \<Rightarrow> env) \<Rightarrow> nat \<Rightarrow> frame list \<Rightarrow> 'f engine
   \<Rightarrow> (frame list \<times> 'f engine) option" where
  "logged_run F clk i [] e = Some ([], e)"
| "logged_run F clk i (frame # frames) e =
     (case dispatch_write_path F (clk i) frame e of
        None \<Rightarrow> None
      | Some (_, log, e1) \<Rightarrow>
          map_option (\<lambda>(logs, e2). (log @ logs, e2)) (logged_run F clk (Suc i) frames e1))"

text \<open>A process: one hash function, a clock that does not run backwards, a generator within range.\<close>

definition process_clock :: "(nat \<Rightarrow> env) \<Rightarrow> bool" where
  "process_clock clk \<longleftrightarrow>
     (\<forall>i. env_hash (clk i) = env_hash (clk 0) \<and> rand_in_range (clk i))
     \<and> (\<forall>i. env_now (clk i) \<le> env_now (clk (Suc i)))"

lemma process_clockD:
  assumes "process_clock clk"
  shows "env_hash (clk i) = env_hash (clk j)" and "rand_in_range (clk i)"
    and "i \<le> j \<Longrightarrow> env_now (clk i) \<le> env_now (clk j)"
  using assms lift_Suc_mono_le [of "\<lambda>i. env_now (clk i)" i j] by (auto simp: process_clock_def) metis

lemma open_ended_later: "open_ended (engine_view h t e) \<Longrightarrow> t \<le> t' \<Longrightarrow> engine_view h t' e = engine_view h t e"
  by (fastforce simp: engine_view_later prune_def open_ended_def fun_eq_iff split: option.split)

lemma mirrors_later:
  assumes "mirrors (clk i) (clk' j) e f" and "process_clock clk" and "process_clock clk'"
    and "i \<le> i'" and "j \<le> j'"
  shows "mirrors (clk i') (clk' j') e f"
proof -
  have "live (clk i') e = live (clk i) e"
    using assms process_clockD(1) [OF assms(2), of i' i] process_clockD(3) [OF assms(2,4)]
    by (metis mirrors_def open_ended_later)
  moreover have "live (clk' j') f = live (clk' j) f"
    using process_clockD(1) [OF assms(3), of j' j] process_clockD(3) [OF assms(3,5)] mirrorsD(4) [OF assms(1)]
    by (metis open_ended_later)
  ultimately show ?thesis using assms(1) by (auto simp: mirrors_def)
qed

lemma logged_run_mirror:
  assumes "process_clock clk" and "process_clock clk'"
    and "\<forall>frame \<in> set frames. timeless frame"
    and "logged_run F clk i frames e = Some (log, e1)" and "unlimited (clk i) e"
    and "mirrors (clk i) (clk' j) e f"
  shows "\<exists>f1. apply_commands F clk' j log f = Some f1
      \<and> mirrors (clk (i + length frames)) (clk' (j + length log)) e1 f1
      \<and> (\<forall>g \<in> set log. loggable g \<and> marker g = None)"
  using assms(3-)
proof (induction frames arbitrary: i j e f log)
  case (Cons frame frames)
  then obtain r l ls e' where step: "dispatch_write_path F (clk i) frame e = Some (r, l, e')"
    and rest: "logged_run F clk (Suc i) frames e' = Some (ls, e1)" and log: "log = l @ ls"
    by (auto split: option.splits prod.splits)
  have un: "unlimited (clk i) e'" and re: "relogs F (clk i) (clk' j) l e' f"
    using relogs_step [OF Cons.prems(4,3) process_clockD(2) [OF assms(1)] _ step] Cons.prems(1) by auto
  have un': "unlimited (clk (Suc i)) e'"
    using un process_clockD(1) [OF assms(1), of i "Suc i"] by (simp add: unlimited_def)
  from re obtain f' where one: "apply_commands F clk' j l f = Some f'" "mirrors (clk i) (clk' j) e' f'"
    and l: "\<forall>g \<in> set l. loggable g \<and> marker g = None"
    by (auto simp: relogs_def simp del: list.map)
  have "mirrors (clk (Suc i)) (clk' (j + length l)) e' f'"
    by (rule mirrors_later [OF one(2) assms(1,2)]) simp_all
  from Cons.IH [OF _ rest un' this] Cons.prems(1) one(1) l show ?case
    by (fastforce simp: log apply_commands_append add.assoc)
qed simp

lemma committed_plain: "\<forall>g \<in> set fs. marker g = None \<Longrightarrow> committed fs = fs"
  unfolding committed_def by (induction fs) auto

lemma settled_plain: "\<forall>g \<in> set fs. marker g = None \<Longrightarrow> settled fs = fs"
  unfolding settled_def by (induction fs) auto

lemma mirrors_new: "mirrors \<epsilon> \<epsilon>' (engine_new \<delta>) (engine_new \<delta>')"
  by (simp add: mirrors_def unbounded_def open_ended_def engine_view_new engine_new_unlimited)
    (simp add: engine_new_def store_new_def)

text \<open>
  C37: The log reproduces the data. A fresh engine serves any commands that set no deadline, popping
  random set members and timing out on empty lists included, and logs what the server logs for them.
  Replaying that log on another fresh engine - in another process, with another hash function, other
  random choices and another clock - returns, keeps the file as it is, counts every logged command,
  and leaves an engine that holds exactly the same entries, now and at any later time.
\<close>

theorem replay_reproduces:
  assumes "logged_run F clk 0 frames (engine_new \<epsilon>) = Some (log, e)"
    and "\<forall>frame \<in> set frames. timeless frame"
    and "process_clock clk" and "process_clock clk'"
    and "length (concat (map (resp_encode Resp2) log)) < 2 ^ 62"
  shows "\<exists>e'. replay_with_stats F clk' (Some (concat (map (resp_encode Resp2) log))) 0 (engine_new \<epsilon>') =
        Some (\<lparr>st_commands = length log, st_bytes = length (concat (map (resp_encode Resp2) log))\<rparr>, e',
              Some (concat (map (resp_encode Resp2) log)))
      \<and> (\<forall>t t'. env_now (clk (length frames)) \<le> t \<and> env_now (clk' (length log)) \<le> t' \<longrightarrow>
           engine_view (env_hash (clk 0)) t e = engine_view (env_hash (clk' 0)) t' e')"
proof -
  let ?T = "clk (length frames)" and ?T' = "clk' (length log)"
  obtain e' where run: "apply_commands F clk' 0 log (engine_new \<epsilon>') = Some e'"
    and m: "mirrors ?T ?T' e e'" and log: "\<forall>g \<in> set log. loggable g \<and> marker g = None"
    using logged_run_mirror [OF assms(3,4,2,1) unlimited_new mirrors_new [where \<delta>' = \<epsilon>'], of 0] by auto
  let ?n = "length (concat (map enc log))"
  have whole: "whole ?n log = log" by (simp add: whole_all)
  have "replay_with_stats F clk' (Some (take ?n (concat (map enc log)))) 0 (engine_new \<epsilon>') =
      Some (\<lparr>st_commands = length log, st_bytes = ?n\<rparr>, e', Some (concat (map enc log)))"
    using replay_log_prefix [of log F clk' ?n "engine_new \<epsilon>'" e'] run log assms(5)
    by (simp add: whole committed_plain settled_plain)
  moreover have "engine_view (env_hash (clk 0)) t e = engine_view (env_hash (clk' 0)) t' e'"
    if "env_now ?T \<le> t" and "env_now ?T' \<le> t'" for t t'
  proof -
    have "engine_view (env_hash ?T) t e = live ?T e"
      using m that(1) by (intro open_ended_later) (auto simp: mirrors_def)
    moreover have "engine_view (env_hash ?T') t' e' = live ?T' e'"
      using mirrorsD(4) [OF m] that(2) by (rule open_ended_later)
    ultimately show ?thesis
      using mirrorsD(3) [OF m] process_clockD(1) [OF assms(3)] process_clockD(1) [OF assms(4)] by metis
  qed
  ultimately show ?thesis by (intro exI [of _ e']) auto
qed

theorem replay_reproduces_witness:
  "\<exists>stats e'. replay_with_stats sample_floats (\<lambda>_. sample_env)
       (Some (resp_encode Resp2 (sample_command [''set'', ''a'', ''1'']))) 0 (engine_new sample_env) =
     Some (stats, e', Some (resp_encode Resp2 (sample_command [''set'', ''a'', ''1''])))
   \<and> st_commands stats = 1
   \<and> engine_view (env_hash sample_env) 100 e' ''a'' = Some (VString ''1'', None)"
proof -
  let ?f = "sample_command [''set'', ''a'', ''1'']"
  let ?e = "engine_set sample_env ''a'' (VString ''1'') (engine_new sample_env) :: nat engine"
  have ew: "extract_write_command_name ?f = Some ''SET''" by code_simp
  have tl: "to_log sample_env ''SET'' (map FBulk [''set'', ''a'', ''1'']) (FSimple ''OK'') = [?f]"
    using set_logged_verbatim [of "[''a'', ''1'']" sample_env "''set''"]
    by (simp add: to_log_def set_ttl_def set_flags_def)
  have run: "logged_run sample_floats (\<lambda>_. sample_env) 0 [?f] (engine_new sample_env) = Some ([?f], ?e)"
    using ew tl by (simp add: dispatch_write_path_def dispatch_set_plain del: list.map)
  have clk: "process_clock (\<lambda>_. sample_env)" by (simp add: process_clock_def sample_env_rand)
  have "timeless ?f" by (simp add: timeless_def sample_names set_ttl_def set_flags_def)
  moreover have "length (concat (map (resp_encode Resp2) [?f])) = 27" by code_simp
  ultimately obtain e' where rep: "replay_with_stats sample_floats (\<lambda>_. sample_env)
        (Some (concat (map (resp_encode Resp2) [?f]))) 0 (engine_new sample_env) =
      Some (\<lparr>st_commands = length [?f], st_bytes = length (concat (map (resp_encode Resp2) [?f]))\<rparr>, e',
        Some (concat (map (resp_encode Resp2) [?f])))"
    and eq: "\<forall>t t'. env_now sample_env \<le> t \<and> env_now sample_env \<le> t' \<longrightarrow>
        engine_view (env_hash sample_env) t ?e = engine_view (env_hash sample_env) t' e'"
    using replay_reproduces [OF run _ clk clk, of sample_env] by auto
  have "live sample_env ?e = [''a'' \<mapsto> (VString ''1'', None)]"
    by (rule first_set(2)) (simp add: value_ok_def)
  moreover have "live sample_env ?e = engine_view (env_hash sample_env) 100 e'"
    using eq [rule_format, of "env_now sample_env" 100] by (simp add: sample_env_def)
  ultimately have "engine_view (env_hash sample_env) 100 e' ''a'' = Some (VString ''1'', None)"
    by (metis map_upd_Some_unfold)
  with rep show ?thesis by simp
qed

end
