(* ===== verification/Rm_Pubsub.thy ===== *)
theory Rm_Pubsub
  imports Rm_Resp Rm_Glob
begin

text \<open>
  The registry of subscriptions (\<open>crates/server/src/pubsub.rs\<close>): channels and patterns with their
  subscribers. The sending half of a subscriber's channel is a number; which receiving halves still
  exist is a parameter of \<open>publish\<close>. A hash map is its list of entries. The lemmas show which
  messages a subscriber receives for a publication, in terms of the subscriptions made and
  withdrawn before it.
\<close>

section \<open>The registry\<close>

record subscriber =
  sub_client :: nat
  sub_tx :: nat

record pubsub_registry =
  ps_channels :: "(bytes, subscriber list) hmap"
  ps_patterns :: "(bytes, subscriber list) hmap"

definition registry_default :: pubsub_registry where
  "registry_default = \<lparr>ps_channels = [], ps_patterns = []\<rparr>"

text \<open>\<open>entry(name).or_default().push\<close>, and \<open>retain\<close> with the removal of an emptied entry.\<close>

definition add_subscriber ::
  "bytes \<Rightarrow> nat \<Rightarrow> nat \<Rightarrow> (bytes, subscriber list) hmap \<Rightarrow> nat \<times> (bytes, subscriber list) hmap" where
  "add_subscriber name client tx m =
     (let subs = (case map_of m name of Some s \<Rightarrow> s | None \<Rightarrow> []) @ [\<lparr>sub_client = client, sub_tx = tx\<rparr>]
      in (length subs, AList.update name subs m))"

definition drop_subscriber ::
  "bytes \<Rightarrow> nat \<Rightarrow> (bytes, subscriber list) hmap \<Rightarrow> nat \<times> (bytes, subscriber list) hmap" where
  "drop_subscriber name client m =
     (case map_of m name of
        None \<Rightarrow> (0, m)
      | Some subs \<Rightarrow>
          (let kept = filter (\<lambda>s. sub_client s \<noteq> client) subs
           in (length kept, if kept = [] then AList.delete name m else AList.update name kept m)))"

definition subscribe :: "bytes \<Rightarrow> nat \<Rightarrow> nat \<Rightarrow> pubsub_registry \<Rightarrow> nat \<times> pubsub_registry" where
  "subscribe channel client tx r =
     (let (n, m) = add_subscriber channel client tx (ps_channels r) in (n, r\<lparr>ps_channels := m\<rparr>))"

definition unsubscribe :: "bytes \<Rightarrow> nat \<Rightarrow> pubsub_registry \<Rightarrow> nat \<times> pubsub_registry" where
  "unsubscribe channel client r =
     (let (n, m) = drop_subscriber channel client (ps_channels r) in (n, r\<lparr>ps_channels := m\<rparr>))"

definition psubscribe :: "bytes \<Rightarrow> nat \<Rightarrow> nat \<Rightarrow> pubsub_registry \<Rightarrow> nat \<times> pubsub_registry" where
  "psubscribe pattern client tx r =
     (let (n, m) = add_subscriber pattern client tx (ps_patterns r) in (n, r\<lparr>ps_patterns := m\<rparr>))"

definition punsubscribe :: "bytes \<Rightarrow> nat \<Rightarrow> pubsub_registry \<Rightarrow> nat \<times> pubsub_registry" where
  "punsubscribe pattern client r =
     (let (n, m) = drop_subscriber pattern client (ps_patterns r) in (n, r\<lparr>ps_patterns := m\<rparr>))"

definition channel_names :: "pubsub_registry \<Rightarrow> bytes list" where
  "channel_names r = map fst (ps_channels r)"

definition num_sub :: "bytes list \<Rightarrow> pubsub_registry \<Rightarrow> (bytes \<times> nat) list" where
  "num_sub requested r =
     map (\<lambda>c. (c, case map_of (ps_channels r) c of Some s \<Rightarrow> length s | None \<Rightarrow> 0)) requested"

definition num_pat :: "pubsub_registry \<Rightarrow> nat" where
  "num_pat r = length (ps_patterns r)"

section \<open>Publishing\<close>

definition message_frame :: "bytes \<Rightarrow> bytes \<Rightarrow> frame" where
  "message_frame channel message = FPush [FBulk ''message'', FBulk channel, FBulk message]"

definition pmessage_frame :: "bytes \<Rightarrow> bytes \<Rightarrow> bytes \<Rightarrow> frame" where
  "pmessage_frame pattern channel message =
     FPush [FBulk ''pmessage'', FBulk pattern, FBulk channel, FBulk message]"

text \<open>Sending to every subscriber of an entry: what arrives, and the subscribers that are kept.\<close>

definition send_all ::
  "(nat \<Rightarrow> bool) \<Rightarrow> frame \<Rightarrow> subscriber list \<Rightarrow> (nat \<times> frame) list \<times> subscriber list" where
  "send_all alive frame subs =
     (let kept = filter (\<lambda>s. alive (sub_tx s)) subs in (map (\<lambda>s. (sub_tx s, frame)) kept, kept))"

fun publish_patterns ::
  "(nat \<Rightarrow> bool) \<Rightarrow> bytes \<Rightarrow> bytes \<Rightarrow> (bytes, subscriber list) hmap
   \<Rightarrow> (nat \<times> frame) list \<times> (bytes, subscriber list) hmap" where
  "publish_patterns alive channel message [] = ([], [])"
| "publish_patterns alive channel message ((pattern, subs) # m) =
     (let (sent, subs') =
            (if glob_match pattern channel
             then send_all alive (pmessage_frame pattern channel message) subs else ([], subs));
          (sents, m') = publish_patterns alive channel message m
      in (sent @ sents,
          if subs' \<noteq> [] \<or> \<not> glob_match pattern channel then (pattern, subs') # m' else m'))"

text \<open>The number of successful sends, the frames that were sent, and the registry without the dead.\<close>

definition publish ::
  "(nat \<Rightarrow> bool) \<Rightarrow> bytes \<Rightarrow> bytes \<Rightarrow> pubsub_registry \<Rightarrow> nat \<times> (nat \<times> frame) list \<times> pubsub_registry" where
  "publish alive channel message r =
     (let (sent, cs) =
            (case map_of (ps_channels r) channel of
               None \<Rightarrow> ([], ps_channels r)
             | Some subs \<Rightarrow>
                 (let (sent, kept) = send_all alive (message_frame channel message) subs
                  in (sent, if kept = [] then AList.delete channel (ps_channels r)
                            else AList.update channel kept (ps_channels r))));
          (psent, ps) = publish_patterns alive channel message (ps_patterns r)
      in (length sent + length psent, sent @ psent, r\<lparr>ps_channels := cs, ps_patterns := ps\<rparr>))"

definition drop_client :: "nat \<Rightarrow> (bytes, subscriber list) hmap \<Rightarrow> (bytes, subscriber list) hmap" where
  "drop_client client m =
     filter (\<lambda>(_, subs). subs \<noteq> [])
       (map (\<lambda>(name, subs). (name, filter (\<lambda>s. sub_client s \<noteq> client) subs)) m)"

definition remove_all :: "nat \<Rightarrow> pubsub_registry \<Rightarrow> pubsub_registry" where
  "remove_all client r =
     r\<lparr>ps_channels := drop_client client (ps_channels r), ps_patterns := drop_client client (ps_patterns r)\<rparr>"

section \<open>Subscriptions as the clients see them\<close>

text \<open>
  The specification: for every channel and every pattern the list of its subscribers, in the order
  in which they arrived. What a registry holds is read off by \<open>subs_of\<close>.
\<close>

definition subs_of :: "(bytes, subscriber list) hmap \<Rightarrow> bytes \<Rightarrow> subscriber list" where
  "subs_of m name = (case map_of m name of Some s \<Rightarrow> s | None \<Rightarrow> [])"

definition reg_ok :: "(bytes, subscriber list) hmap \<Rightarrow> bool" where
  "reg_ok m \<longleftrightarrow> hm_ok m \<and> (\<forall>(name, subs) \<in> set m. subs \<noteq> [])"

type_synonym subscriptions = "(bytes \<Rightarrow> subscriber list) \<times> (bytes \<Rightarrow> subscriber list)"

datatype pubsub_event =
    Subscribed bytes nat nat
  | Unsubscribed bytes nat
  | PSubscribed bytes nat nat
  | PUnsubscribed bytes nat
  | Published "nat \<Rightarrow> bool" bytes bytes
  | Disconnected nat

fun subscriptions_after :: "pubsub_event \<Rightarrow> subscriptions \<Rightarrow> subscriptions" where
  "subscriptions_after (Subscribed ch c tx) (C, P) =
     (C(ch := C ch @ [\<lparr>sub_client = c, sub_tx = tx\<rparr>]), P)"
| "subscriptions_after (Unsubscribed ch c) (C, P) = (C(ch := filter (\<lambda>s. sub_client s \<noteq> c) (C ch)), P)"
| "subscriptions_after (PSubscribed p c tx) (C, P) =
     (C, P(p := P p @ [\<lparr>sub_client = c, sub_tx = tx\<rparr>]))"
| "subscriptions_after (PUnsubscribed p c) (C, P) = (C, P(p := filter (\<lambda>s. sub_client s \<noteq> c) (P p)))"
| "subscriptions_after (Published alive ch msg) (C, P) =
     (C(ch := filter (alive \<circ> sub_tx) (C ch)),
      \<lambda>p. if glob_match p ch then filter (alive \<circ> sub_tx) (P p) else P p)"
| "subscriptions_after (Disconnected c) (C, P) =
     (\<lambda>ch. filter (\<lambda>s. sub_client s \<noteq> c) (C ch), \<lambda>p. filter (\<lambda>s. sub_client s \<noteq> c) (P p))"

fun registry_after :: "pubsub_event \<Rightarrow> pubsub_registry \<Rightarrow> pubsub_registry" where
  "registry_after (Subscribed ch c tx) r = snd (subscribe ch c tx r)"
| "registry_after (Unsubscribed ch c) r = snd (unsubscribe ch c r)"
| "registry_after (PSubscribed p c tx) r = snd (psubscribe p c tx r)"
| "registry_after (PUnsubscribed p c) r = snd (punsubscribe p c r)"
| "registry_after (Published alive ch msg) r = snd (snd (publish alive ch msg r))"
| "registry_after (Disconnected c) r = remove_all c r"

definition registry_view :: "pubsub_registry \<Rightarrow> subscriptions" where
  "registry_view r = (subs_of (ps_channels r), subs_of (ps_patterns r))"

definition registry_ok :: "pubsub_registry \<Rightarrow> bool" where
  "registry_ok r \<longleftrightarrow> reg_ok (ps_channels r) \<and> reg_ok (ps_patterns r)"

section \<open>Lemmas\<close>

lemma subs_of_nil [simp]: "subs_of [] = (\<lambda>_. [])"
  by (simp add: subs_of_def fun_eq_iff)

lemma subs_of_update [simp]: "subs_of (AList.update name subs m) = (subs_of m)(name := subs)"
  by (auto simp: subs_of_def fun_eq_iff update_conv')

lemma subs_of_delete [simp]: "subs_of (AList.delete name m) = (subs_of m)(name := [])"
  by (auto simp: subs_of_def fun_eq_iff delete_conv')

lemma subs_of_cons [simp]: "subs_of ((name, subs) # m) = (subs_of m)(name := subs)"
  by (auto simp: subs_of_def fun_eq_iff)

lemma subs_of_absent: "map_of m name = None \<Longrightarrow> subs_of m name = []"
  by (simp add: subs_of_def)

lemma reg_ok_nil [simp]: "reg_ok []"
  by (simp add: reg_ok_def)

lemma reg_ok_update [simp]: "reg_ok m \<Longrightarrow> subs \<noteq> [] \<Longrightarrow> reg_ok (AList.update name subs m)"
  by (auto simp: reg_ok_def set_update_hmap)

lemma reg_ok_delete [simp]: "reg_ok m \<Longrightarrow> reg_ok (AList.delete name m)"
  by (auto simp: reg_ok_def AList.delete_eq)

lemma reg_ok_cons:
  "reg_ok ((name, subs) # m) \<longleftrightarrow> map_of m name = None \<and> subs \<noteq> [] \<and> reg_ok m"
  by (auto simp: reg_ok_def map_of_eq_None_iff)

lemma subs_of_nonempty_iff: "reg_ok m \<Longrightarrow> subs_of m name \<noteq> [] \<longleftrightarrow> map_of m name \<noteq> None"
  by (auto simp: subs_of_def reg_ok_def dest: map_of_SomeD split: option.splits)

lemma add_subscriber_spec:
  "add_subscriber name c tx m =
     (length (subs_of m name) + 1,
      AList.update name (subs_of m name @ [\<lparr>sub_client = c, sub_tx = tx\<rparr>]) m)"
  by (simp add: add_subscriber_def subs_of_def Let_def)

lemma drop_subscriber_spec:
  "fst (drop_subscriber name c m) = length (filter (\<lambda>s. sub_client s \<noteq> c) (subs_of m name))"
  "subs_of (snd (drop_subscriber name c m)) =
     (subs_of m)(name := filter (\<lambda>s. sub_client s \<noteq> c) (subs_of m name))"
  "reg_ok m \<Longrightarrow> reg_ok (snd (drop_subscriber name c m))"
  by (auto simp: drop_subscriber_def Let_def fun_eq_iff split: option.splits) (auto simp: subs_of_def)

lemma drop_client_cons:
  "drop_client c ((name, subs) # m) =
     (let kept = filter (\<lambda>s. sub_client s \<noteq> c) subs
      in if kept = [] then drop_client c m else (name, kept) # drop_client c m)"
  by (simp add: drop_client_def Let_def)

lemma drop_client_nil [simp]: "drop_client c [] = []"
  by (simp add: drop_client_def)

lemma drop_client_absent: "map_of m name = None \<Longrightarrow> map_of (drop_client c m) name = None"
  by (induction m) (auto simp: drop_client_cons Let_def split: if_splits)

lemma drop_client_spec:
  assumes "reg_ok m"
  shows "subs_of (drop_client c m) = (\<lambda>name. filter (\<lambda>s. sub_client s \<noteq> c) (subs_of m name))"
    and "reg_ok (drop_client c m)"
  using assms
  by (induction m)
    (auto simp: drop_client_cons reg_ok_cons Let_def fun_eq_iff subs_of_absent drop_client_absent)

lemma publish_patterns_absent:
  "map_of m p = None \<Longrightarrow> map_of (snd (publish_patterns alive ch msg m)) p = None"
  by (induction m) (auto simp: Let_def split_def split: if_splits)

lemma publish_patterns_spec:
  assumes "reg_ok m"
  shows "subs_of (snd (publish_patterns alive ch msg m)) =
      (\<lambda>p. if glob_match p ch then filter (alive \<circ> sub_tx) (subs_of m p) else subs_of m p)"
    and "reg_ok (snd (publish_patterns alive ch msg m))"
  using assms
  by (induction m)
    (auto simp: reg_ok_cons Let_def split_def send_all_def fun_eq_iff subs_of_absent comp_def
      publish_patterns_absent)

lemma registry_default_ok: "registry_ok registry_default"
  and registry_default_view: "registry_view registry_default = ((\<lambda>_. []), (\<lambda>_. []))"
  by (simp_all add: registry_ok_def registry_view_def registry_default_def)

lemma publish_registry:
  assumes "registry_ok r"
  shows "registry_view (snd (snd (publish alive ch msg r))) =
      subscriptions_after (Published alive ch msg) (registry_view r)"
    and "registry_ok (snd (snd (publish alive ch msg r)))"
  using assms
  by (auto simp: publish_def registry_view_def registry_ok_def publish_patterns_spec send_all_def
      Let_def split_def subs_of_def comp_def fun_eq_iff split: option.splits)

lemma registry_after_refines:
  assumes "registry_ok r"
  shows "registry_view (registry_after ev r) = subscriptions_after ev (registry_view r)"
    and "registry_ok (registry_after ev r)"
proof -
  show "registry_view (registry_after ev r) = subscriptions_after ev (registry_view r)"
    using assms publish_registry(1)
    by (cases ev) (simp_all add: registry_view_def registry_ok_def subscribe_def unsubscribe_def
        psubscribe_def punsubscribe_def remove_all_def split_def Let_def add_subscriber_spec
        drop_subscriber_spec drop_client_spec)
  show "registry_ok (registry_after ev r)"
    using assms publish_registry(2)
    by (cases ev) (simp_all add: registry_ok_def subscribe_def unsubscribe_def psubscribe_def
        punsubscribe_def remove_all_def split_def Let_def add_subscriber_spec drop_subscriber_spec
        drop_client_spec)
qed

lemma registry_history:
  assumes "registry_ok r"
  shows "registry_view (fold registry_after evs r) = fold subscriptions_after evs (registry_view r)"
    and "registry_ok (fold registry_after evs r)"
  using assms by (induction evs arbitrary: r) (simp_all add: registry_after_refines)

text \<open>What arrives: the messages among the frames sent by one publication.\<close>

lemma count_sent:
  "count_list (map (\<lambda>s. (sub_tx s, f)) (filter (\<lambda>s. alive (sub_tx s)) subs)) (t, g) =
     (if f = g \<and> alive t then length (filter (\<lambda>s. sub_tx s = t) subs) else 0)"
  by (induction subs) auto

lemma count_publish_patterns:
  assumes "reg_ok m"
  shows "count_list (fst (publish_patterns alive ch msg m)) (t, pmessage_frame p ch msg) =
      (if glob_match p ch \<and> alive t then length (filter (\<lambda>s. sub_tx s = t) (subs_of m p)) else 0)"
    and "count_list (fst (publish_patterns alive ch msg m)) (t, message_frame ch msg) = 0"
  using assms
  by (induction m)
    (auto simp: reg_ok_cons Let_def split_def send_all_def count_sent subs_of_absent
      pmessage_frame_def message_frame_def)

lemma count_publish:
  assumes "registry_ok r" and "registry_view r = (C, P)"
  shows "count_list (fst (snd (publish alive ch msg r))) (t, message_frame ch msg) =
      (if alive t then length (filter (\<lambda>s. sub_tx s = t) (C ch)) else 0)"
    and "count_list (fst (snd (publish alive ch msg r))) (t, pmessage_frame p ch msg) =
      (if glob_match p ch \<and> alive t then length (filter (\<lambda>s. sub_tx s = t) (P p)) else 0)"
  using assms
  by (auto simp: publish_def registry_view_def registry_ok_def Let_def split_def send_all_def
      count_sent count_publish_patterns subs_of_def [of "ps_channels r"] split: option.splits)
    (simp_all add: message_frame_def pmessage_frame_def)

lemma publish_patterns_sent:
  "(t, f) \<in> set (fst (publish_patterns alive ch msg m)) \<Longrightarrow> \<exists>p. f = pmessage_frame p ch msg"
  by (induction m) (auto simp: Let_def split_def send_all_def split: if_splits)

lemma publish_sent:
  "(t, f) \<in> set (fst (snd (publish alive ch msg r))) \<Longrightarrow>
     f = message_frame ch msg \<or> (\<exists>p. f = pmessage_frame p ch msg)"
  "fst (publish alive ch msg r) = length (fst (snd (publish alive ch msg r)))"
  by (auto simp: publish_def Let_def split_def send_all_def split: option.splits
      dest: publish_patterns_sent)

lemma names_card:
  assumes "reg_ok m"
  shows "set (map fst m) = {name. subs_of m name \<noteq> []}" and "length m = card {name. subs_of m name \<noteq> []}"
proof -
  show s: "set (map fst m) = {name. subs_of m name \<noteq> []}"
    using assms by (auto simp: subs_of_nonempty_iff map_of_eq_None_iff)
  show "length m = card {name. subs_of m name \<noteq> []}"
    using assms distinct_card [of "map fst m"] by (simp add: reg_ok_def flip: s)
qed

lemma registry_introspection:
  assumes "registry_ok r" and "registry_view r = (C, P)"
  shows "set (channel_names r) = {ch. C ch \<noteq> []}" and "distinct (channel_names r)"
    and "num_sub chs r = map (\<lambda>ch. (ch, length (C ch))) chs"
    and "num_pat r = card {p. P p \<noteq> []}"
  using assms names_card [of "ps_channels r"] names_card [of "ps_patterns r"]
  by (auto simp: registry_ok_def registry_view_def channel_names_def num_sub_def num_pat_def reg_ok_def
      subs_of_def split: option.splits)

text \<open>
  C31: Deliveries follow the subscriptions. After any history of subscriptions, withdrawals,
  publications and disconnections, a publication sends to each connection that is still there one
  message for each of its standing subscriptions to the channel (made after the client last withdrew
  it or left), one pattern message for each of its standing subscriptions to a matching pattern, and
  nothing else; its result is the number of these messages. The introspection commands report
  exactly the names with standing subscriptions and their number.
\<close>

theorem publish_reaches_subscribers:
  "let (C, P) = fold subscriptions_after evs ((\<lambda>_. []), (\<lambda>_. []));
       r = fold registry_after evs registry_default
   in \<exists>sent r'. publish alive ch msg r = (length sent, sent, r')
      \<and> registry_view r' = subscriptions_after (Published alive ch msg) (C, P)
      \<and> (\<forall>t. count_list sent (t, message_frame ch msg) =
              (if alive t then length (filter (\<lambda>s. sub_tx s = t) (C ch)) else 0))
      \<and> (\<forall>t p. count_list sent (t, pmessage_frame p ch msg) =
              (if glob_match p ch \<and> alive t then length (filter (\<lambda>s. sub_tx s = t) (P p)) else 0))
      \<and> snd ` set sent \<subseteq> insert (message_frame ch msg) (range (\<lambda>p. pmessage_frame p ch msg))
      \<and> set (channel_names r) = {ch. C ch \<noteq> []} \<and> distinct (channel_names r)
      \<and> num_sub chs r = map (\<lambda>ch. (ch, length (C ch))) chs
      \<and> num_pat r = card {p. P p \<noteq> []}"
proof -
  define r where "r = fold registry_after evs registry_default"
  obtain C P where CP: "fold subscriptions_after evs ((\<lambda>_. []), (\<lambda>_. [])) = (C, P)"
    by fastforce
  have ok: "registry_ok r" and view: "registry_view r = (C, P)"
    using registry_history [OF registry_default_ok, of evs] CP
    by (simp_all add: r_def registry_default_view)
  obtain n sent r' where pub: "publish alive ch msg r = (n, sent, r')"
    by (metis prod.exhaust)
  have "n = length sent"
    using publish_sent(2) [of alive ch msg r] pub by simp
  moreover have "registry_view r' = subscriptions_after (Published alive ch msg) (C, P)"
    using publish_registry(1) [OF ok, of alive ch msg] pub view by simp
  moreover have "snd ` set sent \<subseteq> insert (message_frame ch msg) (range (\<lambda>p. pmessage_frame p ch msg))"
    using publish_sent(1) [of _ _ alive ch msg r] pub by fastforce
  ultimately show ?thesis
    using count_publish [OF ok view, of alive ch msg] pub registry_introspection [OF ok view]
    by (simp add: CP flip: r_def)
qed

end
