(* ===== verification/Rm_Slowlog.thy ===== *)
theory Rm_Slowlog
  imports Rm_Text
begin

text \<open>
  The slow log (\<open>crates/server/src/slowlog.rs\<close>): a ring of the most recent commands that took at
  least the configured time. Durations are nanoseconds. The event that is written to the server's
  log and the metric are left out. The lemmas characterise the ring after any sequence of commands
  and resets.
\<close>

section \<open>The ring\<close>

abbreviation SLOWLOG_CAPACITY :: nat where
  "SLOWLOG_CAPACITY \<equiv> 128"

record slowlog_entry =
  sl_id :: u64
  sl_unix_time_secs :: int
  sl_duration_micros :: int
  sl_command :: bytes
  sl_key :: "bytes option"
  sl_arg_count :: nat

record slowlog =
  sl_entries :: "slowlog_entry list"
  sl_next_id :: u64
  sl_threshold :: duration

definition slowlog_with_threshold :: "duration \<Rightarrow> slowlog" where
  "slowlog_with_threshold threshold = \<lparr>sl_entries = [], sl_next_id = 0, sl_threshold = threshold\<rparr>"

definition slowlog_default :: slowlog where
  "slowlog_default = slowlog_with_threshold (10 * nanos_per_milli)"

definition slowlog_maybe_record ::
  "int \<Rightarrow> bytes \<Rightarrow> bytes option \<Rightarrow> nat \<Rightarrow> duration \<Rightarrow> slowlog \<Rightarrow> slowlog" where
  "slowlog_maybe_record unix_time_secs command key arg_count elapsed s =
     (if sl_threshold s = 0 \<or> elapsed < sl_threshold s then s
      else let duration_micros = min (int (elapsed div 1000)) (2 ^ 63 - 1);
               entry = \<lparr>sl_id = sl_next_id s, sl_unix_time_secs = unix_time_secs,
                        sl_duration_micros = duration_micros, sl_command = command, sl_key = key,
                        sl_arg_count = arg_count\<rparr>;
               es = (if length (sl_entries s) = SLOWLOG_CAPACITY then tl (sl_entries s) else sl_entries s)
           in s\<lparr>sl_next_id := sl_next_id s + 1, sl_entries := es @ [entry]\<rparr>)"

definition slowlog_get :: "nat \<Rightarrow> slowlog \<Rightarrow> slowlog_entry list" where
  "slowlog_get cnt s = take cnt (rev (sl_entries s))"

definition slowlog_len :: "slowlog \<Rightarrow> nat" where
  "slowlog_len s = length (sl_entries s)"

definition slowlog_reset :: "slowlog \<Rightarrow> slowlog" where
  "slowlog_reset s = s\<lparr>sl_entries := []\<rparr>"

section \<open>What the ring holds\<close>

text \<open>
  A history: commands that were run, and resets. The commands that were slow get consecutive ids;
  those since the last reset are listed.
\<close>

datatype slowlog_event = RanCommand int bytes "bytes option" nat duration | ResetLog

fun slowlog_after :: "slowlog_event \<Rightarrow> slowlog \<Rightarrow> slowlog" where
  "slowlog_after (RanCommand now command key args elapsed) s =
     slowlog_maybe_record now command key args elapsed s"
| "slowlog_after ResetLog s = slowlog_reset s"

fun slow :: "duration \<Rightarrow> slowlog_event \<Rightarrow> bool" where
  "slow threshold (RanCommand _ _ _ _ elapsed) \<longleftrightarrow> threshold \<noteq> 0 \<and> threshold \<le> elapsed"
| "slow threshold ResetLog \<longleftrightarrow> False"

fun entry_of :: "u64 \<times> slowlog_event \<Rightarrow> slowlog_entry option" where
  "entry_of (i, RanCommand now command key args elapsed) =
     Some \<lparr>sl_id = i, sl_unix_time_secs = now,
           sl_duration_micros = min (int (elapsed div 1000)) (2 ^ 63 - 1),
           sl_command = command, sl_key = key, sl_arg_count = args\<rparr>"
| "entry_of (i, ResetLog) = None"

text \<open>The slow commands of a history since its last reset, with their ids, the newest first.\<close>

fun slow_commands :: "duration \<Rightarrow> slowlog_event list \<Rightarrow> (u64 \<times> slowlog_event) list" where
  "slow_commands threshold [] = []"
| "slow_commands threshold (ev # earlier) =
     (if ev = ResetLog then []
      else (if slow threshold ev then [(of_nat (length (filter (slow threshold) earlier)), ev)] else [])
           @ slow_commands threshold earlier)"

lemma slowlog_history:
  assumes "s = fold slowlog_after (rev evs) (slowlog_with_threshold t)"
  shows "sl_threshold s = t" and "sl_next_id s = of_nat (length (filter (slow t) evs))"
    and "rev (sl_entries s) = take SLOWLOG_CAPACITY (List.map_filter entry_of (slow_commands t evs))"
proof -
  have "sl_threshold s = t \<and> sl_next_id s = of_nat (length (filter (slow t) evs))
    \<and> rev (sl_entries s) = take SLOWLOG_CAPACITY (List.map_filter entry_of (slow_commands t evs))"
    using assms
  proof (induction evs arbitrary: s)
    case Nil
    then show ?case by (simp add: slowlog_with_threshold_def map_filter_simps)
  next
    case (Cons ev evs)
    define s0 where "s0 = fold slowlog_after (rev evs) (slowlog_with_threshold t)"
    have s: "s = slowlog_after ev s0" using Cons.prems by (simp add: s0_def)
    note IH = Cons.IH [OF s0_def]
    show ?case
    proof (cases "slow t ev")
      case False
      with IH show ?thesis
        by (cases ev) (auto simp: s slowlog_maybe_record_def slowlog_reset_def map_filter_simps)
    next
      case True
      then obtain now command key args elapsed where ev: "ev = RanCommand now command key args elapsed"
        and t: "\<not> (t = 0 \<or> elapsed < t)"
        by (cases ev) auto
      let ?old = "List.map_filter entry_of (slow_commands t evs)"
      have len: "length (sl_entries s0) = min (length ?old) SLOWLOG_CAPACITY"
        using arg_cong [OF IH [THEN conjunct2, THEN conjunct2], of length] by simp
      have "rev (if length (sl_entries s0) = SLOWLOG_CAPACITY then tl (sl_entries s0) else sl_entries s0) =
          take (SLOWLOG_CAPACITY - 1) ?old"
        using IH len by (auto simp: butlast_take butlast_conv_take min_def simp flip: butlast_rev)
      then show ?thesis using IH t
        by (simp add: s ev slowlog_maybe_record_def Let_def map_filter_simps take_Cons')
    qed
  qed
  then show "sl_threshold s = t" and "sl_next_id s = of_nat (length (filter (slow t) evs))"
    and "rev (sl_entries s) = take SLOWLOG_CAPACITY (List.map_filter entry_of (slow_commands t evs))"
    by simp_all
qed

text \<open>
  C32: The slow log keeps the latest slow commands. After any history of commands and resets (its
  latest event first), \<open>SLOWLOG GET\<close> lists the commands since the last reset that took at least the
  threshold, the newest first, up to the requested number and to the capacity of 128; each has as its
  id the number of slow commands before it, also across resets. With a threshold of zero nothing is
  recorded.
\<close>

theorem slowlog_keeps_latest:
  "let s = fold slowlog_after (rev evs) (slowlog_with_threshold threshold);
       listed = List.map_filter entry_of (slow_commands threshold evs)
   in slowlog_get cnt s = take (min cnt SLOWLOG_CAPACITY) listed
    \<and> slowlog_len s = min (length listed) SLOWLOG_CAPACITY"
proof -
  let ?s = "fold slowlog_after (rev evs) (slowlog_with_threshold threshold)"
  note ring = slowlog_history(3) [OF refl, of evs threshold]
  have "length (sl_entries ?s) = length (rev (sl_entries ?s))" by simp
  then show ?thesis unfolding ring by (simp add: slowlog_get_def slowlog_len_def Let_def ring)
qed

end
