(* ===== verification/Rm_Health.thy ===== *)
theory Rm_Health
  imports Rm_Cluster Rm_Bytes Rm_Resp
begin

text \<open>
  The view a node has of its peers (\<open>crates/server/src/cluster_health.rs\<close>) and the replies of
  \<open>CLUSTER\<close> that report it (\<open>crates/server/src/dispatcher.rs\<close>). Whether a probe was answered is an
  argument of a probe round: opening the connection and the exchange of \<open>PING\<close> are input and
  output. The wall clock is read once per operation.
\<close>

section \<open>Peer health\<close>

definition unix_now_secs :: "env \<Rightarrow> int" where
  "unix_now_secs \<epsilon> = wrap_i64 (int (env_unix \<epsilon> div nanos_per_sec))"

definition saturating_sub_i64 :: "int \<Rightarrow> int \<Rightarrow> int" where
  "saturating_sub_i64 a b = max (- (2 ^ 63)) (min (2 ^ 63 - 1) (a - b))"

record peer_health =
  ph_peers :: "(string, int) hmap"
  ph_node_timeout :: duration

text \<open>Collecting into a map: of equal ids the last one stays.\<close>

definition peer_health_new :: "env \<Rightarrow> string list \<Rightarrow> duration \<Rightarrow> peer_health" where
  "peer_health_new \<epsilon> peer_ids node_timeout =
     (let now = unix_now_secs \<epsilon>
      in \<lparr>ph_peers = fold (\<lambda>nid m. AList.update nid now m) peer_ids [], ph_node_timeout = node_timeout\<rparr>)"

definition peer_health_for_cluster :: "env \<Rightarrow> cluster_config \<Rightarrow> duration \<Rightarrow> peer_health" where
  "peer_health_for_cluster \<epsilon> cluster node_timeout =
     (let my_id = node_id (myself cluster)
      in peer_health_new \<epsilon> (map node_id (filter (\<lambda>n. node_id n \<noteq> my_id) (nodes cluster))) node_timeout)"

definition set_last_ok_unix :: "string \<Rightarrow> int \<Rightarrow> peer_health \<Rightarrow> peer_health" where
  "set_last_ok_unix nid unix h =
     (case map_of (ph_peers h) nid of
        Some _ \<Rightarrow> h\<lparr>ph_peers := AList.update nid unix (ph_peers h)\<rparr>
      | None \<Rightarrow> h)"

definition record_ok :: "env \<Rightarrow> string \<Rightarrow> peer_health \<Rightarrow> peer_health" where
  "record_ok \<epsilon> nid h = set_last_ok_unix nid (unix_now_secs \<epsilon>) h"

definition last_ok_unix :: "string \<Rightarrow> peer_health \<Rightarrow> int" where
  "last_ok_unix nid h = (case map_of (ph_peers h) nid of Some t \<Rightarrow> t | None \<Rightarrow> 0)"

definition is_reachable :: "env \<Rightarrow> string \<Rightarrow> peer_health \<Rightarrow> bool" where
  "is_reachable \<epsilon> nid h =
     (case map_of (ph_peers h) nid of
        None \<Rightarrow> True
      | Some last_ok \<Rightarrow>
          saturating_sub_i64 (unix_now_secs \<epsilon>) last_ok
            < wrap_i64 (int (max (ph_node_timeout h div nanos_per_sec) 1)))"

definition reachable_count :: "env \<Rightarrow> peer_health \<Rightarrow> nat" where
  "reachable_count \<epsilon> h = length (filter (\<lambda>nid. is_reachable \<epsilon> nid h) (map fst (ph_peers h)))"

definition unreachable_count :: "env \<Rightarrow> peer_health \<Rightarrow> nat" where
  "unreachable_count \<epsilon> h = length (ph_peers h) - reachable_count \<epsilon> h"

text \<open>
  One round over the peers, with the answers of their probes: the changes to report, the new view
  and what was reported last.
\<close>

fun probe_round ::
  "env \<Rightarrow> (string \<times> bool) list \<Rightarrow> peer_health \<Rightarrow> (string, bool) hmap
   \<Rightarrow> (string \<times> bool) list \<times> peer_health \<times> (string, bool) hmap" where
  "probe_round \<epsilon> [] h last_reported = ([], h, last_reported)"
| "probe_round \<epsilon> ((nid, answered) # results) h last_reported =
     (let h1 = (if answered then record_ok \<epsilon> nid h else h);
          reachable = is_reachable \<epsilon> nid h1;
          previously = (case map_of last_reported nid of Some r \<Rightarrow> r | None \<Rightarrow> True);
          (changed, h2, rep) = probe_round \<epsilon> results h1 (AList.update nid reachable last_reported)
      in ((if reachable \<noteq> previously then [(nid, reachable)] else []) @ changed, h2, rep))"

section \<open>The replies of CLUSTER\<close>

text \<open>\<open>rsplit_once(':')\<close>: the parts before and after the last colon.\<close>

definition rsplit_colon :: "string \<Rightarrow> (string \<times> string) option" where
  "rsplit_colon s =
     (case position (\<lambda>c. c = CHR '':'') (rev s) of
        None \<Rightarrow> None
      | Some i \<Rightarrow> Some (take (length s - Suc i) s, drop (length s - i) s))"

definition split_addr :: "string \<Rightarrow> string \<times> int" where
  "split_addr addr =
     (case rsplit_colon addr of
        Some (host, port) \<Rightarrow> (host, case parse_i64 port of Some p \<Rightarrow> p | None \<Rightarrow> 0)
      | None \<Rightarrow> (addr, 0))"

definition node_is_reachable :: "env \<Rightarrow> cluster_node \<Rightarrow> string \<Rightarrow> peer_health option \<Rightarrow> bool" where
  "node_is_reachable \<epsilon> node my_id health =
     (if node_id node = my_id then True
      else case health of Some h \<Rightarrow> is_reachable \<epsilon> (node_id node) h | None \<Rightarrow> True)"

text \<open>The counters of \<open>CLUSTER INFO\<close>: enabled, assigned, count, pfail; \<open>u32\<close> as in the source.\<close>

definition slot_span :: "cluster_node \<Rightarrow> u32" where
  "slot_span n = of_nat (last_slot n) - of_nat (first_slot n) + 1"

definition cluster_info_counters ::
  "env \<Rightarrow> cluster_config option \<Rightarrow> peer_health option \<Rightarrow> nat \<times> u32 \<times> nat \<times> u32" where
  "cluster_info_counters \<epsilon> cluster health =
     (case cluster of
        Some c \<Rightarrow>
          (let my_id = node_id (myself c);
               pfail = sum_list (map slot_span
                         (filter (\<lambda>n. \<not> node_is_reachable \<epsilon> n my_id health) (nodes c)))
           in (1, of_nat SLOT_COUNT, length (nodes c), pfail))
      | None \<Rightarrow> (0, 0, 0, 0))"

definition cluster_info_text :: "env \<Rightarrow> cluster_config option \<Rightarrow> peer_health option \<Rightarrow> string" where
  "cluster_info_text \<epsilon> cluster health =
     (let (enabled, assigned, count, pfail) = cluster_info_counters \<epsilon> cluster health;
          state = (if pfail = 0 then ''ok'' else ''fail'');
          slots_ok = assigned - pfail;
          line = (\<lambda>name val. name @ '':'' @ val @ crlf_bytes)
      in line ''cluster_enabled'' (show_nat enabled)
         @ line ''cluster_state'' state
         @ line ''cluster_slots_assigned'' (show_nat (unat assigned))
         @ line ''cluster_slots_ok'' (show_nat (unat slots_ok))
         @ line ''cluster_slots_pfail'' (show_nat (unat pfail))
         @ line ''cluster_slots_fail'' ''0''
         @ line ''cluster_known_nodes'' (show_nat count)
         @ line ''cluster_size'' (show_nat count)
         @ line ''cluster_my_epoch'' ''0''
         @ line ''cluster_current_epoch'' ''0''
         @ line ''cluster_stats_messages_sent'' ''0''
         @ line ''cluster_stats_messages_received'' ''0''
         @ line ''total_cluster_links_buffer_limit_exceeded'' ''0'')"

definition cluster_nodes_line :: "env \<Rightarrow> string \<Rightarrow> peer_health option \<Rightarrow> cluster_node \<Rightarrow> string" where
  "cluster_nodes_line \<epsilon> my_id health n =
     (let (_, port) = split_addr (node_addr n);
          reachable = node_is_reachable \<epsilon> n my_id health;
          flags = (if node_id n = my_id then ''myself,master''
                   else if reachable then ''master'' else ''master,fail?'');
          link = (if reachable then ''connected'' else ''disconnected'')
      in node_id n @ '' '' @ node_addr n @ ''@'' @ show_int (wrap_i64 (port + 10000)) @ '' '' @ flags
         @ '' - 0 0 0 '' @ link @ '' '' @ show_nat (first_slot n) @ ''-'' @ show_nat (last_slot n)
         @ [CHR 0x0A])"

definition cluster_nodes_text :: "env \<Rightarrow> cluster_config option \<Rightarrow> peer_health option \<Rightarrow> string" where
  "cluster_nodes_text \<epsilon> cluster health =
     (case cluster of
        None \<Rightarrow> []
      | Some c \<Rightarrow> concat (map (cluster_nodes_line \<epsilon> (node_id (myself c)) health) (nodes c)))"

definition cluster_shard ::
  "env \<Rightarrow> string \<Rightarrow> peer_health option \<Rightarrow> u64 \<Rightarrow> cluster_node \<Rightarrow> frame" where
  "cluster_shard \<epsilon> my_id health my_repl_offset n =
     (let (host, port) = split_addr (node_addr n);
          reachable = node_is_reachable \<epsilon> n my_id health;
          offset = (if node_id n = my_id then sint my_repl_offset else 0);
          node = FArray [FBulk ''id'', FBulk (node_id n), FBulk ''port'', FInteger port,
            FBulk ''ip'', FBulk host, FBulk ''endpoint'', FBulk host,
            FBulk ''role'', FBulk ''master'', FBulk ''replication-offset'', FInteger offset,
            FBulk ''health'', FBulk (if reachable then ''online'' else ''failed'')]
      in FArray [FBulk ''slots'',
           FArray [FInteger (int (first_slot n)), FInteger (int (last_slot n))],
           FBulk ''nodes'', FArray [node]])"

definition cluster_shards_reply ::
  "env \<Rightarrow> cluster_config option \<Rightarrow> peer_health option \<Rightarrow> u64 \<Rightarrow> frame" where
  "cluster_shards_reply \<epsilon> cluster health my_repl_offset =
     (case cluster of
        None \<Rightarrow> FArray []
      | Some c \<Rightarrow>
          FArray (map (cluster_shard \<epsilon> (node_id (myself c)) health my_repl_offset) (nodes c)))"

definition cluster_slots_reply :: "cluster_config option \<Rightarrow> frame" where
  "cluster_slots_reply cluster =
     (case cluster of
        None \<Rightarrow> FArray []
      | Some c \<Rightarrow>
          FArray (map (\<lambda>n. let (host, port) = split_addr (node_addr n)
             in FArray [FInteger (int (first_slot n)), FInteger (int (last_slot n)),
                  FArray [FBulk host, FInteger port, FBulk (node_id n)]]) (nodes c)))"

section \<open>The slots of unreachable nodes\<close>

lemma sum_spans:
  assumes "check_pairs ns = None" and "\<forall>n \<in> set ns. first_slot n \<le> last_slot n"
  shows "sum_list (map (\<lambda>n. last_slot n - first_slot n + 1) (filter P ns)) =
    card {s. \<exists>n \<in> set ns. P n \<and> covers s n}"
  using assms
proof (induction ns)
  case (Cons p ns)
  let ?A = "{s. P p \<and> covers s p}" and ?B = "{s. \<exists>n \<in> set ns. P n \<and> covers s n}"
  have "check_pairs ns = None" using Cons.prems(1) by (cases ns) (auto split: if_splits)
  then have IH: "sum_list (map (\<lambda>n. last_slot n - first_slot n + 1) (filter P ns)) = card ?B"
    using Cons by simp
  have after: "\<forall>n \<in> set ns. last_slot p < first_slot n" using check_pairs_after Cons.prems by blast
  then have disj: "?A \<inter> ?B = {}" by (force simp: covers_def)
  have A: "?A = (if P p then {first_slot p..last_slot p} else {})" by (auto simp: covers_def)
  have "?B \<subseteq> (\<Union>n \<in> set ns. {..last_slot n})" by (auto simp: covers_def)
  then have fin: "finite ?B" by (rule finite_subset) simp
  have "{s. \<exists>n \<in> set (p # ns). P n \<and> covers s n} = ?A \<union> ?B" by auto
  then have "card {s. \<exists>n \<in> set (p # ns). P n \<and> covers s n} = card ?A + card ?B"
    using fin disj by (simp add: A card_Un_disjoint)
  then show ?case using IH Cons.prems(2) by (simp add: A Suc_diff_le)
qed simp

lemma slot_span_nat: "first_slot n \<le> last_slot n \<Longrightarrow> slot_span n = of_nat (last_slot n - first_slot n + 1)"
  by (simp add: slot_span_def of_nat_diff)

lemma sum_slot_spans:
  "\<forall>n \<in> set ns. first_slot n \<le> last_slot n \<Longrightarrow>
   sum_list (map slot_span ns) = of_nat (sum_list (map (\<lambda>n. last_slot n - first_slot n + 1) ns))"
  by (induction ns) (simp_all add: slot_span_nat)

text \<open>
  C28: The counters of \<open>CLUSTER INFO\<close> are exact. For a parsed configuration, the number of suspected
  slots is the number of slots whose owner cannot be reached, the 32-bit sum and the subtraction do
  not wrap, and the slots reported as fine are the others.
\<close>

theorem cluster_info_exact:
  assumes "cluster_parse text this_id = Inr cfg"
  shows "\<exists>pfail. cluster_info_counters \<epsilon> (Some cfg) health =
      (1, of_nat SLOT_COUNT, length (nodes cfg), pfail)
    \<and> unat pfail = card {s. s < SLOT_COUNT
        \<and> \<not> node_is_reachable \<epsilon> (the (owner_of cfg s)) this_id health}
    \<and> unat (of_nat SLOT_COUNT - pfail) = SLOT_COUNT - unat pfail \<and> unat pfail \<le> SLOT_COUNT"
proof -
  note c = cluster_parse_Inr [OF assms]
  let ?down = "\<lambda>n. \<not> node_is_reachable \<epsilon> n this_id health"
  let ?pfail = "sum_list (map slot_span (filter ?down (nodes cfg)))"
  let ?S = "{s. s < SLOT_COUNT \<and> ?down (the (owner_of cfg s))}"
  have le: "\<forall>n \<in> set (nodes cfg). first_slot n \<le> last_slot n" using c(1) by (simp add: nodes_ok_def)
  have owner: "owner_of cfg s = Some n" if "n \<in> set (nodes cfg)" "covers s n" for s n
    using find_covers [OF c(2) le that] by (simp add: owner_of_def)
  have "{s. \<exists>n \<in> set (nodes cfg). ?down n \<and> covers s n} = ?S"
  proof (intro set_eqI iffI)
    fix s assume "s \<in> {s. \<exists>n \<in> set (nodes cfg). ?down n \<and> covers s n}"
    then obtain n where n: "n \<in> set (nodes cfg)" "?down n" "covers s n" by blast
    then have "last_slot n < SLOT_COUNT" using c(1) by (simp add: nodes_ok_def)
    with n owner show "s \<in> ?S" by (simp add: covers_def)
  next
    fix s assume s: "s \<in> ?S"
    then obtain n where "n \<in> set (nodes cfg)" "covers s n"
      using check_pairs_covers [OF c(2,3), of s] c(4,5) by auto
    with s owner show "s \<in> {s. \<exists>n \<in> set (nodes cfg). ?down n \<and> covers s n}" by auto
  qed
  then have pfail: "?pfail = of_nat (card ?S)"
    using sum_slot_spans [of "filter ?down (nodes cfg)"] sum_spans [OF c(2) le, of ?down] le by simp
  have "card ?S \<le> card {..<SLOT_COUNT}" by (rule card_mono) auto
  then have S: "card ?S \<le> SLOT_COUNT" by simp
  then have u: "unat ?pfail = card ?S" by (simp add: pfail unat_of_nat)
  have "(of_nat SLOT_COUNT :: u32) - ?pfail = of_nat (SLOT_COUNT - card ?S)"
    using S unfolding pfail by (simp only: of_nat_diff)
  then have "unat ((of_nat SLOT_COUNT :: u32) - ?pfail) = unat (of_nat (SLOT_COUNT - card ?S) :: u32)"
    by (simp only:)
  also have "\<dots> = SLOT_COUNT - card ?S" unfolding unat_of_nat using S by simp
  finally show ?thesis using u S by (intro exI [of _ ?pfail]) (simp add: cluster_info_counters_def c(7))
qed

text \<open>A cluster of two nodes, the second of which has not answered for an hour.\<close>

theorem cluster_info_exact_witness:
  "let text = ''n1 a:1 0 8191'' @ [CHR 0x0A] @ ''n2 b:2 8192 16383'';
       health = Some \<lparr>ph_peers = [(''n2'', 1699996400)], ph_node_timeout = 15 * nanos_per_sec\<rparr>;
       \<epsilon> = \<lparr>env_hash = (\<lambda>_. 0), env_now = 5, env_unix = 1700000000 * nanos_per_sec, env_rand = (\<lambda>_. 0)\<rparr>
   in \<exists>cfg pfail. cluster_parse text ''n1'' = Inr cfg
    \<and> cluster_info_counters \<epsilon> (Some cfg) health = (1, of_nat SLOT_COUNT, 2, pfail)
    \<and> unat pfail = 8192
    \<and> card {s. s < SLOT_COUNT \<and> \<not> node_is_reachable \<epsilon> (the (owner_of cfg s)) ''n1'' health} = 8192"
proof -
  let ?text = "''n1 a:1 0 8191'' @ [CHR 0x0A] @ ''n2 b:2 8192 16383''"
  let ?health = "Some \<lparr>ph_peers = [(''n2'', 1699996400)], ph_node_timeout = 15 * nanos_per_sec\<rparr>"
  let ?e = "\<lparr>env_hash = (\<lambda>_. 0), env_now = 5, env_unix = 1700000000 * nanos_per_sec, env_rand = (\<lambda>_. 0)\<rparr>"
  let ?cfg = "\<lparr>nodes = [\<lparr>node_id = ''n1'', node_addr = ''a:1'', first_slot = 0, last_slot = 8191\<rparr>,
    \<lparr>node_id = ''n2'', node_addr = ''b:2'', first_slot = 8192, last_slot = 16383\<rparr>], myself_at = 0\<rparr>"
  have "lines_of ?text = [''n1 a:1 0 8191'', ''n2 b:2 8192 16383'']" by code_simp
  moreover have "trim ''n1 a:1 0 8191'' = ''n1 a:1 0 8191''" "trim ''n2 b:2 8192 16383'' = ''n2 b:2 8192 16383''"
    by code_simp+
  moreover have "split_whitespace ''n1 a:1 0 8191'' = [''n1'', ''a:1'', ''0'', ''8191'']"
    "split_whitespace ''n2 b:2 8192 16383'' = [''n2'', ''b:2'', ''8192'', ''16383'']"
    by code_simp+
  moreover have "parse_slot i ''0'' = Inr 0" "parse_slot i ''8191'' = Inr 8191"
    "parse_slot i ''8192'' = Inr 8192" "parse_slot i ''16383'' = Inr 16383" for i
    by (simp_all add: parse_slot_def parse_u32_def parse_nat_def digit_val_def)
  ultimately have p: "cluster_parse ?text ''n1'' = Inr ?cfg"
    by (simp add: cluster_parse_def parse_line_def numeral_2_eq_2 numeral_3_eq_3 Let_def)
  have pfail: "cluster_info_counters ?e (Some ?cfg) ?health = (1, of_nat SLOT_COUNT, 2, 8192)"
    by (simp add: cluster_info_counters_def node_is_reachable_def is_reachable_def myself_def
        unix_now_secs_def saturating_sub_i64_def wrap_i64_id in_i64_def slot_span_def)
  from cluster_info_exact [OF p, of ?e ?health] p pfail show ?thesis
    unfolding Let_def by auto
qed

end
