(* ===== verification/Rm_Handle.thy ===== *)
theory Rm_Handle
  imports Rm_Log Rm_Acl Rm_Health Rm_Slowlog Rm_Pubsub
begin

text \<open>
  The state the handlers of a node share: the registry of replicas and the \<open>ReplicationHandle\<close>
  (\<open>crates/server/src/replication.rs\<close>), which also holds the access control list, the slow log, the
  subscriptions and the counters, and the writer of the append-only log (\<open>crates/server/src/aof.rs\<close>)
  as its files and the file it has open. A channel of the runtime is a number; what was sent through
  the channels of replicas and subscribers is kept in \<open>rg_sent\<close> and \<open>sv_pushed\<close>, in order.
\<close>

section \<open>The registry of replicas\<close>

record replica_entry =
  re_addr :: "string option"
  re_tx :: nat
  re_ack_offset :: u64
  re_last_ack_unix :: int

record replica_registry =
  rg_replicas :: "replica_entry list"
  rg_sent :: "(nat \<times> bytes) list"

definition register :: "string option \<Rightarrow> nat \<Rightarrow> replica_registry \<Rightarrow> replica_registry" where
  "register addr sender g =
     g\<lparr>rg_replicas := rg_replicas g
         @ [\<lparr>re_addr = addr, re_tx = sender, re_ack_offset = 0, re_last_ack_unix = 0\<rparr>]\<rparr>"

text \<open>An acknowledgement is stored in the entry of the replica's connection.\<close>

definition record_ack :: "env \<Rightarrow> nat \<Rightarrow> u64 \<Rightarrow> replica_registry \<Rightarrow> replica_registry" where
  "record_ack \<epsilon> tx offset g =
     g\<lparr>rg_replicas := map (\<lambda>e. if re_tx e = tx
         then e\<lparr>re_ack_offset := offset, re_last_ack_unix := unix_now_secs \<epsilon>\<rparr> else e) (rg_replicas g)\<rparr>"

definition broadcast :: "(nat \<Rightarrow> bool) \<Rightarrow> bytes \<Rightarrow> replica_registry \<Rightarrow> replica_registry" where
  "broadcast alive b g =
     (let kept = filter (\<lambda>e. alive (re_tx e)) (rg_replicas g)
      in \<lparr>rg_replicas = kept, rg_sent = rg_sent g @ map (\<lambda>e. (re_tx e, b)) kept\<rparr>)"

definition replica_addrs :: "replica_registry \<Rightarrow> string option list" where
  "replica_addrs g = map re_addr (rg_replicas g)"

text \<open>\<open>i64::try_from(max_lag.as_secs())\<close> with the largest value for what does not fit.\<close>

definition good_replicas :: "env \<Rightarrow> duration \<Rightarrow> replica_registry \<Rightarrow> nat" where
  "good_replicas \<epsilon> max_lag g =
     (let now = unix_now_secs \<epsilon>;
          lag = min (int (max_lag div nanos_per_sec)) (2 ^ 63 - 1)
      in length (filter (\<lambda>e. re_last_ack_unix e > 0 \<and> now - re_last_ack_unix e \<le> lag) (rg_replicas g)))"

section \<open>The node\<close>

datatype fsync_policy = FsyncAlways | FsyncEverySecond | FsyncNever

record aof_files =
  af_fs :: filesystem
  af_path :: path
  af_base_path :: path
  af_policy :: fsync_policy

text \<open>A follower task: the leader it follows, the credentials it was given and its generation.\<close>

record link_state =
  lk_is_replica :: bool
  lk_follower :: "(string \<times> (string \<times> string) option \<times> u64) option"
  lk_generation :: u64
  lk_master_addr :: "string option"
  lk_up :: bool
  lk_slave_repl_offset :: u64
  lk_last_apply_unix :: int

record counters =
  ct_connected_clients :: u64
  ct_total_connections :: u64
  ct_total_commands :: u64
  ct_expired_keys :: u64
  ct_last_save_unix :: int
  ct_started_at :: instant

record 'f server =
  sv_engine :: "'f engine"
  sv_aof :: aof_files
  sv_registry :: replica_registry
  sv_pubsub :: pubsub_registry
  sv_pushed :: "(nat \<times> frame) list"
  sv_channels :: nat
  sv_link :: link_state
  sv_master_repl_offset :: u64
  sv_snapshot_path :: path
  sv_cluster :: "cluster_config option"
  sv_peer_health :: "peer_health option"
  sv_counters :: counters
  sv_slowlog :: slowlog
  sv_acl :: acl_store
  sv_own_addr :: "string option"
  sv_min_replicas_to_write :: u64
  sv_min_replicas_max_lag :: duration
  sv_fenced :: bool

definition server_new :: "env \<Rightarrow> 'f engine \<Rightarrow> path \<Rightarrow> aof_files \<Rightarrow> 'f server" where
  "server_new \<epsilon> e snapshot_path aof =
     \<lparr>sv_engine = e, sv_aof = aof,
      sv_registry = \<lparr>rg_replicas = [], rg_sent = []\<rparr>,
      sv_pubsub = registry_default, sv_pushed = [], sv_channels = 0,
      sv_link = \<lparr>lk_is_replica = False, lk_follower = None, lk_generation = 0, lk_master_addr = None,
        lk_up = False, lk_slave_repl_offset = 0, lk_last_apply_unix = 0\<rparr>,
      sv_master_repl_offset = 0, sv_snapshot_path = snapshot_path, sv_cluster = None,
      sv_peer_health = None,
      sv_counters = \<lparr>ct_connected_clients = 0, ct_total_connections = 0, ct_total_commands = 0,
        ct_expired_keys = 0, ct_last_save_unix = 0, ct_started_at = env_now \<epsilon>\<rparr>,
      sv_slowlog = slowlog_default, sv_acl = acl_new, sv_own_addr = None,
      sv_min_replicas_to_write = 0, sv_min_replicas_max_lag = 10 * nanos_per_sec, sv_fenced = False\<rparr>"

definition start_replicating :: "string \<Rightarrow> (string \<times> string) option \<Rightarrow> link_state \<Rightarrow> link_state" where
  "start_replicating host_port auth l =
     (let my_generation = lk_generation l + 1
      in l\<lparr>lk_generation := my_generation, lk_master_addr := Some host_port,
           lk_follower := Some (host_port, auth, my_generation), lk_is_replica := True\<rparr>)"

definition stop_replicating :: "link_state \<Rightarrow> link_state" where
  "stop_replicating l =
     l\<lparr>lk_follower := None, lk_generation := lk_generation l + 1, lk_is_replica := False,
       lk_master_addr := None, lk_up := False\<rparr>"

definition connection_opened :: "counters \<Rightarrow> counters" where
  "connection_opened c =
     c\<lparr>ct_connected_clients := ct_connected_clients c + 1, ct_total_connections := ct_total_connections c + 1\<rparr>"

definition connection_closed :: "counters \<Rightarrow> counters" where
  "connection_closed c = c\<lparr>ct_connected_clients := ct_connected_clients c - 1\<rparr>"

definition command_executed :: "counters \<Rightarrow> counters" where
  "command_executed c = c\<lparr>ct_total_commands := ct_total_commands c + 1\<rparr>"

definition record_expired :: "nat \<Rightarrow> counters \<Rightarrow> counters" where
  "record_expired removed c =
     (if removed > 0 then c\<lparr>ct_expired_keys := ct_expired_keys c + of_nat removed\<rparr> else c)"

definition record_save :: "env \<Rightarrow> counters \<Rightarrow> counters" where
  "record_save \<epsilon> c = c\<lparr>ct_last_save_unix := unix_now_secs \<epsilon>\<rparr>"

definition uptime_secs :: "env \<Rightarrow> counters \<Rightarrow> nat" where
  "uptime_secs \<epsilon> c = (env_now \<epsilon> - ct_started_at c) div nanos_per_sec"

text \<open>
  Logging a frame and sending it to the replicas: the two always go together, and the offset of the
  stream advances by what was sent.
\<close>

definition log_bytes :: "bytes \<Rightarrow> 'f server \<Rightarrow> 'f server" where
  "log_bytes b sv =
     sv\<lparr>sv_aof := (sv_aof sv)\<lparr>af_fs := append_encoded (af_path (sv_aof sv)) b (af_fs (sv_aof sv))\<rparr>\<rparr>"

definition send_bytes :: "(nat \<Rightarrow> bool) \<Rightarrow> bytes \<Rightarrow> 'f server \<Rightarrow> 'f server" where
  "send_bytes alive b sv =
     sv\<lparr>sv_master_repl_offset := sv_master_repl_offset sv + of_nat (length b),
        sv_registry := broadcast alive b (sv_registry sv)\<rparr>"

end
