(* ===== verification/Rm_Session.thy ===== *)
theory Rm_Session
  imports Rm_Handle
begin

text \<open>
  What belongs to one connection (\<open>Session\<close> of \<open>crates/server/src/dispatcher.rs\<close>) and the handlers
  that only touch it and the access control list: the access gate, \<open>AUTH\<close>, \<open>HELLO\<close>, \<open>CLIENT\<close> and
  \<open>ACL\<close>. A handler answers \<open>None\<close> for a frame that is not its command. Log events are left out. A
  peer address is its text. The receiving half of the connection's push channel exists from the
  moment its number is in \<open>ss_push\<close>.
\<close>

section \<open>The session\<close>

datatype transaction_state = Idle | Queuing (tx_commands: "frame list") (tx_dirty: bool)

record session =
  ss_protocol :: protocol
  ss_user :: "acl_user option"
  ss_name :: "bytes option"
  ss_peer_addr :: "string option"
  ss_in_transaction :: bool
  ss_tx :: transaction_state
  ss_subscriptions :: "bytes list"
  ss_psubscriptions :: "bytes list"
  ss_subscription_count :: nat
  ss_push :: "nat option"
  ss_is_rmp :: bool

definition session_new :: session where
  "session_new =
     \<lparr>ss_protocol = Resp2, ss_user = None, ss_name = None, ss_peer_addr = None, ss_in_transaction = False,
      ss_tx = Idle, ss_subscriptions = [], ss_psubscriptions = [], ss_subscription_count = 0,
      ss_push = None, ss_is_rmp = False\<rparr>"

definition session_with_peer_addr :: "string \<Rightarrow> session" where
  "session_with_peer_addr addr = session_new\<lparr>ss_peer_addr := Some addr\<rparr>"

definition session_new_for_rmp :: session where
  "session_new_for_rmp = session_new\<lparr>ss_is_rmp := True\<rparr>"

text \<open>
  What the handlers use of other code: floating-point operations, the \<open>argon2\<close> crate, the
  \<open>bincode\<close> encoding, the Unicode case conversion of the standard library, and what a process
  knows of itself. \<open>pf_fixed2 n d\<close> prints the quotient with two decimals.
\<close>

record ('f, 'h) platform =
  pf_floats :: "'f float_ops"
  pf_argon2 :: "'h argon2"
  pf_encode :: "'f serializable_entry list \<Rightarrow> bytes"
  pf_lowercase :: "bytes \<Rightarrow> bytes"
  pf_version :: string
  pf_os :: string
  pf_pid :: nat
  pf_fixed2 :: "nat \<Rightarrow> nat \<Rightarrow> string"

text \<open>
  What a command reads from outside while it runs: the clocks, hashes and random numbers; which
  receiving halves of channels exist; the salts of new passwords; the time it took; and whether the
  log file on disk is the one the writer has open.
\<close>

record world =
  w_env :: env
  w_alive :: "nat \<Rightarrow> bool"
  w_salts :: "nat \<Rightarrow> bytes"
  w_elapsed :: duration
  w_intact :: bool

section \<open>Frames as requests\<close>

fun frame_items :: "frame \<Rightarrow> frame list" where
  "frame_items (FArray items) = items"
| "frame_items _ = []"

fun named :: "bytes \<Rightarrow> frame \<Rightarrow> bool" where
  "named cmd (FArray (FBulk name # _)) \<longleftrightarrow> eq_ignore_ascii_case name cmd"
| "named cmd _ \<longleftrightarrow> False"

fun bulk_at :: "nat \<Rightarrow> frame list \<Rightarrow> bytes option" where
  "bulk_at i items = (if i < length items then bulk_bytes (items ! i) else None)"

definition subcommand :: "frame list \<Rightarrow> bytes option" where
  "subcommand items = map_option (\<lambda>b. ascii_uppercase (utf8_lossy b)) (bulk_at 1 items)"

definition wrong_number :: "string \<Rightarrow> frame" where
  "wrong_number cmd = FError (''ERR wrong number of arguments for '' @ QUOTE @ cmd @ QUOTE @ '' command'')"

abbreviation syntax_error :: frame where
  "syntax_error \<equiv> FError ''ERR syntax error''"

abbreviation noauth :: frame where
  "noauth \<equiv> FError ''NOAUTH Authentication required.''"

section \<open>Authentication\<close>

definition try_authenticate :: "'h argon2 \<Rightarrow> acl_store \<Rightarrow> bytes \<Rightarrow> bytes \<Rightarrow> frame + acl_user" where
  "try_authenticate A acl name password =
     (if \<not> has_ever_been_configured acl
      then Inl (FError ''ERR Client sent AUTH, but no password is set.'')
      else case authenticate A acl name password of
          Some user \<Rightarrow> Inr user
        | None \<Rightarrow> Inl (FError ''WRONGPASS invalid username-password pair or user is disabled.''))"

definition login :: "'h argon2 \<Rightarrow> acl_store \<Rightarrow> bytes \<Rightarrow> bytes \<Rightarrow> session \<Rightarrow> frame \<times> session" where
  "login A acl name password ss =
     (case try_authenticate A acl name password of
        Inr user \<Rightarrow> (FSimple ''OK'', ss\<lparr>ss_user := Some user\<rparr>)
      | Inl err \<Rightarrow> (err, ss))"

definition handle_auth :: "'h argon2 \<Rightarrow> acl_store \<Rightarrow> frame \<Rightarrow> session \<Rightarrow> (frame \<times> session) option" where
  "handle_auth A acl frame ss =
     (if \<not> named ''AUTH'' frame then None
      else Some (case frame_items frame of
          [_, FBulk pw] \<Rightarrow> login A acl ''default'' pw ss
        | [_, _] \<Rightarrow> (syntax_error, ss)
        | [_, FBulk user, FBulk pw] \<Rightarrow> login A acl (utf8_lossy user) pw ss
        | [_, _, _] \<Rightarrow> (syntax_error, ss)
        | _ \<Rightarrow> (wrong_number ''auth'', ss)))"

definition auth_gate :: "acl_store \<Rightarrow> session \<Rightarrow> frame \<Rightarrow> frame option" where
  "auth_gate acl ss frame =
     (if \<not> has_ever_been_configured acl then None
      else case command_name_upper frame of
          None \<Rightarrow> None
        | Some name \<Rightarrow>
            if name = ''AUTH'' \<or> name = ''HELLO'' then None
            else case ss_user ss of
                None \<Rightarrow> Some noauth
              | Some cached_user \<Rightarrow>
                  (case get_user acl (username cached_user) of
                     None \<Rightarrow> Some noauth
                   | Some user \<Rightarrow>
                       if \<not> enabled user then Some noauth
                       else let keys = command_keys frame
                            in if \<not> is_allowed user name keys
                               then Some (FError (if is_allowed user name []
                                      then ''NOPERM no permissions to access a key''
                                      else ''NOPERM this user has no permissions to run this command''))
                               else None))"

section \<open>HELLO\<close>

definition hello_reply :: "protocol \<Rightarrow> u64 \<Rightarrow> string \<Rightarrow> string \<Rightarrow> frame" where
  "hello_reply proto client_id role mode =
     FMap [(FBulk ''server'', FBulk ''redis''),
       (FBulk ''version'', FBulk ''rocket-mem-0.1.0''),
       (FBulk ''proto'', FInteger (case proto of Resp2 \<Rightarrow> 2 | Resp3 \<Rightarrow> 3)),
       (FBulk ''id'', FInteger (sint client_id)),
       (FBulk ''mode'', FBulk mode),
       (FBulk ''role'', FBulk role),
       (FBulk ''modules'', FArray [])]"

definition apply_hello_extra_args ::
  "'h argon2 \<Rightarrow> acl_store \<Rightarrow> frame list \<Rightarrow> session \<Rightarrow> (frame + unit) \<times> session" where
  "apply_hello_extra_args A acl extra ss =
     (case extra of
        [] \<Rightarrow> (Inr (), ss)
      | [FBulk kw, FBulk user, FBulk pass] \<Rightarrow>
          if \<not> eq_ignore_ascii_case kw ''AUTH'' then (Inl syntax_error, ss)
          else (case try_authenticate A acl (utf8_lossy user) pass of
                  Inr u \<Rightarrow> (Inr (), ss\<lparr>ss_user := Some u\<rparr>)
                | Inl err \<Rightarrow> (Inl err, ss))
      | _ \<Rightarrow> (Inl syntax_error, ss))"

definition hello_version ::
  "'h argon2 \<Rightarrow> acl_store \<Rightarrow> protocol \<Rightarrow> u64 \<Rightarrow> string \<Rightarrow> string \<Rightarrow> frame list \<Rightarrow> session
   \<Rightarrow> frame \<times> session" where
  "hello_version A acl proto client_id role mode extra ss =
     (case apply_hello_extra_args A acl extra ss of
        (Inl err, ss1) \<Rightarrow> (err, ss1)
      | (Inr _, ss1) \<Rightarrow>
          if has_ever_been_configured acl \<and> ss_user ss1 = None then (noauth, ss1)
          else let ss2 = ss1\<lparr>ss_protocol := proto\<rparr>
               in (hello_reply (ss_protocol ss2) client_id role mode, ss2))"

definition handle_hello ::
  "'h argon2 \<Rightarrow> u64 \<Rightarrow> 'f server \<Rightarrow> frame \<Rightarrow> session \<Rightarrow> (frame \<times> session) option" where
  "handle_hello A client_id sv frame ss =
     (if \<not> named ''HELLO'' frame then None
      else let acl = sv_acl sv;
               role = (if lk_is_replica (sv_link sv) then ''slave'' else ''master'');
               mode = (if sv_cluster sv \<noteq> None then ''cluster'' else ''standalone'')
           in Some (case tl (frame_items frame) of
               [] \<Rightarrow>
                 if has_ever_been_configured acl \<and> ss_user ss = None then (noauth, ss)
                 else (hello_reply (ss_protocol ss) client_id role mode, ss)
             | FBulk arg # extra \<Rightarrow>
                 if arg = ''2'' then hello_version A acl Resp2 client_id role mode extra ss
                 else if arg = ''3'' then hello_version A acl Resp3 client_id role mode extra ss
                 else (FError ''NOPROTO unsupported protocol version'', ss)
             | _ \<Rightarrow> (FError ''ERR invalid request, expected array of bulk strings'', ss)))"

section \<open>CLIENT\<close>

definition client_info_text :: "session \<Rightarrow> u64 \<Rightarrow> bytes" where
  "client_info_text ss client_id =
     ''id='' @ show_nat (unat client_id)
     @ '' addr='' @ (case ss_peer_addr ss of Some a \<Rightarrow> a | None \<Rightarrow> [])
     @ '' name='' @ (case ss_name ss of Some n \<Rightarrow> utf8_lossy n | None \<Rightarrow> [])
     @ '' resp='' @ (case ss_protocol ss of Resp2 \<Rightarrow> ''2'' | Resp3 \<Rightarrow> ''3'')
     @ '' db=0 cmd=client|info user='' @ (case ss_user ss of Some u \<Rightarrow> username u | None \<Rightarrow> ''default'')"

definition handle_client :: "u64 \<Rightarrow> frame \<Rightarrow> session \<Rightarrow> (frame \<times> session) option" where
  "handle_client client_id frame ss =
     (if \<not> named ''CLIENT'' frame then None
      else let items = frame_items frame
           in Some (case subcommand items of
               None \<Rightarrow> (wrong_number ''client'', ss)
             | Some sub \<Rightarrow>
                 if sub = ''ID'' then (FInteger (sint client_id), ss)
                 else if sub = ''GETNAME'' then (FBulk (case ss_name ss of Some n \<Rightarrow> n | None \<Rightarrow> []), ss)
                 else if sub = ''SETNAME'' then
                   (case bulk_at 2 items of
                      None \<Rightarrow> (wrong_number ''client|setname'', ss)
                    | Some new_name \<Rightarrow>
                        if \<exists>b \<in> set new_name. byte b < byte (CHR ''!'') \<or> byte b > byte (CHR ''~'') \<or> b = CHR '' ''
                        then (FError ''ERR Client names cannot contain spaces, newlines or special characters.'', ss)
                        else (FSimple ''OK'', ss\<lparr>ss_name := (if new_name = [] then None else Some new_name)\<rparr>))
                 else if sub = ''INFO'' then (FBulk (client_info_text ss client_id), ss)
                 else if sub = ''LIST'' then
                   (FError ''ERR CLIENT LIST is not supported by rocket-mem: no live connection registry exists'', ss)
                 else (FError (''ERR unknown CLIENT subcommand '' @ QUOTE @ sub @ QUOTE), ss)))"

section \<open>ACL\<close>

fun rule_token :: "(bytes \<Rightarrow> bytes) \<Rightarrow> acl_rule \<Rightarrow> bytes" where
  "rule_token lower AllCommands = ''+@all''"
| "rule_token lower NoCommands = ''-@all''"
| "rule_token lower (AllowCommand c) = ''+'' @ lower c"
| "rule_token lower (DenyCommand c) = ''-'' @ lower c"
| "rule_token lower AllKeys = ''~*''"
| "rule_token lower (KeyPattern p) = ''~'' @ p"

fun join_spaces :: "bytes list \<Rightarrow> bytes" where
  "join_spaces [] = []"
| "join_spaces [p] = p"
| "join_spaces (p # ps) = p @ '' '' @ join_spaces ps"

definition render_user_line :: "(bytes \<Rightarrow> bytes) \<Rightarrow> acl_user \<Rightarrow> bytes" where
  "render_user_line lower user =
     join_spaces ([''user'', username user, if enabled user then ''on'' else ''off'',
         case password_hash user of None \<Rightarrow> ''nopass'' | Some h \<Rightarrow> ''#'' @ h]
       @ map (rule_token lower) (rules user))"

definition acl_whoami :: "session \<Rightarrow> frame" where
  "acl_whoami ss = FBulk (case ss_user ss of Some u \<Rightarrow> username u | None \<Rightarrow> ''default'')"

fun is_command_rule :: "acl_rule \<Rightarrow> bool" where
  "is_command_rule AllCommands = True"
| "is_command_rule NoCommands = True"
| "is_command_rule (AllowCommand _) = True"
| "is_command_rule (DenyCommand _) = True"
| "is_command_rule _ = False"

definition acl_getuser :: "(bytes \<Rightarrow> bytes) \<Rightarrow> acl_store \<Rightarrow> frame list \<Rightarrow> frame" where
  "acl_getuser lower acl items =
     (case bulk_at 2 items of
        None \<Rightarrow> wrong_number ''acl|getuser''
      | Some name \<Rightarrow>
          (case get_user acl (utf8_lossy name) of
             None \<Rightarrow> FNull
           | Some user \<Rightarrow>
               (let commands = map (rule_token lower) (filter is_command_rule (rules user));
                    keys = map (rule_token lower) (filter (\<lambda>r. \<not> is_command_rule r) (rules user))
                in FMap [(FBulk ''flags'', FArray [FBulk (if enabled user then ''on'' else ''off'')]),
                     (FBulk ''passwords'',
                      FArray (case password_hash user of Some h \<Rightarrow> [FBulk h] | None \<Rightarrow> [])),
                     (FBulk ''commands'', FBulk (join_spaces commands)),
                     (FBulk ''keys'', FBulk (join_spaces keys))])))"

definition acl_list :: "(bytes \<Rightarrow> bytes) \<Rightarrow> acl_store \<Rightarrow> frame" where
  "acl_list lower acl = FArray (map (\<lambda>u. FBulk (render_user_line lower u)) (acl_list_users acl))"

definition acl_setuser ::
  "'h argon2 \<Rightarrow> (nat \<Rightarrow> bytes) \<Rightarrow> frame list \<Rightarrow> acl_store \<Rightarrow> frame \<times> acl_store" where
  "acl_setuser A salts items acl =
     (case bulk_at 2 items of
        None \<Rightarrow> (wrong_number ''acl|setuser'', acl)
      | Some name \<Rightarrow>
          (let raw_tokens = List.map_filter bulk_bytes (drop 3 items)
           in if length raw_tokens \<noteq> length (drop 3 items) then (syntax_error, acl)
              else case set_user A salts (utf8_lossy name) raw_tokens acl of
                  (Inr _, acl') \<Rightarrow> (FSimple ''OK'', acl')
                | (Inl e, acl') \<Rightarrow> (FError (acl_error_text e), acl')))"

fun deluser_loop :: "bytes list \<Rightarrow> acl_store \<Rightarrow> nat \<times> acl_store" where
  "deluser_loop [] acl = (0, acl)"
| "deluser_loop (b # bs) acl =
     (let (removed, acl1) = del_user (utf8_lossy b) acl;
          (n, acl2) = deluser_loop bs acl1
      in ((if removed then 1 else 0) + n, acl2))"

definition acl_deluser :: "frame list \<Rightarrow> acl_store \<Rightarrow> frame \<times> acl_store" where
  "acl_deluser items acl =
     (if length items < 3 then (wrong_number ''acl|deluser'', acl)
      else let (deleted, acl') = deluser_loop (List.map_filter bulk_bytes (drop 2 items)) acl
           in (FInteger (int deleted), acl'))"

definition handle_acl ::
  "('f, 'h) platform \<Rightarrow> world \<Rightarrow> frame \<Rightarrow> session \<Rightarrow> acl_store \<Rightarrow> (frame \<times> acl_store) option" where
  "handle_acl pf w frame ss acl =
     (if \<not> named ''ACL'' frame then None
      else let items = frame_items frame
           in Some (case subcommand items of
               None \<Rightarrow> (wrong_number ''acl'', acl)
             | Some sub \<Rightarrow>
                 if sub = ''SETUSER'' then acl_setuser (pf_argon2 pf) (w_salts w) items acl
                 else if sub = ''DELUSER'' then acl_deluser items acl
                 else if sub = ''WHOAMI'' then (acl_whoami ss, acl)
                 else if sub = ''LIST'' then (acl_list (pf_lowercase pf) acl, acl)
                 else if sub = ''GETUSER'' then (acl_getuser (pf_lowercase pf) acl items, acl)
                 else (FError (''ERR unknown ACL subcommand '' @ QUOTE @ sub @ QUOTE), acl)))"

end
