(* ===== verification/Rm_Server.thy ===== *)
theory Rm_Server
  imports Rm_Session "HOL-Library.Char_ord" "HOL-Library.List_Lexorder"
begin

text \<open>
  The path of a request through a node (\<open>crates/server/src/dispatcher.rs\<close>): \<open>dispatch_and_log\<close>, its
  gates and the handlers of the commands that need more than the engine, up to the dispatcher
  proper and the logging of a write. The model runs one request at a time: the interleavings of
  requests are the subject of \<open>Rm_Locks\<close>. Disk operations succeed, except that a manifest may be
  unreadable. \<open>None\<close> is a panic. Log events and metrics are left out.
\<close>

section \<open>Routing and replication commands\<close>

text \<open>The outer \<open>None\<close> is the panic of \<open>owner_of\<close> on a slot without an owner.\<close>

definition cluster_redirect :: "frame \<Rightarrow> 'f server \<Rightarrow> frame option option" where
  "cluster_redirect frame sv =
     (case sv_cluster sv of
        None \<Rightarrow> Some None
      | Some cluster \<Rightarrow>
          (case map key_slot (command_keys frame) of
             [] \<Rightarrow> Some None
           | first # slots \<Rightarrow>
               if \<not> list_all (\<lambda>s. s = first) slots
               then Some (Some (FError (''CROSSSLOT Keys in request don'' @ QUOTE @ ''t hash to the same slot'')))
               else if owns cluster first then Some None
               else case owner_of cluster first of
                   None \<Rightarrow> None
                 | Some owner \<Rightarrow>
                     Some (Some (FError (''MOVED '' @ show_nat first @ '' '' @ node_addr owner)))))"

definition replicaof_auth :: "frame list \<Rightarrow> frame + (string \<times> string) option" where
  "replicaof_auth items =
     (if length items = 6 then
        (case (items ! 3, items ! 4, items ! 5) of
           (FBulk kw, FBulk user, FBulk password) \<Rightarrow>
             if \<not> eq_ignore_ascii_case kw ''AUTH'' then Inl syntax_error
             else Inr (Some (utf8_lossy user, utf8_lossy password))
         | _ \<Rightarrow> Inl syntax_error)
      else Inr None)"

definition handle_replicaof :: "frame \<Rightarrow> link_state \<Rightarrow> (frame \<times> link_state) option" where
  "handle_replicaof frame l =
     (if \<not> named ''REPLICAOF'' frame then None
      else let items = frame_items frame
           in Some (if length items \<noteq> 3 \<and> length items \<noteq> 6 then (wrong_number ''replicaof'', l)
               else case (items ! 1, items ! 2) of
                 (FBulk a, FBulk b) \<Rightarrow>
                   (case replicaof_auth items of
                      Inl err \<Rightarrow> (err, l)
                    | Inr auth \<Rightarrow>
                        if eq_ignore_ascii_case a ''NO'' \<and> eq_ignore_ascii_case b ''ONE'' then
                          (if auth \<noteq> None then (syntax_error, l) else (FSimple ''OK'', stop_replicating l))
                        else (FSimple ''OK'', start_replicating (utf8_lossy a @ '':'' @ utf8_lossy b) auth l))
               | _ \<Rightarrow> (wrong_number ''replicaof'', l)))"

definition handle_cluster :: "env \<Rightarrow> frame \<Rightarrow> 'f server \<Rightarrow> frame option" where
  "handle_cluster \<epsilon> frame sv =
     (if \<not> named ''CLUSTER'' frame then None
      else let items = frame_items frame; cluster = sv_cluster sv; health = sv_peer_health sv
           in Some (case subcommand items of
               None \<Rightarrow> wrong_number ''cluster''
             | Some sub \<Rightarrow>
                 if sub = ''KEYSLOT'' then
                   (case items of [_, _, FBulk key] \<Rightarrow> FInteger (int (key_slot key))
                    | _ \<Rightarrow> wrong_number ''cluster|keyslot'')
                 else if sub = ''MYID'' then
                   FBulk (case cluster of Some c \<Rightarrow> node_id (myself c) | None \<Rightarrow> replicate 40 (CHR ''0''))
                 else if sub = ''INFO'' then FBulk (cluster_info_text \<epsilon> cluster health)
                 else if sub = ''SHARDS'' then
                   cluster_shards_reply \<epsilon> cluster health (sv_master_repl_offset sv)
                 else if sub = ''SLOTS'' then cluster_slots_reply cluster
                 else if sub = ''NODES'' then FBulk (cluster_nodes_text \<epsilon> cluster health)
                 else FError (''ERR unknown CLUSTER subcommand '' @ QUOTE @ sub @ QUOTE)))"

section \<open>Reports\<close>

definition human_bytes :: "(nat \<Rightarrow> nat \<Rightarrow> string) \<Rightarrow> nat \<Rightarrow> string" where
  "human_bytes fixed2 b =
     (if b \<ge> 1024 * 1024 * 1024 then fixed2 b (1024 * 1024 * 1024) @ ''G''
      else if b \<ge> 1024 * 1024 then fixed2 b (1024 * 1024) @ ''M''
      else if b \<ge> 1024 then fixed2 b 1024 @ ''K''
      else show_nat b @ ''B'')"

fun fsync_policy_name :: "fsync_policy \<Rightarrow> string" where
  "fsync_policy_name FsyncAlways = ''always''"
| "fsync_policy_name FsyncEverySecond = ''everysec''"
| "fsync_policy_name FsyncNever = ''no''"

definition info_line :: "string \<Rightarrow> string \<Rightarrow> string" where
  "info_line name v = name @ '':'' @ v @ crlf_bytes"

definition info_server :: "('f, 'h) platform \<Rightarrow> env \<Rightarrow> 'f server \<Rightarrow> string" where
  "info_server pf \<epsilon> sv =
     (let uptime = uptime_secs \<epsilon> (sv_counters sv)
      in ''# Server'' @ crlf_bytes
         @ info_line ''redis_version'' (''rocket-mem-'' @ pf_version pf)
         @ info_line ''rocket_mem_version'' (pf_version pf)
         @ info_line ''redis_mode'' (if sv_cluster sv \<noteq> None then ''cluster'' else ''standalone'')
         @ info_line ''os'' (pf_os pf)
         @ info_line ''arch_bits'' ''64''
         @ info_line ''process_id'' (show_nat (pf_pid pf))
         @ info_line ''uptime_in_seconds'' (show_nat uptime)
         @ info_line ''uptime_in_days'' (show_nat (uptime div 86400)) @ crlf_bytes)"

definition info_memory :: "('f, 'h) platform \<Rightarrow> 'f server \<Rightarrow> string" where
  "info_memory pf sv =
     (let used = unat (engine_memory_used (sv_engine sv))
      in ''# Memory'' @ crlf_bytes
         @ info_line ''used_memory'' (show_nat used)
         @ info_line ''used_memory_human'' (human_bytes (pf_fixed2 pf) used)
         @ info_line ''maxmemory'' (show_nat (case maxmemory (sv_engine sv) of Some m \<Rightarrow> unat m | None \<Rightarrow> 0))
         @ info_line ''maxmemory_policy'' ''allkeys-lru'' @ crlf_bytes)"

definition info_persistence :: "world \<Rightarrow> 'f server \<Rightarrow> string" where
  "info_persistence w sv =
     ''# Persistence'' @ crlf_bytes
     @ info_line ''aof_enabled'' ''1''
     @ info_line ''aof_fsync_policy'' (fsync_policy_name (af_policy (sv_aof sv)))
     @ info_line ''aof_file_intact'' (if w_intact w then ''1'' else ''0'')
     @ info_line ''rdb_last_save_time'' (show_int (ct_last_save_unix (sv_counters sv)))
     @ info_line ''rdb_bgsave_in_progress'' ''0'' @ crlf_bytes"

definition info_stats :: "'f server \<Rightarrow> string" where
  "info_stats sv =
     (let c = sv_counters sv
      in ''# Stats'' @ crlf_bytes
         @ info_line ''total_connections_received'' (show_nat (unat (ct_total_connections c)))
         @ info_line ''total_commands_processed'' (show_nat (unat (ct_total_commands c)))
         @ info_line ''expired_keys'' (show_nat (unat (ct_expired_keys c)))
         @ info_line ''evicted_keys'' (show_nat (unat (eviction_count (sv_engine sv)))) @ crlf_bytes)"

definition info_replica_line :: "env \<Rightarrow> nat \<times> replica_entry \<Rightarrow> string" where
  "info_replica_line \<epsilon> = (\<lambda>(i, r).
     let (ip, port) = (case re_addr r of Some a \<Rightarrow> split_addr a | None \<Rightarrow> (''?'', 0));
         lag = (if re_last_ack_unix r = 0 then - 1
                else max (saturating_sub_i64 (unix_now_secs \<epsilon>) (re_last_ack_unix r)) 0)
     in info_line (''slave'' @ show_nat i)
          (''ip='' @ ip @ '',port='' @ show_int port @ '',state=online,offset=''
           @ show_nat (unat (re_ack_offset r)) @ '',lag='' @ show_int lag))"

definition info_replication :: "env \<Rightarrow> 'f server \<Rightarrow> string" where
  "info_replication \<epsilon> sv =
     (let l = sv_link sv
      in ''# Replication'' @ crlf_bytes
         @ (if lk_is_replica l then
              info_line ''role'' ''slave''
              @ (case lk_master_addr l of
                   Some addr \<Rightarrow>
                     (let (host, port) = split_addr addr
                      in info_line ''master_host'' host @ info_line ''master_port'' (show_int port))
                 | None \<Rightarrow> [])
              @ info_line ''master_link_status'' (if lk_up l then ''up'' else ''down'')
              @ info_line ''slave_repl_offset'' (show_nat (unat (lk_slave_repl_offset l)))
              @ info_line ''master_repl_offset'' (show_nat (unat (lk_slave_repl_offset l)))
            else
              (let states = rg_replicas (sv_registry sv)
               in info_line ''role'' ''master''
                  @ info_line ''connected_slaves'' (show_nat (length states))
                  @ concat (map (info_replica_line \<epsilon>) (zip [0..<length states] states))
                  @ info_line ''master_repl_offset'' (show_nat (unat (sv_master_repl_offset sv)))))
         @ crlf_bytes)"

definition info_keyspace :: "env \<Rightarrow> 'f server \<Rightarrow> string" where
  "info_keyspace \<epsilon> sv =
     (let (keys, expires) = engine_key_counts \<epsilon> (sv_engine sv)
      in ''# Keyspace'' @ crlf_bytes
         @ (if keys > 0
            then info_line ''db0'' (''keys='' @ show_nat keys @ '',expires='' @ show_nat expires @ '',avg_ttl=0'')
            else [])
         @ crlf_bytes)"

definition info_text :: "('f, 'h) platform \<Rightarrow> world \<Rightarrow> string option \<Rightarrow> 'f server \<Rightarrow> string" where
  "info_text pf w section sv =
     (let wanted = (\<lambda>name. section = None \<or> section = Some name); \<epsilon> = w_env w
      in (if wanted ''server'' then info_server pf \<epsilon> sv else [])
         @ (if wanted ''clients'' then ''# Clients'' @ crlf_bytes
              @ info_line ''connected_clients'' (show_nat (unat (ct_connected_clients (sv_counters sv))))
              @ crlf_bytes else [])
         @ (if wanted ''memory'' then info_memory pf sv else [])
         @ (if wanted ''persistence'' then info_persistence w sv else [])
         @ (if wanted ''stats'' then info_stats sv else [])
         @ (if wanted ''replication'' then info_replication \<epsilon> sv else [])
         @ (if wanted ''cluster'' then ''# Cluster'' @ crlf_bytes
              @ info_line ''cluster_enabled'' (if sv_cluster sv \<noteq> None then ''1'' else ''0'') @ crlf_bytes
            else [])
         @ (if wanted ''keyspace'' then info_keyspace \<epsilon> sv else []))"

definition handle_info :: "('f, 'h) platform \<Rightarrow> world \<Rightarrow> frame \<Rightarrow> 'f server \<Rightarrow> frame option" where
  "handle_info pf w frame sv =
     (if \<not> named ''INFO'' frame then None
      else let section = (case bulk_at 1 (frame_items frame) of
                 Some raw \<Rightarrow>
                   (let requested = ascii_lowercase (utf8_lossy raw)
                    in if requested \<in> set [''all'', ''default'', ''everything''] then None else Some requested)
               | None \<Rightarrow> None)
           in Some (FBulk (info_text pf w section sv)))"

definition config_parameters :: "'f server \<Rightarrow> (string \<times> string) list" where
  "config_parameters sv =
     [(''maxmemory'', show_nat (case maxmemory (sv_engine sv) of Some m \<Rightarrow> unat m | None \<Rightarrow> 0)),
      (''maxmemory-policy'', ''allkeys-lru''),
      (''appendonly'', ''yes''),
      (''appendfsync'', fsync_policy_name (af_policy (sv_aof sv))),
      (''databases'', ''1''),
      (''notify-keyspace-events'', []),
      (''slowlog-log-slower-than'', show_nat (sl_threshold (sv_slowlog sv) div 1000)),
      (''save'', []),
      (''timeout'', ''0'')]"

definition handle_config :: "frame \<Rightarrow> 'f server \<Rightarrow> frame option" where
  "handle_config frame sv =
     (if \<not> named ''CONFIG'' frame then None
      else let items = frame_items frame
           in Some (case subcommand items of
               None \<Rightarrow> wrong_number ''config''
             | Some sub \<Rightarrow>
                 if sub = ''GET'' then
                   (let patterns = List.map_filter bulk_bytes (drop 2 items)
                    in if patterns = [] then wrong_number ''config|get''
                       else FArray (concat (map (\<lambda>(param, v).
                              if list_ex (\<lambda>p. glob_match p param) patterns
                              then [FBulk param, FBulk v] else []) (config_parameters sv))))
                 else if sub = ''SET'' then
                   (case bulk_at 2 items of
                      None \<Rightarrow> wrong_number ''config|set''
                    | Some param \<Rightarrow>
                        FError (''ERR Unknown option or number of arguments for CONFIG SET - ''
                          @ QUOTE @ utf8_lossy param @ QUOTE))
                 else FError (''ERR unknown CONFIG subcommand '' @ QUOTE @ sub @ QUOTE)))"

definition slowlog_args_frame :: "slowlog_entry \<Rightarrow> frame" where
  "slowlog_args_frame entry =
     (let shown = (if sl_key entry \<noteq> None then 1 else 0)
      in FArray ([FBulk (sl_command entry)]
           @ (case sl_key entry of Some key \<Rightarrow> [FBulk key] | None \<Rightarrow> [])
           @ (if sl_arg_count entry > shown
              then [FBulk (''... ('' @ show_nat (sl_arg_count entry - shown) @ '' more arguments)'')]
              else [])))"

definition slowlog_count :: "frame list \<Rightarrow> nat option" where
  "slowlog_count items =
     (if length items \<le> 2 then Some 10
      else case bulk_at 2 items of
          None \<Rightarrow> None
        | Some raw \<Rightarrow>
            map_option (\<lambda>n. if n < 0 then SLOWLOG_CAPACITY else nat n) (parse_i64_arg raw))"

definition handle_slowlog :: "frame \<Rightarrow> slowlog \<Rightarrow> (frame \<times> slowlog) option" where
  "handle_slowlog frame s =
     (if \<not> named ''SLOWLOG'' frame then None
      else let items = frame_items frame
           in Some (case subcommand items of
               None \<Rightarrow> (wrong_number ''slowlog'', s)
             | Some sub \<Rightarrow>
                 if sub = ''GET'' then
                   (case slowlog_count items of
                      None \<Rightarrow> (FError ''ERR value is not an integer or out of range'', s)
                    | Some cnt \<Rightarrow>
                        (FArray (map (\<lambda>entry. FArray [FInteger (sint (sl_id entry)),
                             FInteger (sl_unix_time_secs entry), FInteger (sl_duration_micros entry),
                             slowlog_args_frame entry]) (slowlog_get cnt s)), s))
                 else if sub = ''LEN'' then (FInteger (int (slowlog_len s)), s)
                 else if sub = ''RESET'' then (FSimple ''OK'', slowlog_reset s)
                 else (FError (''ERR unknown SLOWLOG subcommand '' @ QUOTE @ sub @ QUOTE), s)))"

section \<open>SAVE and BGREWRITEAOF\<close>

definition handle_save :: "('f::linorder, 'h) platform \<Rightarrow> env \<Rightarrow> 'f server \<Rightarrow> frame \<times> 'f server" where
  "handle_save pf \<epsilon> sv =
     (let aof = sv_aof sv; fs = af_fs aof
      in case read_generation fs (sv_snapshot_path sv) of
           Inl e \<Rightarrow> (FError (''ERR failed to read AOF generation: '' @ e), sv)
         | Inr gen \<Rightarrow>
             (case fs (af_path aof) of
                None \<Rightarrow> (FError ''ERR failed to read AOF offset: No such file or directory (os error 2)'', sv)
              | Some log \<Rightarrow>
                  (let snapshot_path = generation_path (sv_snapshot_path sv) gen;
                       blob = engine_snapshot (pf_encode pf) \<epsilon> (of_nat (length log)) (sv_engine sv);
                       fs' = commit_tmp snapshot_path (write_tmp snapshot_path blob fs)
                   in (FSimple ''OK'',
                       sv\<lparr>sv_aof := aof\<lparr>af_fs := fs'\<rparr>,
                          sv_counters := record_save \<epsilon> (sv_counters sv)\<rparr>))))"

definition handle_bgrewriteaof :: "('f::linorder, 'h) platform \<Rightarrow> env \<Rightarrow> 'f server \<Rightarrow> frame \<times> 'f server" where
  "handle_bgrewriteaof pf \<epsilon> sv =
     (let aof = sv_aof sv; fs = af_fs aof
      in case read_generation fs (sv_snapshot_path sv) of
           Inl e \<Rightarrow> (FError (''ERR failed to start AOF rewrite: '' @ e), sv)
         | Inr gen \<Rightarrow>
             (let blob = engine_snapshot (pf_encode pf) \<epsilon> 0 (sv_engine sv);
                  fs' = fold (\<lambda>step s. step s) (rewrite_steps (af_base_path aof) (sv_snapshot_path sv) gen blob) fs
              in (FSimple ''OK'',
                  sv\<lparr>sv_aof := aof\<lparr>af_fs := fs', af_path := generation_path (af_base_path aof) (gen + 1)\<rparr>\<rparr>)))"

section \<open>Publish and subscribe\<close>

definition ensure_push_channel :: "session \<Rightarrow> 'f server \<Rightarrow> nat \<times> session \<times> 'f server" where
  "ensure_push_channel ss sv =
     (case ss_push ss of
        Some tx \<Rightarrow> (tx, ss, sv)
      | None \<Rightarrow>
          (let tx = sv_channels sv in (tx, ss\<lparr>ss_push := Some tx\<rparr>, sv\<lparr>sv_channels := tx + 1\<rparr>)))"

definition total_subscription_count :: "session \<Rightarrow> nat" where
  "total_subscription_count ss = length (ss_subscriptions ss) + length (ss_psubscriptions ss)"

text \<open>The two kinds of subscription: to a channel and to a pattern.\<close>

datatype sub_kind = ChannelSub | PatternSub

fun kind_names :: "sub_kind \<Rightarrow> session \<Rightarrow> bytes list" where
  "kind_names ChannelSub ss = ss_subscriptions ss"
| "kind_names PatternSub ss = ss_psubscriptions ss"

fun set_kind_names :: "sub_kind \<Rightarrow> bytes list \<Rightarrow> session \<Rightarrow> session" where
  "set_kind_names ChannelSub names ss = ss\<lparr>ss_subscriptions := names\<rparr>"
| "set_kind_names PatternSub names ss = ss\<lparr>ss_psubscriptions := names\<rparr>"

fun kind_subscribe :: "sub_kind \<Rightarrow> bytes \<Rightarrow> nat \<Rightarrow> nat \<Rightarrow> pubsub_registry \<Rightarrow> pubsub_registry" where
  "kind_subscribe ChannelSub name client tx r = snd (subscribe name client tx r)"
| "kind_subscribe PatternSub name client tx r = snd (psubscribe name client tx r)"

fun kind_unsubscribe :: "sub_kind \<Rightarrow> bytes \<Rightarrow> nat \<Rightarrow> pubsub_registry \<Rightarrow> pubsub_registry" where
  "kind_unsubscribe ChannelSub name client r = snd (unsubscribe name client r)"
| "kind_unsubscribe PatternSub name client r = snd (punsubscribe name client r)"

definition count_subscriptions :: "session \<Rightarrow> session" where
  "count_subscriptions ss = ss\<lparr>ss_subscription_count := total_subscription_count ss\<rparr>"

fun subscribe_loop ::
  "sub_kind \<Rightarrow> string \<Rightarrow> nat \<Rightarrow> nat \<Rightarrow> bytes list \<Rightarrow> session \<Rightarrow> pubsub_registry
   \<Rightarrow> frame list \<times> session \<times> pubsub_registry" where
  "subscribe_loop k word client tx [] ss r = ([], ss, r)"
| "subscribe_loop k word client tx (name # names) ss r =
     (let ss1 = count_subscriptions (set_kind_names k (insort_insert name (kind_names k ss)) ss);
          r1 = kind_subscribe k name client tx r;
          (replies, ss2, r2) = subscribe_loop k word client tx names ss1 r1
      in (FPush [FBulk word, FBulk name, FInteger (int (ss_subscription_count ss1))] # replies, ss2, r2))"

fun unsubscribe_loop ::
  "sub_kind \<Rightarrow> string \<Rightarrow> nat \<Rightarrow> bytes list \<Rightarrow> session \<Rightarrow> pubsub_registry
   \<Rightarrow> frame list \<times> session \<times> pubsub_registry" where
  "unsubscribe_loop k word client [] ss r = ([], ss, r)"
| "unsubscribe_loop k word client (name # names) ss r =
     (let ss1 = count_subscriptions (set_kind_names k (filter (\<lambda>n. n \<noteq> name) (kind_names k ss)) ss);
          r1 = kind_unsubscribe k name client r;
          (replies, ss2, r2) = unsubscribe_loop k word client names ss1 r1
      in (FPush [FBulk word, FBulk name, FInteger (int (ss_subscription_count ss1))] # replies, ss2, r2))"

text \<open>The first reply is the answer; the others go through the connection's own channel.\<close>

definition answer_first :: "(nat \<Rightarrow> bool) \<Rightarrow> nat \<Rightarrow> frame list \<Rightarrow> 'f server \<Rightarrow> frame option \<times> 'f server" where
  "answer_first alive tx replies sv =
     (case replies of
        [] \<Rightarrow> (None, sv)
      | first # extras \<Rightarrow>
          (Some first, sv\<lparr>sv_pushed := sv_pushed sv @ (if alive tx then map (\<lambda>f. (tx, f)) extras else [])\<rparr>))"

definition pubsub_subscribe ::
  "sub_kind \<Rightarrow> string \<Rightarrow> world \<Rightarrow> u64 \<Rightarrow> frame list \<Rightarrow> session \<Rightarrow> 'f server
   \<Rightarrow> frame option \<times> session \<times> 'f server" where
  "pubsub_subscribe k word w client_id items ss sv =
     (if length items < 2 then (Some (wrong_number word), ss, sv)
      else let (tx, ss1, sv1) = ensure_push_channel ss sv;
               (replies, ss2, r) = subscribe_loop k word (unat client_id) tx
                  (List.map_filter bulk_bytes (tl items)) ss1 (sv_pubsub sv1);
               (reply, sv2) = answer_first (w_alive w) tx replies (sv1\<lparr>sv_pubsub := r\<rparr>)
           in (reply, ss2, sv2))"

definition pubsub_unsubscribe ::
  "sub_kind \<Rightarrow> string \<Rightarrow> world \<Rightarrow> u64 \<Rightarrow> frame list \<Rightarrow> session \<Rightarrow> 'f server
   \<Rightarrow> frame option \<times> session \<times> 'f server" where
  "pubsub_unsubscribe k word w client_id items ss sv =
     (let (tx, ss1, sv1) = ensure_push_channel ss sv;
          explicit = List.map_filter bulk_bytes (tl items);
          targets = (if explicit = [] then kind_names k ss1 else explicit);
          (replies, ss2, r) = unsubscribe_loop k word (unat client_id) targets ss1 (sv_pubsub sv1);
          replies' = (if replies = [] then [FPush [FBulk word, FNull, FInteger 0]] else replies);
          (reply, sv2) = answer_first (w_alive w) tx replies' (sv1\<lparr>sv_pubsub := r\<rparr>)
      in (reply, ss2, sv2))"

definition pubsub_publish :: "world \<Rightarrow> frame \<Rightarrow> 'f server \<Rightarrow> frame \<times> 'f server" where
  "pubsub_publish w frame sv =
     (case (bulk_at 1 (frame_items frame), bulk_at 2 (frame_items frame)) of
        (Some channel, Some message) \<Rightarrow>
          (let (delivered, sent, r) = publish (w_alive w) channel message (sv_pubsub sv);
               sv1 = sv\<lparr>sv_pubsub := r, sv_pushed := sv_pushed sv @ sent\<rparr>
           in (FInteger (int delivered), send_bytes (w_alive w) (resp_encode Resp2 frame) sv1))
      | _ \<Rightarrow> (wrong_number ''publish'', sv))"

definition pubsub_introspect :: "frame list \<Rightarrow> pubsub_registry \<Rightarrow> frame" where
  "pubsub_introspect items r =
     (case subcommand items of
        None \<Rightarrow> wrong_number ''pubsub''
      | Some sub \<Rightarrow>
          if sub = ''CHANNELS'' then
            (let wanted = (case bulk_at 2 items of None \<Rightarrow> (\<lambda>_. True) | Some p \<Rightarrow> glob_match p)
             in FArray (map FBulk (sort (filter wanted (channel_names r)))))
          else if sub = ''NUMSUB'' then
            FArray (concat (map (\<lambda>(channel, count). [FBulk channel, FInteger (int count)])
              (num_sub (List.map_filter bulk_bytes (drop 2 items)) r)))
          else if sub = ''NUMPAT'' then FInteger (int (num_pat r))
          else FError (''ERR unknown PUBSUB subcommand '' @ QUOTE @ sub @ QUOTE))"

definition PUBSUB_COMMANDS :: "bytes list" where
  "PUBSUB_COMMANDS = [''SUBSCRIBE'', ''UNSUBSCRIBE'', ''PSUBSCRIBE'', ''PUNSUBSCRIBE'', ''PUBLISH'', ''PUBSUB'']"

definition intercept_for_pubsub ::
  "world \<Rightarrow> u64 \<Rightarrow> frame \<Rightarrow> session \<Rightarrow> 'f server \<Rightarrow> frame option \<times> session \<times> 'f server" where
  "intercept_for_pubsub w client_id frame ss sv =
     (let items = frame_items frame
      in case command_name_upper frame of
           None \<Rightarrow> (None, ss, sv)
         | Some name \<Rightarrow>
             if ss_is_rmp ss \<and> name \<in> set PUBSUB_COMMANDS
             then (Some (FError ''ERR pub/sub is not supported over RMP''), ss, sv)
             else if name = ''SUBSCRIBE'' then pubsub_subscribe ChannelSub ''subscribe'' w client_id items ss sv
             else if name = ''UNSUBSCRIBE'' then pubsub_unsubscribe ChannelSub ''unsubscribe'' w client_id items ss sv
             else if name = ''PSUBSCRIBE'' then pubsub_subscribe PatternSub ''psubscribe'' w client_id items ss sv
             else if name = ''PUNSUBSCRIBE'' then pubsub_unsubscribe PatternSub ''punsubscribe'' w client_id items ss sv
             else if name = ''PUBLISH'' then
               (let (reply, sv1) = pubsub_publish w frame sv in (Some reply, ss, sv1))
             else if name = ''PUBSUB'' then (Some (pubsub_introspect items (sv_pubsub sv)), ss, sv)
             else (None, ss, sv))"

definition subscribe_mode_gate :: "frame \<Rightarrow> session \<Rightarrow> frame option" where
  "subscribe_mode_gate frame ss =
     (if ss_subscription_count ss = 0 \<or> ss_protocol ss \<noteq> Resp2 then None
      else case command_name_upper frame of
          None \<Rightarrow> None
        | Some name \<Rightarrow>
            if name \<in> set [''SUBSCRIBE'', ''UNSUBSCRIBE'', ''PSUBSCRIBE'', ''PUNSUBSCRIBE'', ''PING'', ''QUIT'']
            then None
            else Some (FError (''ERR only (P)SUBSCRIBE / (P)UNSUBSCRIBE / PING / QUIT / RESET are allowed''
                         @ '' in this context'')))"

end
