(* ===== verification/Rm_Request.thy ===== *)
theory Rm_Request
  imports Rm_Server
begin

text \<open>
  The request path of \<open>crates/server/src/dispatcher.rs\<close> as a whole: the gates in their order, the
  interceptions, the engine, the log and the replicas; transactions, which queue requests and run
  them together; and the bookkeeping around every request. The definitions follow
  \<open>dispatch_and_log\<close>, \<open>dispatch_and_log_inner\<close>, \<open>dispatch_and_log_gated\<close>,
  \<open>intercept_for_transaction\<close> and \<open>handle_exec\<close>.
\<close>

section \<open>Logging a write\<close>

text \<open>Every frame is appended first; then every frame is sent to the replicas.\<close>

definition log_and_send :: "(nat \<Rightarrow> bool) \<Rightarrow> frame list \<Rightarrow> 'f server \<Rightarrow> 'f server" where
  "log_and_send alive frames sv =
     (let encoded = map (resp_encode Resp2) frames
      in fold (send_bytes alive) encoded (fold log_bytes encoded sv))"

definition append_transaction_marker :: "(nat \<Rightarrow> bool) \<Rightarrow> string \<Rightarrow> 'f server \<Rightarrow> 'f server" where
  "append_transaction_marker alive name sv =
     (let encoded = resp_encode Resp2 (FArray [FBulk name])
      in send_bytes alive encoded (log_bytes encoded sv))"

section \<open>The gated body\<close>

text \<open>The refusals that come before every interception: the answer, and the node with its fencing flag.\<close>

definition write_gates :: "world \<Rightarrow> frame \<Rightarrow> 'f server \<Rightarrow> frame option \<times> 'f server" where
  "write_gates w frame sv =
     (if lk_is_replica (sv_link sv) \<and> extract_write_command_name frame \<noteq> None
      then (Some (FError (''READONLY You can'' @ QUOTE @ ''t write against a read only replica.'')), sv)
      else if sv_min_replicas_to_write sv > 0 \<and> extract_write_command_name frame \<noteq> None then
        (let good = good_replicas (w_env w) (sv_min_replicas_max_lag sv) (sv_registry sv);
             is_fenced = ((of_nat good :: u64) < sv_min_replicas_to_write sv);
             sv1 = sv\<lparr>sv_fenced := is_fenced\<rparr>
         in if is_fenced then (Some (FError ''NOREPLICAS Not enough good replicas to write.''), sv1)
            else (None, sv1))
      else (None, sv))"

text \<open>
  The interceptions after them: the first that answers does. Each is a step that takes the session
  and the node to an answer, or to none when the frame is not its command.
\<close>

type_synonym 'f step = "session \<Rightarrow> 'f server \<Rightarrow> frame option \<times> session \<times> 'f server"

fun first_of :: "'f step list \<Rightarrow> 'f step" where
  "first_of [] ss sv = (None, ss, sv)"
| "first_of (h # hs) ss sv =
     (case h ss sv of
        (Some ans, ss', sv') \<Rightarrow> (Some ans, ss', sv')
      | (None, ss', sv') \<Rightarrow> first_of hs ss' sv')"

definition reporting :: "('f server \<Rightarrow> frame option) \<Rightarrow> 'f step" where
  "reporting h ss sv = (h sv, ss, sv)"

definition on_session :: "('f server \<Rightarrow> session \<Rightarrow> (frame \<times> session) option) \<Rightarrow> 'f step" where
  "on_session h ss sv =
     (case h sv ss of Some (ans, ss') \<Rightarrow> (Some ans, ss', sv) | None \<Rightarrow> (None, ss, sv))"

definition on_acl :: "(session \<Rightarrow> acl_store \<Rightarrow> (frame \<times> acl_store) option) \<Rightarrow> 'f step" where
  "on_acl h ss sv =
     (case h ss (sv_acl sv) of
        Some (ans, acl) \<Rightarrow> (Some ans, ss, sv\<lparr>sv_acl := acl\<rparr>) | None \<Rightarrow> (None, ss, sv))"

definition on_link :: "(link_state \<Rightarrow> (frame \<times> link_state) option) \<Rightarrow> 'f step" where
  "on_link h ss sv =
     (case h (sv_link sv) of
        Some (ans, l) \<Rightarrow> (Some ans, ss, sv\<lparr>sv_link := l\<rparr>) | None \<Rightarrow> (None, ss, sv))"

definition on_slowlog :: "(slowlog \<Rightarrow> (frame \<times> slowlog) option) \<Rightarrow> 'f step" where
  "on_slowlog h ss sv =
     (case h (sv_slowlog sv) of
        Some (ans, s) \<Rightarrow> (Some ans, ss, sv\<lparr>sv_slowlog := s\<rparr>) | None \<Rightarrow> (None, ss, sv))"

definition on_command :: "bytes \<Rightarrow> frame \<Rightarrow> ('f server \<Rightarrow> frame \<times> 'f server) \<Rightarrow> 'f step" where
  "on_command cmd frame h ss sv =
     (if named cmd frame then (let (ans, sv') = h sv in (Some ans, ss, sv')) else (None, ss, sv))"

definition intercept ::
  "('f::{linorder,plus,zero}, 'h) platform \<Rightarrow> world \<Rightarrow> u64 \<Rightarrow> frame \<Rightarrow> 'f step" where
  "intercept pf w client_id frame = first_of
     [on_session (\<lambda>sv. handle_auth (pf_argon2 pf) (sv_acl sv) frame),
      on_acl (handle_acl pf w frame),
      on_command ''SAVE'' frame (handle_save pf (w_env w)),
      on_command ''BGREWRITEAOF'' frame (handle_bgrewriteaof pf (w_env w)),
      on_link (handle_replicaof frame),
      reporting (handle_cluster (w_env w) frame),
      reporting (handle_info pf w frame),
      on_session (\<lambda>sv. handle_hello (pf_argon2 pf) client_id sv frame),
      on_slowlog (handle_slowlog frame),
      reporting (handle_config frame),
      on_session (\<lambda>sv. handle_client client_id frame),
      intercept_for_pubsub w client_id frame]"

definition run_on_engine ::
  "('f::{linorder,plus,zero}, 'h) platform \<Rightarrow> world \<Rightarrow> frame \<Rightarrow> 'f server \<Rightarrow> (frame \<times> 'f server) option" where
  "run_on_engine pf w frame sv =
     (case dispatch_write_path (pf_floats pf) (w_env w) frame (sv_engine sv) of
        None \<Rightarrow> None
      | Some (ans, frames, e) \<Rightarrow>
          Some (ans, log_and_send (w_alive w) frames (sv\<lparr>sv_engine := e\<rparr>)))"

definition dispatch_and_log_gated ::
  "('f::{linorder,plus,zero}, 'h) platform \<Rightarrow> world \<Rightarrow> u64 \<Rightarrow> frame \<Rightarrow> session \<Rightarrow> 'f server
   \<Rightarrow> (frame \<times> session \<times> 'f server) option" where
  "dispatch_and_log_gated pf w client_id frame ss sv =
     (case cluster_redirect frame sv of
        None \<Rightarrow> None
      | Some (Some redirect) \<Rightarrow> Some (redirect, ss, sv)
      | Some None \<Rightarrow>
          (case write_gates w frame sv of
             (Some refusal, sv1) \<Rightarrow> Some (refusal, ss, sv1)
           | (None, sv1) \<Rightarrow>
               (case intercept pf w client_id frame ss sv1 of
                  (Some ans, ss2, sv2) \<Rightarrow> Some (ans, ss2, sv2)
                | (None, ss2, sv2) \<Rightarrow>
                    map_option (\<lambda>(ans, sv3). (ans, ss2, sv3)) (run_on_engine pf w frame sv2))))"

section \<open>Transactions\<close>

definition handle_multi :: "session \<Rightarrow> frame \<times> session" where
  "handle_multi ss =
     (case ss_tx ss of
        Queuing _ _ \<Rightarrow> (FError ''ERR MULTI calls can not be nested'', ss)
      | Idle \<Rightarrow> (FSimple ''OK'', ss\<lparr>ss_tx := Queuing [] False, ss_in_transaction := True\<rparr>))"

definition handle_discard :: "session \<Rightarrow> frame \<times> session" where
  "handle_discard ss =
     (case ss_tx ss of
        Idle \<Rightarrow> (FError ''ERR DISCARD without MULTI'', ss)
      | Queuing _ _ \<Rightarrow> (FSimple ''OK'', ss\<lparr>ss_tx := Idle, ss_in_transaction := False\<rparr>))"

text \<open>The queued frames in order, each with its own readings of the clock.\<close>

fun exec_loop ::
  "('f::{linorder,plus,zero}, 'h) platform \<Rightarrow> (nat \<Rightarrow> world) \<Rightarrow> nat \<Rightarrow> u64 \<Rightarrow> frame list \<Rightarrow> session \<Rightarrow> 'f server
   \<Rightarrow> (frame list \<times> session \<times> 'f server) option" where
  "exec_loop pf ws i client_id [] ss sv = Some ([], ss, sv)"
| "exec_loop pf ws i client_id (frame # queued) ss sv =
     (case dispatch_and_log_gated pf (ws i) client_id frame ss sv of
        None \<Rightarrow> None
      | Some (ans, ss1, sv1) \<Rightarrow>
          map_option (\<lambda>(replies, ss2, sv2). (ans # replies, ss2, sv2))
            (exec_loop pf ws (i + 1) client_id queued ss1 sv1))"

definition handle_exec ::
  "('f::{linorder,plus,zero}, 'h) platform \<Rightarrow> (nat \<Rightarrow> world) \<Rightarrow> u64 \<Rightarrow> session \<Rightarrow> 'f server
   \<Rightarrow> (frame \<times> session \<times> 'f server) option" where
  "handle_exec pf ws client_id ss sv =
     (case ss_tx ss of
        Idle \<Rightarrow> Some (FError ''ERR EXEC without MULTI'', ss, sv)
      | Queuing queued dirty \<Rightarrow>
          (let ss1 = ss\<lparr>ss_tx := Idle, ss_in_transaction := False\<rparr>
           in if dirty
              then Some (FError ''EXECABORT Transaction discarded because of previous errors'', ss1, sv)
              else let has_write = list_ex (\<lambda>f. extract_write_command_name f \<noteq> None) queued;
                       sv1 = (if has_write then append_transaction_marker (w_alive (ws 0)) ''MULTI'' sv else sv)
                   in case exec_loop pf ws 0 client_id queued ss1 sv1 of
                        None \<Rightarrow> None
                      | Some (replies, ss2, sv2) \<Rightarrow>
                          Some (FArray replies, ss2,
                            if has_write
                            then append_transaction_marker (w_alive (ws (length queued))) ''EXEC'' sv2
                            else sv2)))"

definition queue_command :: "bytes \<Rightarrow> frame \<Rightarrow> session \<Rightarrow> (frame \<times> session) option" where
  "queue_command name frame ss =
     (if \<not> ss_in_transaction ss then None
      else case ss_tx ss of
          Idle \<Rightarrow> None
        | Queuing commands dirty \<Rightarrow>
            Some (if name \<in> set [''SUBSCRIBE'', ''UNSUBSCRIBE'', ''PSUBSCRIBE'', ''PUNSUBSCRIBE''] then
                    (FError (''ERR '' @ name @ '' is not allowed in transactions''),
                     ss\<lparr>ss_tx := Queuing commands True\<rparr>)
                  else if \<not> is_known name then
                    (FError (''ERR unknown command '' @ QUOTE @ name @ QUOTE),
                     ss\<lparr>ss_tx := Queuing commands True\<rparr>)
                  else (FSimple ''QUEUED'', ss\<lparr>ss_tx := Queuing (commands @ [frame]) dirty\<rparr>)))"

text \<open>The inner \<open>None\<close> leaves the frame to the ordinary path.\<close>

definition intercept_for_transaction ::
  "('f::{linorder,plus,zero}, 'h) platform \<Rightarrow> (nat \<Rightarrow> world) \<Rightarrow> u64 \<Rightarrow> frame \<Rightarrow> session \<Rightarrow> 'f server
   \<Rightarrow> (frame \<times> session \<times> 'f server) option option" where
  "intercept_for_transaction pf ws client_id frame ss sv =
     (case command_name_upper frame of
        None \<Rightarrow> Some None
      | Some name \<Rightarrow>
          if name = ''MULTI'' then (let (ans, ss') = handle_multi ss in Some (Some (ans, ss', sv)))
          else if name = ''DISCARD'' then (let (ans, ss') = handle_discard ss in Some (Some (ans, ss', sv)))
          else if name = ''EXEC'' then map_option Some (handle_exec pf ws client_id ss sv)
          else Some (map_option (\<lambda>(ans, ss'). (ans, ss', sv)) (queue_command name frame ss)))"

section \<open>A request\<close>

definition dispatch_and_log_inner ::
  "('f::{linorder,plus,zero}, 'h) platform \<Rightarrow> (nat \<Rightarrow> world) \<Rightarrow> u64 \<Rightarrow> frame \<Rightarrow> session \<Rightarrow> 'f server
   \<Rightarrow> (frame \<times> session \<times> 'f server) option" where
  "dispatch_and_log_inner pf ws client_id frame ss sv =
     (case auth_gate (sv_acl sv) ss frame of
        Some ans \<Rightarrow> Some (ans, ss, sv)
      | None \<Rightarrow>
      case subscribe_mode_gate frame ss of
        Some ans \<Rightarrow> Some (ans, ss, sv)
      | None \<Rightarrow>
      case intercept_for_transaction pf ws client_id frame ss sv of
        None \<Rightarrow> None
      | Some (Some answered) \<Rightarrow> Some answered
      | Some None \<Rightarrow> dispatch_and_log_gated pf (ws 0) client_id frame ss sv)"

fun command_key_and_arity :: "frame \<Rightarrow> bytes option \<times> nat" where
  "command_key_and_arity (FArray items) =
     (if named ''AUTH'' (FArray items) then (None, length items - 1)
      else (bulk_at 1 items, length items - 1))"
| "command_key_and_arity _ = (None, 0)"

definition dispatch_and_log ::
  "('f::{linorder,plus,zero}, 'h) platform \<Rightarrow> (nat \<Rightarrow> world) \<Rightarrow> u64 \<Rightarrow> frame \<Rightarrow> session \<Rightarrow> 'f server
   \<Rightarrow> (frame \<times> session \<times> 'f server) option" where
  "dispatch_and_log pf ws client_id frame ss sv =
     (let name = (case command_name_upper frame of Some n \<Rightarrow> n | None \<Rightarrow> []);
          (first_key, arg_count) = command_key_and_arity frame
      in case dispatch_and_log_inner pf ws client_id frame ss sv of
           None \<Rightarrow> None
         | Some (ans, ss1, sv1) \<Rightarrow>
             Some (ans, ss1,
               sv1\<lparr>sv_counters := command_executed (sv_counters sv1),
                   sv_slowlog := slowlog_maybe_record (unix_now_secs (w_env (ws 0))) name first_key arg_count
                     (w_elapsed (ws 0)) (sv_slowlog sv1)\<rparr>))"

end
