(* ===== verification/Rm_Guard.thy ===== *)
theory Rm_Guard
  imports Rm_Request Rm_Answer
begin

text \<open>
  What a request can change. The interceptions leave the keyspace and the queue of a transaction
  alone; a request that reaches the engine changes only keys it names, which the node owns; and
  whatever a client changes over its requests, transactions included, are keys of write commands
  that the access gate let pass when they arrived.
\<close>

section \<open>What the interceptions keep\<close>

definition keeps :: "(session \<Rightarrow> 'f server \<Rightarrow> 'a) \<Rightarrow> 'f step \<Rightarrow> bool" where
  "keeps g h \<longleftrightarrow> (\<forall>ss sv. g (fst (snd (h ss sv))) (snd (snd (h ss sv))) = g ss sv)"

lemma first_of_keeps:
  assumes "list_all (keeps g) hs"
  shows "keeps g (first_of hs)"
  using assms
proof (induction hs)
  case (Cons h hs)
  show ?case unfolding keeps_def
  proof (intro allI)
    fix ss sv
    obtain r ss1 sv1 where h: "h ss sv = (r, ss1, sv1)" by (metis prod.exhaust)
    have g: "g ss1 sv1 = g ss sv" using Cons.prems h by (simp add: keeps_def) (metis fst_conv snd_conv)
    show "g (fst (snd (first_of (h # hs) ss sv))) (snd (snd (first_of (h # hs) ss sv))) = g ss sv"
      using Cons g h by (cases r) (simp_all add: keeps_def)
  qed
qed (simp add: keeps_def)

lemma keeps_reporting: "keeps g (reporting h)"
  by (simp add: keeps_def reporting_def)

lemma keeps_on_acl: "(\<And>ss sv acl. g ss (sv\<lparr>sv_acl := acl\<rparr>) = g ss sv) \<Longrightarrow> keeps g (on_acl h)"
  by (auto simp: keeps_def on_acl_def split: option.splits)

lemma keeps_on_link: "(\<And>ss sv l. g ss (sv\<lparr>sv_link := l\<rparr>) = g ss sv) \<Longrightarrow> keeps g (on_link h)"
  by (auto simp: keeps_def on_link_def split: option.splits)

lemma keeps_on_slowlog: "(\<And>ss sv l. g ss (sv\<lparr>sv_slowlog := l\<rparr>) = g ss sv) \<Longrightarrow> keeps g (on_slowlog h)"
  by (auto simp: keeps_def on_slowlog_def split: option.splits)

lemma keeps_on_command: "(\<And>ss sv. g ss (snd (h sv)) = g ss sv) \<Longrightarrow> keeps g (on_command cmd frame h)"
  by (auto simp: keeps_def on_command_def split_def Let_def)

text \<open>The part of the state that no interception touches.\<close>

definition core :: "session \<Rightarrow> 'f server \<Rightarrow> 'f engine \<times> cluster_config option \<times> transaction_state \<times> bool" where
  "core ss sv = (sv_engine sv, sv_cluster sv, ss_tx ss, ss_in_transaction ss)"

lemma login_tx [simp]:
  "ss_tx (snd (login A acl name pw ss)) = ss_tx ss"
  "ss_in_transaction (snd (login A acl name pw ss)) = ss_in_transaction ss"
  by (simp_all add: login_def split: sum.split)

definition same_tx :: "session \<Rightarrow> session \<Rightarrow> bool" where
  "same_tx ss ss' \<longleftrightarrow> ss_tx ss' = ss_tx ss \<and> ss_in_transaction ss' = ss_in_transaction ss"

lemma handle_auth_tx: "pred_option (same_tx ss \<circ> snd) (handle_auth A acl frame ss)"
  by (simp add: handle_auth_def same_tx_def split: list.split frame.split)

lemma apply_hello_extra_args_tx: "same_tx ss (snd (apply_hello_extra_args A acl extra ss))"
  by (simp add: apply_hello_extra_args_def same_tx_def split: list.split frame.split sum.split)

lemma hello_version_tx: "same_tx ss (snd (hello_version A acl p c role mode extra ss))"
proof -
  obtain r ss1 where "apply_hello_extra_args A acl extra ss = (r, ss1)" by fastforce
  with apply_hello_extra_args_tx [of ss A acl extra] show ?thesis
    by (simp add: hello_version_def same_tx_def Let_def split: sum.split)
qed

lemma same_tx_refl [simp]: "same_tx ss ss"
  by (simp add: same_tx_def)

lemma handle_hello_tx: "pred_option (same_tx ss \<circ> snd) (handle_hello A c sv frame ss)"
  by (simp add: handle_hello_def Let_def hello_version_tx split: list.split frame.split)

lemma handle_client_tx: "pred_option (same_tx ss \<circ> snd) (handle_client c frame ss)"
  by (simp add: handle_client_def same_tx_def Let_def split: option.split)

lemma ensure_push_channel_core:
  "core (fst (snd (ensure_push_channel ss sv))) (snd (snd (ensure_push_channel ss sv))) = core ss sv"
  by (auto simp: ensure_push_channel_def core_def Let_def split: option.split)

lemma count_set_names_tx [simp]:
  "ss_tx (count_subscriptions (set_kind_names k names ss)) = ss_tx ss"
  "ss_in_transaction (count_subscriptions (set_kind_names k names ss)) = ss_in_transaction ss"
  by (cases k; simp add: count_subscriptions_def)+

lemma subscribe_loop_tx:
  "ss_tx (fst (snd (subscribe_loop k word client tx names ss r))) = ss_tx ss
   \<and> ss_in_transaction (fst (snd (subscribe_loop k word client tx names ss r))) = ss_in_transaction ss"
  by (induction names arbitrary: ss r) (simp_all add: Let_def split_def)

lemma unsubscribe_loop_tx:
  "ss_tx (fst (snd (unsubscribe_loop k word client names ss r))) = ss_tx ss
   \<and> ss_in_transaction (fst (snd (unsubscribe_loop k word client names ss r))) = ss_in_transaction ss"
  by (induction names arbitrary: ss r) (simp_all add: Let_def split_def)

lemma answer_first_server:
  "sv_engine (snd (answer_first alive tx replies sv)) = sv_engine sv"
  "sv_cluster (snd (answer_first alive tx replies sv)) = sv_cluster sv"
  by (simp_all add: answer_first_def split: list.split)

lemma pubsub_subscribe_core:
  "core (fst (snd (pubsub_subscribe k word w c items ss sv))) (snd (snd (pubsub_subscribe k word w c items ss sv)))
   = core ss sv"
  using ensure_push_channel_core [of ss sv]
  by (simp add: pubsub_subscribe_def Let_def split_def core_def subscribe_loop_tx answer_first_server)

lemma pubsub_unsubscribe_core:
  "core (fst (snd (pubsub_unsubscribe k word w c items ss sv))) (snd (snd (pubsub_unsubscribe k word w c items ss sv)))
   = core ss sv"
  using ensure_push_channel_core [of ss sv]
  by (simp add: pubsub_unsubscribe_def Let_def split_def core_def unsubscribe_loop_tx answer_first_server)

lemma pubsub_publish_core: "core ss (snd (pubsub_publish w frame sv)) = core ss sv"
  by (simp add: pubsub_publish_def core_def Let_def split_def send_bytes_def split: option.split)

lemma intercept_for_pubsub_core: "keeps core (intercept_for_pubsub w c frame)"
  by (simp add: keeps_def intercept_for_pubsub_def Let_def split_def pubsub_subscribe_core
      pubsub_unsubscribe_core pubsub_publish_core split: option.split)

lemma handle_save_core: "core ss (snd (handle_save pf \<epsilon> sv)) = core ss sv"
  by (simp add: handle_save_def core_def Let_def split: sum.split option.split)

lemma handle_bgrewriteaof_core: "core ss (snd (handle_bgrewriteaof pf \<epsilon> sv)) = core ss sv"
  by (simp add: handle_bgrewriteaof_def core_def Let_def split: sum.split)

lemma keeps_on_session:
  assumes "\<And>sv ss. pred_option (same_tx ss \<circ> snd) (h sv ss)"
  shows "keeps core (on_session h)"
  unfolding keeps_def
proof (intro allI)
  fix ss sv
  show "core (fst (snd (on_session h ss sv))) (snd (snd (on_session h ss sv))) = core ss sv"
    using assms [of ss sv] by (cases "h sv ss") (auto simp: on_session_def core_def same_tx_def)
qed

lemma core_update:
  "core ss (sv\<lparr>sv_acl := acl\<rparr>) = core ss sv" "core ss (sv\<lparr>sv_link := l\<rparr>) = core ss sv"
  "core ss (sv\<lparr>sv_slowlog := s\<rparr>) = core ss sv"
  by (simp_all add: core_def)

lemma intercept_core: "keeps core (intercept pf w c frame)"
  unfolding intercept_def
  by (rule first_of_keeps)
    (simp add: keeps_reporting keeps_on_acl keeps_on_link keeps_on_slowlog core_update
      keeps_on_command [of core, OF handle_save_core]
      keeps_on_command [of core, OF handle_bgrewriteaof_core]
      keeps_on_session handle_auth_tx handle_hello_tx handle_client_tx intercept_for_pubsub_core)

lemma intercept_coreD: "intercept pf w c frame ss sv = (a, ss', sv') \<Longrightarrow> core ss' sv' = core ss sv"
  using intercept_core [of pf w c frame] unfolding keeps_def by (metis fst_conv snd_conv)

section \<open>A single request\<close>

definition owned :: "'f server \<Rightarrow> bytes set" where
  "owned sv = {k. \<forall>c. sv_cluster sv = Some c \<longrightarrow> owns c (key_slot k)}"

lemma not_redirected_owned:
  assumes "cluster_redirect frame sv = Some None"
  shows "set (command_keys frame) \<subseteq> owned sv"
  using assms
  by (cases "command_keys frame")
    (auto simp: cluster_redirect_def owned_def list_all_iff split: option.splits if_splits)

lemma log_bytes_keeps [simp]:
  "sv_engine (log_bytes b sv) = sv_engine sv" "sv_cluster (log_bytes b sv) = sv_cluster sv"
  "sv_acl (log_bytes b sv) = sv_acl sv" "sv_link (log_bytes b sv) = sv_link sv"
  by (simp_all add: log_bytes_def)

lemma send_bytes_keeps [simp]:
  "sv_engine (send_bytes alive b sv) = sv_engine sv" "sv_cluster (send_bytes alive b sv) = sv_cluster sv"
  "sv_acl (send_bytes alive b sv) = sv_acl sv" "sv_link (send_bytes alive b sv) = sv_link sv"
  by (simp_all add: send_bytes_def)

lemma fold_keeps: "(\<And>b sv. g (h b sv) = g sv) \<Longrightarrow> g (fold h bs sv) = g sv"
  by (induction bs arbitrary: sv) simp_all

lemma log_and_send_keeps [simp]:
  "sv_engine (log_and_send alive fs sv) = sv_engine sv" "sv_cluster (log_and_send alive fs sv) = sv_cluster sv"
  "sv_acl (log_and_send alive fs sv) = sv_acl sv" "sv_link (log_and_send alive fs sv) = sv_link sv"
  by (simp_all add: log_and_send_def Let_def fold_keeps)

lemma marker_keeps [simp]:
  "sv_engine (append_transaction_marker alive n sv) = sv_engine sv"
  "sv_cluster (append_transaction_marker alive n sv) = sv_cluster sv"
  "sv_acl (append_transaction_marker alive n sv) = sv_acl sv"
  by (simp_all add: append_transaction_marker_def Let_def)

lemma write_gates_core: "core ss (snd (write_gates w frame sv)) = core ss sv"
  by (simp add: write_gates_def core_def Let_def)

lemma dispatch_write_path_Some:
  "dispatch_write_path F \<epsilon> frame e = Some (r, fs, e') \<Longrightarrow> dispatch F \<epsilon> frame e = Some (r, e')"
  by (auto simp: dispatch_write_path_def split: option.splits)

lemma gated_cases [consumes 1, case_names redirected refused intercepted ran]:
  assumes "dispatch_and_log_gated pf w c frame ss sv = Some (ans, ss', sv')"
  obtains "cluster_redirect frame sv = Some (Some ans)" "ss' = ss" "sv' = sv"
  | "cluster_redirect frame sv = Some None" "write_gates w frame sv = (Some ans, sv')" "ss' = ss"
  | sv1 where "cluster_redirect frame sv = Some None" "write_gates w frame sv = (None, sv1)"
      "intercept pf w c frame ss sv1 = (Some ans, ss', sv')"
  | sv1 sv2 where "cluster_redirect frame sv = Some None" "write_gates w frame sv = (None, sv1)"
      "intercept pf w c frame ss sv1 = (None, ss', sv2)" "run_on_engine pf w frame sv2 = Some (ans, sv')"
proof -
  obtain r where redirect: "cluster_redirect frame sv = Some r"
    using assms by (cases "cluster_redirect frame sv") (simp_all add: dispatch_and_log_gated_def)
  show thesis
  proof (cases r)
    case (Some redirection)
    have "redirection = ans" "ss' = ss" "sv' = sv"
      using assms by (simp_all add: dispatch_and_log_gated_def redirect Some)
    with redirect Some show thesis by (intro that(1)) simp_all
  next
    case None
    obtain refusal sv1 where gates: "write_gates w frame sv = (refusal, sv1)"
      by (cases "write_gates w frame sv")
    obtain answer ss2 sv2 where int: "intercept pf w c frame ss sv1 = (answer, ss2, sv2)"
      by (cases "intercept pf w c frame ss sv1" rule: prod_cases3)
    note gated = assms [unfolded dispatch_and_log_gated_def redirect None gates int]
    show thesis
    proof (cases refusal)
      case (Some x)
      with gated have "x = ans" "ss' = ss" "sv' = sv1" by simp_all
      with Some redirect None gates show thesis by (intro that(2)) simp_all
    next
      case no: None
      show thesis
      proof (cases answer)
        case (Some x)
        with gated no have "x = ans" "ss' = ss2" "sv' = sv2" by (simp_all add: int)
        with Some no redirect None gates int show thesis by (intro that(3)) simp_all
      next
        case silent: None
        then have "map_option (\<lambda>(x, sv3). (x, ss2, sv3)) (run_on_engine pf w frame sv2) = Some (ans, ss', sv')"
          using gated no by (simp add: int)
        then have ran: "run_on_engine pf w frame sv2 = Some (ans, sv')" and "ss2 = ss'" by auto
        then have "intercept pf w c frame ss sv1 = (None, ss', sv2)" using int silent by simp
        with ran redirect None gates no show thesis by (intro that(4)) simp_all
      qed
    qed
  qed
qed

lemma gated_tx:
  assumes "dispatch_and_log_gated pf w c frame ss sv = Some (ans, ss', sv')"
  shows "same_tx ss ss'"
  using assms
proof (cases rule: gated_cases)
  case (intercepted sv1)
  with intercept_coreD [OF intercepted(3)] show ?thesis by (simp add: core_def same_tx_def)
next
  case (ran sv1 sv2)
  with intercept_coreD [OF ran(3)] show ?thesis by (simp add: core_def same_tx_def)
qed simp_all

lemma gated_effect:
  assumes "dispatch_and_log_gated pf w c frame ss sv = Some (ans, ss', sv')" and "rand_in_range (w_env w)"
  shows "confined (w_env w) (frame_writes frame \<inter> owned sv) (sv_engine sv) (sv_engine sv')
    \<and> sv_cluster sv' = sv_cluster sv \<and> same_tx ss ss'"
  using assms(1)
proof (cases rule: gated_cases)
  case redirected
  then show ?thesis by simp
next
  case refused
  then show ?thesis using write_gates_core [of ss w frame sv] by (simp add: core_def)
next
  case (intercepted sv1)
  then have "core ss' sv' = core ss sv"
    using write_gates_core [of ss w frame sv] intercept_coreD by fastforce
  then show ?thesis by (simp add: core_def same_tx_def)
next
  case (ran sv1 sv2)
  then have "core ss' sv2 = core ss sv"
    using write_gates_core [of ss w frame sv] intercept_coreD by fastforce
  then have sv2: "sv_engine sv2 = sv_engine sv" "sv_cluster sv2 = sv_cluster sv" "same_tx ss ss'"
    by (simp_all add: core_def same_tx_def)
  obtain fs e where run: "dispatch_write_path (pf_floats pf) (w_env w) frame (sv_engine sv2) = Some (ans, fs, e)"
    and sv': "sv' = log_and_send (w_alive w) fs (sv2\<lparr>sv_engine := e\<rparr>)"
    using ran(4) by (auto simp: run_on_engine_def split: option.splits)
  have ran_confined: "confined (w_env w) (if is_error ans then {} else frame_writes frame) (sv_engine sv2) e"
    using dispatch_confined [OF assms(2) dispatch_write_path_Some [OF run]] .
  have "frame_writes frame \<subseteq> owned sv"
    using not_redirected_owned [OF ran(1)] by (auto simp: frame_writes_def)
  then have "confined (w_env w) (frame_writes frame \<inter> owned sv) (sv_engine sv2) e"
    by (intro confined_mono [OF ran_confined]) auto
  then show ?thesis by (simp add: sv' sv2)
qed

section \<open>Transactions and histories\<close>

text \<open>Clocks that do not run past a given moment, in one process.\<close>

definition before :: "env \<Rightarrow> (nat \<Rightarrow> world) \<Rightarrow> bool" where
  "before \<epsilon> ws \<longleftrightarrow> (\<forall>i. rand_in_range (w_env (ws i)) \<and> env_hash (w_env (ws i)) = env_hash \<epsilon>
     \<and> env_now (w_env (ws i)) \<le> env_now \<epsilon>)"

lemma prune_cong: "m k = m' k \<Longrightarrow> prune t m k = prune t m' k" "m k = None \<Longrightarrow> prune t m k = None"
  by (simp_all add: prune_def)

lemma confined_later:
  fixes e e' :: "'f::linorder engine"
  assumes "confined \<epsilon> K e e'" and "env_hash \<epsilon>' = env_hash \<epsilon>" and "env_now \<epsilon> \<le> env_now \<epsilon>'"
  shows "confined \<epsilon>' K e e'"
proof -
  have later: "live \<epsilon>' x = prune (env_now \<epsilon>') (live \<epsilon> x)" for x :: "'f engine"
    using engine_view_later [OF assms(3), of "env_hash \<epsilon>" x] assms(2) by simp
  have same: "live \<epsilon> e' k = live \<epsilon> e k \<Longrightarrow> live \<epsilon>' e' k = live \<epsilon>' e k"
    and gone: "live \<epsilon> e' k = None \<Longrightarrow> live \<epsilon>' e' k = None" for k
    unfolding later by (rule prune_cong, assumption)+
  show ?thesis
    unfolding confined_def
  proof (intro impI conjI allI)
    assume ok: "engine_ok (env_hash \<epsilon>') e"
    then have c: "engine_ok (env_hash \<epsilon>) e" by (simp add: assms(2))
    note d = assms(1) [unfolded confined_def, THEN mp, OF c]
    note kept = conjunct1 [OF conjunct2 [OF d], THEN spec, THEN mp]
    note unlimited = conjunct2 [OF conjunct2 [OF d], THEN mp]
    show "engine_ok (env_hash \<epsilon>') e'" using conjunct1 [OF d] by (simp add: assms(2))
    show "live \<epsilon>' e' k = live \<epsilon>' e k \<or> live \<epsilon>' e' k = None" if "k \<notin> K" for k
      using kept [OF that] same [of k] gone [of k] by (rule disj_forward)
    show "maxmemory e' = None" if "maxmemory e = None" using unlimited [OF that] by (rule conjunct1)
    show "live \<epsilon>' e' k = live \<epsilon>' e k" if "maxmemory e = None" "k \<notin> K" for k
      by (rule same [OF conjunct2 [OF unlimited [OF that(1)], THEN spec, THEN mp, OF that(2)]])
  qed
qed

lemma exec_loop_effect:
  assumes "exec_loop pf ws i c fs ss sv = Some (replies, ss', sv')" and "before \<epsilon> ws"
  shows "confined \<epsilon> (\<Union> (frame_writes ` set fs) \<inter> owned sv) (sv_engine sv) (sv_engine sv')
    \<and> sv_cluster sv' = sv_cluster sv \<and> same_tx ss ss'"
  using assms
proof (induction fs arbitrary: i ss sv replies)
  case (Cons f fs)
  then obtain ans ss1 sv1 rest where one: "dispatch_and_log_gated pf (ws i) c f ss sv = Some (ans, ss1, sv1)"
    and rest: "exec_loop pf ws (i + 1) c fs ss1 sv1 = Some (rest, ss', sv')"
    by (auto split: option.splits)
  have b: "rand_in_range (w_env (ws i))" "env_hash \<epsilon> = env_hash (w_env (ws i))"
    "env_now (w_env (ws i)) \<le> env_now \<epsilon>"
    using assms(2) by (simp_all add: before_def)
  note g = gated_effect [OF one b(1)]
  have o: "owned sv1 = owned sv" using g by (simp add: owned_def)
  have "confined \<epsilon> (\<Union> (frame_writes ` set (f # fs)) \<inter> owned sv) (sv_engine sv) (sv_engine sv1)"
    by (rule confined_mono [OF confined_later [OF conjunct1 [OF g] b(2,3)]]) auto
  moreover have "confined \<epsilon> (\<Union> (frame_writes ` set (f # fs)) \<inter> owned sv) (sv_engine sv1) (sv_engine sv')"
    by (rule confined_mono [OF conjunct1 [OF Cons.IH [OF rest assms(2)]]]) (auto simp: o)
  ultimately show ?case
    using g Cons.IH [OF rest assms(2)] by (auto simp: same_tx_def intro: confined_trans)
qed simp

definition queued :: "session \<Rightarrow> frame list" where
  "queued ss = (case ss_tx ss of Idle \<Rightarrow> [] | Queuing fs _ \<Rightarrow> fs)"

text \<open>What \<open>EXEC\<close> does: nothing but to end the queue, or the queue between two markers or without.\<close>

lemma handle_exec_cases [consumes 1, case_names nothing_run read_only marked]:
  assumes "handle_exec pf ws c ss sv = Some (ans, ss', sv')"
  obtains "sv' = sv" "queued ss' = []"
  | replies ss1 where "exec_loop pf ws 0 c (queued ss) ss1 sv = Some (replies, ss', sv')" "queued ss1 = []"
      "list_all (\<lambda>f. extract_write_command_name f = None) (queued ss)" "ans = FArray replies"
  | replies ss1 sv2 where
      "exec_loop pf ws 0 c (queued ss) ss1 (append_transaction_marker (w_alive (ws 0)) ''MULTI'' sv)
         = Some (replies, ss', sv2)"
      "queued ss1 = []" "list_ex (\<lambda>f. extract_write_command_name f \<noteq> None) (queued ss)" "ans = FArray replies"
      "sv' = append_transaction_marker (w_alive (ws (length (queued ss)))) ''EXEC'' sv2"
proof (cases "ss_tx ss")
  case Idle
  with assms that(1) show thesis by (auto simp: handle_exec_def queued_def)
next
  case q: (Queuing fs dirty)
  let ?ss = "ss\<lparr>ss_tx := Idle, ss_in_transaction := False\<rparr>"
  have idle: "queued ?ss = []" and fs: "queued ss = fs" by (simp_all add: queued_def q)
  show thesis
  proof (cases dirty)
    case True
    with assms q idle show thesis by (intro that(1)) (auto simp: handle_exec_def Let_def)
  next
    case False
    show thesis
    proof (cases "list_ex (\<lambda>f. extract_write_command_name f \<noteq> None) fs")
      case w: True
      with assms q False that(3) idle show thesis
        by (auto simp: handle_exec_def Let_def fs simp del: not_None_eq split: option.splits)
    next
      case r: False
      have "list_all (\<lambda>f. extract_write_command_name f = None) fs" using r by (simp add: list_ex_iff list_all_iff)
      with assms q False r that(2) idle show thesis
        by (auto simp: handle_exec_def Let_def fs simp del: not_None_eq split: option.splits)
    qed
  qed
qed

lemma handle_exec_effect:
  assumes "handle_exec pf ws c ss sv = Some (ans, ss', sv')" and "before \<epsilon> ws"
  shows "confined \<epsilon> (\<Union> (frame_writes ` set (queued ss)) \<inter> owned sv) (sv_engine sv) (sv_engine sv')
    \<and> sv_cluster sv' = sv_cluster sv \<and> queued ss' = []"
  using assms(1)
proof (cases rule: handle_exec_cases)
  case nothing_run
  then show ?thesis by simp
next
  case (read_only replies ss1)
  with exec_loop_effect [OF read_only(1) assms(2)] show ?thesis by (simp add: queued_def same_tx_def)
next
  case (marked replies ss1 sv2)
  with exec_loop_effect [OF marked(1) assms(2)] show ?thesis by (simp add: queued_def same_tx_def owned_def)
qed

definition passes :: "'f server \<Rightarrow> session \<Rightarrow> frame \<Rightarrow> bool" where
  "passes sv ss frame \<longleftrightarrow> auth_gate (sv_acl sv) ss frame = None"

lemma queue_command_queued:
  "queue_command name frame ss = Some (ans, ss') \<Longrightarrow> set (queued ss') \<subseteq> insert frame (set (queued ss))"
  by (auto simp: queue_command_def queued_def split: if_splits transaction_state.splits)

lemma same_tx_queued: "same_tx ss ss' \<Longrightarrow> queued ss' = queued ss"
  by (simp add: same_tx_def queued_def)

lemma transaction_cases [consumes 1, case_names multi discard exec queue]:
  assumes "intercept_for_transaction pf ws c frame ss sv = Some (Some (ans, ss', sv'))"
  obtains "handle_multi ss = (ans, ss')" "sv' = sv"
  | "handle_discard ss = (ans, ss')" "sv' = sv"
  | "handle_exec pf ws c ss sv = Some (ans, ss', sv')"
  | name where "queue_command name frame ss = Some (ans, ss')" "sv' = sv"
  using assms
  by (auto simp: intercept_for_transaction_def split: option.splits if_splits prod.splits)

lemma inner_effect:
  assumes "dispatch_and_log_inner pf ws c frame ss sv = Some (ans, ss', sv')" and "before \<epsilon> ws"
  defines "fs \<equiv> (if passes sv ss frame then {frame} else {}) \<union> set (queued ss)"
  shows "confined \<epsilon> (\<Union> (frame_writes ` fs) \<inter> owned sv) (sv_engine sv) (sv_engine sv')
    \<and> sv_cluster sv' = sv_cluster sv \<and> set (queued ss') \<subseteq> fs"
proof -
  have gated: ?thesis if "dispatch_and_log_gated pf (ws 0) c frame ss sv = Some (ans, ss', sv')"
    and "passes sv ss frame"
  proof -
    have b: "rand_in_range (w_env (ws 0))" "env_hash \<epsilon> = env_hash (w_env (ws 0))"
      "env_now (w_env (ws 0)) \<le> env_now \<epsilon>"
      using assms(2) by (simp_all add: before_def)
    note g = gated_effect [OF that(1) b(1)]
    have "confined \<epsilon> (\<Union> (frame_writes ` fs) \<inter> owned sv) (sv_engine sv) (sv_engine sv')"
      by (rule confined_mono [OF confined_later [OF conjunct1 [OF g] b(2,3)]]) (auto simp: fs_def that(2))
    with g show ?thesis using same_tx_queued [of ss ss'] by (auto simp: fs_def)
  qed
  have exec: ?thesis if "handle_exec pf ws c ss sv = Some (ans, ss', sv')"
    using handle_exec_effect [OF that assms(2)] by (auto simp: fs_def intro: confined_mono)
  have idle: ?thesis if "sv' = sv" and "set (queued ss') \<subseteq> fs"
    using that by simp
  have multi: "set (queued (snd (handle_multi ss))) \<subseteq> fs" "set (queued (snd (handle_discard ss))) \<subseteq> fs"
    by (auto simp: handle_multi_def handle_discard_def queued_def fs_def split: transaction_state.splits)
  show ?thesis
  proof (cases "auth_gate (sv_acl sv) ss frame = None \<and> subscribe_mode_gate frame ss = None")
    case False
    with assms(1) have "sv' = sv \<and> ss' = ss"
      by (auto simp: dispatch_and_log_inner_def split: option.splits)
    with idle show ?thesis by (simp add: fs_def)
  next
    case gates: True
    then have p: "passes sv ss frame" by (simp add: passes_def)
    have tx: ?thesis if "intercept_for_transaction pf ws c frame ss sv = Some (Some (ans, ss', sv'))"
      using that
    proof (cases rule: transaction_cases)
      case multi
      then show ?thesis using \<open>set (queued (snd (handle_multi ss))) \<subseteq> fs\<close> idle by (metis snd_conv)
    next
      case discard
      then show ?thesis using \<open>set (queued (snd (handle_discard ss))) \<subseteq> fs\<close> idle by (metis snd_conv)
    next
      case exec
      then show ?thesis by (rule \<open>handle_exec pf ws c ss sv = Some (ans, ss', sv') \<Longrightarrow> _\<close>)
    next
      case (queue name)
      with queue_command_queued [OF queue(1)] p show ?thesis by (intro idle) (auto simp: fs_def)
    qed
    show ?thesis
      using assms(1) gates gated [OF _ p] tx
      by (auto simp: dispatch_and_log_inner_def split: option.splits)
  qed
qed

end
