(* ===== verification/Spec2Isabelle.thy ===== *)
theory Spec2Isabelle
  imports Rm_Engine Rm_Text Rm_Keys Rm_String Rm_List Rm_Hash Rm_Set Rm_ZSet Rm_Glob Rm_Snapshot
    Rm_Resp Rm_Rmp Rm_Cluster Rm_Acl Rm_Dispatch Rm_Effects Rm_Access Rm_Answer Rm_Log Rm_Recover Rm_Rewrite Rm_Mirror Rm_Replay
    Rm_Pubsub Rm_Slowlog Rm_Health Rm_Request Rm_Guard
begin

text \<open>
  A verification library for rocket-mem. The header is completed below.
\<close>

end
